(* ===== verification/Prelude.thy ===== *)
theory Prelude
  imports Main "HOL-Library.Word" "HOL-Library.AList" "HOL-Library.Multiset" "HOL-Library.List_Lexorder" "HOL-Library.Char_ord"
begin

text \<open>
  Shared vocabulary of the development: the machine types of the Rust sources, faults
  (an \<open>Err\<close> value, a panic, a loop that ran out of its bound), state-passing operations with
  early return, the checked and saturating arithmetic of the integer types, and big-endian
  byte strings.
\<close>

section \<open>Machine types\<close>

type_synonym u8 = "8 word"
type_synonym u32 = "32 word"
type_synonym u64 = "64 word"
type_synonym u128 = "128 word"
type_synonym u256 = "256 word"
type_synonym bytes = "u8 list"

text \<open>An \<open>Address\<close> is twenty bytes, read here as one 160-bit number.\<close>

type_synonym address = "160 word"

section \<open>Faults and state-passing operations\<close>

text \<open>
  A Rust call either returns a value, returns \<open>Err e\<close>, panics, or (for the loops and the
  recursion whose bound is an explicit fuel argument here) has not returned within its bound.
  The mutated state is kept on every outcome, as it is in the program.
\<close>

datatype 'e fault = Err 'e | Panic | OutOfFuel

type_synonym ('s, 'e, 'a) op = "'s \<Rightarrow> ('e fault + 'a) \<times> 's"

definition op_ret :: "'a \<Rightarrow> ('s, 'e, 'a) op" where
  "op_ret x = (\<lambda>s. (Inr x, s))"

definition op_fail :: "'e fault \<Rightarrow> ('s, 'e, 'a) op" where
  "op_fail f = (\<lambda>s. (Inl f, s))"

text \<open>The \<open>?\<close> operator: go on with the value, or return the fault at once.\<close>

definition op_bind :: "('s, 'e, 'a) op \<Rightarrow> ('a \<Rightarrow> ('s, 'e, 'b) op) \<Rightarrow> ('s, 'e, 'b) op" where
  "op_bind m k = (\<lambda>s. case m s of (Inl f, s') \<Rightarrow> (Inl f, s') | (Inr x, s') \<Rightarrow> k x s')"

text \<open>An index, slice or assertion that panics when it is out of range.\<close>

definition op_expect :: "'a option \<Rightarrow> ('s, 'e, 'a) op" where
  "op_expect v = (case v of None \<Rightarrow> op_fail Panic | Some x \<Rightarrow> op_ret x)"

text \<open>A \<open>for\<close> loop that updates \<open>b\<close> and may return early.\<close>

fun op_fold :: "('a \<Rightarrow> 'b \<Rightarrow> ('s, 'e, 'b) op) \<Rightarrow> 'a list \<Rightarrow> 'b \<Rightarrow> ('s, 'e, 'b) op" where
  "op_fold f [] b = op_ret b"
| "op_fold f (x # xs) b = op_bind (f x b) (op_fold f xs)"

named_theorems op_defs \<open>definitions of the state-passing operations\<close>

declare op_ret_def [op_defs] op_fail_def [op_defs] op_bind_def [op_defs] op_expect_def [op_defs]

lemma op_bind_Inr [simp]: "m s = (Inr x, s') \<Longrightarrow> op_bind m k s = k x s'"
  by (simp add: op_bind_def)

lemma op_bind_Inl [simp]: "m s = (Inl f, s') \<Longrightarrow> op_bind m k s = (Inl f, s')"
  by (simp add: op_bind_def)

lemma op_ret_apply [simp]: "op_ret x s = (Inr x, s)"
  by (simp add: op_ret_def)

lemma op_fail_apply [simp]: "op_fail f s = (Inl f, s)"
  by (simp add: op_fail_def)

lemma op_expect_Some [simp]: "op_expect (Some x) = op_ret x"
  by (simp add: op_expect_def)

lemma op_expect_None [simp]: "op_expect None = op_fail Panic"
  by (simp add: op_expect_def)

lemma op_bind_ret [simp]: "op_bind (op_ret x) k = k x"
  by (simp add: op_bind_def op_ret_def fun_eq_iff)

lemma op_bind_fail [simp]: "op_bind (op_fail f) k = op_fail f"
  by (simp add: op_bind_def op_fail_def fun_eq_iff)

section \<open>Array access\<close>

definition index_opt :: "'a list \<Rightarrow> nat \<Rightarrow> 'a option" where
  "index_opt xs i = (if i < length xs then Some (xs ! i) else None)"

lemma index_opt_in [simp]: "i < length xs \<Longrightarrow> index_opt xs i = Some (xs ! i)"
  by (simp add: index_opt_def)

section \<open>Checked and saturating arithmetic\<close>

definition w_checked_add :: "'a::len word \<Rightarrow> 'a word \<Rightarrow> 'a word option" where
  "w_checked_add a b = (if unat a + unat b < 2 ^ LENGTH('a) then Some (a + b) else None)"

definition w_checked_sub :: "'a::len word \<Rightarrow> 'a word \<Rightarrow> 'a word option" where
  "w_checked_sub a b = (if b \<le> a then Some (a - b) else None)"

definition w_checked_mul :: "'a::len word \<Rightarrow> 'a word \<Rightarrow> 'a word option" where
  "w_checked_mul a b = (if unat a * unat b < 2 ^ LENGTH('a) then Some (a * b) else None)"

definition w_checked_div :: "'a::len word \<Rightarrow> 'a word \<Rightarrow> 'a word option" where
  "w_checked_div a b = (if b = 0 then None else Some (a div b))"

definition w_sat_add :: "'a::len word \<Rightarrow> 'a word \<Rightarrow> 'a word" where
  "w_sat_add a b = (case w_checked_add a b of Some c \<Rightarrow> c | None \<Rightarrow> - 1)"

definition w_sat_sub :: "'a::len word \<Rightarrow> 'a word \<Rightarrow> 'a word" where
  "w_sat_sub a b = (case w_checked_sub a b of Some c \<Rightarrow> c | None \<Rightarrow> 0)"

definition w_sat_mul :: "'a::len word \<Rightarrow> 'a word \<Rightarrow> 'a word" where
  "w_sat_mul a b = (case w_checked_mul a b of Some c \<Rightarrow> c | None \<Rightarrow> - 1)"

lemma unat_checked_add:
  "w_checked_add a b = Some (c :: 'a::len word) \<Longrightarrow> unat c = unat a + unat b"
  by (auto simp: w_checked_add_def unat_word_ariths split: if_splits)

lemma unat_checked_sub:
  "w_checked_sub a b = Some (c :: 'a::len word) \<Longrightarrow> unat c = unat a - unat b"
  by (auto simp: w_checked_sub_def unat_sub split: if_splits)

lemma unat_checked_mul:
  "w_checked_mul a b = Some (c :: 'a::len word) \<Longrightarrow> unat c = unat a * unat b"
  by (auto simp: w_checked_mul_def unat_word_ariths split: if_splits)

lemma unat_sat_add:
  "unat (w_sat_add a b) = min (unat a + unat b) (2 ^ LENGTH('a) - 1)"
  for a b :: "'a::len word"
proof (cases "unat a + unat b < 2 ^ LENGTH('a)")
  case True
  then show ?thesis
    by (simp add: w_sat_add_def w_checked_add_def unat_word_ariths)
next
  case False
  then show ?thesis
    by (simp add: w_sat_add_def w_checked_add_def unsigned_minus_1_eq_mask mask_eq_exp_minus_1 min_absorb2)
qed

lemma unat_sat_sub:
  "unat (w_sat_sub a b) = unat a - unat b" for a b :: "'a::len word"
  by (auto simp: w_sat_sub_def w_checked_sub_def unat_sub word_le_nat_alt)

lemma w_sat_add_exact:
  "unat a + unat b < 2 ^ LENGTH('a) \<Longrightarrow> w_sat_add a b = a + (b :: 'a::len word)"
  by (simp add: w_sat_add_def w_checked_add_def)

section \<open>Big-endian byte strings\<close>

text \<open>\<open>be_bytes k n\<close> is \<open>n\<close> as \<open>k\<close> bytes, most significant first; \<open>be_nat\<close> reads it back.\<close>

fun be_bytes :: "nat \<Rightarrow> nat \<Rightarrow> bytes" where
  "be_bytes 0 n = []"
| "be_bytes (Suc k) n = be_bytes k (n div 256) @ [of_nat (n mod 256)]"

definition be_nat :: "bytes \<Rightarrow> nat" where
  "be_nat bs = foldl (\<lambda>a b. a * 256 + unat b) 0 bs"

lemma length_be_bytes [simp]: "length (be_bytes k n) = k"
  by (induction k arbitrary: n) auto

lemma be_nat_snoc [simp]: "be_nat (bs @ [b]) = be_nat bs * 256 + unat b"
  by (simp add: be_nat_def)

lemma be_nat_be_bytes: "be_nat (be_bytes k n) = n mod 256 ^ k"
proof (induction k arbitrary: n)
  case 0
  then show ?case by (simp add: be_nat_def)
next
  case (Suc k)
  have "be_nat (be_bytes (Suc k) n) = (n div 256 mod 256 ^ k) * 256 + n mod 256"
    by (simp add: Suc.IH unat_of_nat)
  also have "\<dots> = n mod 256 ^ Suc k"
    by (simp add: mod_mult2_eq mult.commute)
  finally show ?case .
qed

lemma be_bytes_inject:
  assumes "be_bytes k m = be_bytes k n" and "m < 256 ^ k" and "n < 256 ^ k"
  shows "m = n"
proof -
  have "be_nat (be_bytes k m) = be_nat (be_bytes k n)"
    using assms(1) by simp
  then show ?thesis
    using assms(2,3) by (simp add: be_nat_be_bytes)
qed

lemma be_nat_bound: "be_nat bs < 256 ^ length bs"
proof (induction bs rule: rev_induct)
  case Nil
  then show ?case by (simp add: be_nat_def)
next
  case (snoc b bs)
  have "unat b < 256"
    using unsigned_less [of b, where 'a = nat] by simp
  with snoc show ?case by (simp add: add.commute)
qed

lemma be_bytes_be_nat: "be_bytes (length bs) (be_nat bs) = bs"
proof (induction bs rule: rev_induct)
  case (snoc b bs)
  have b: "unat b < 256"
    using unsigned_less [of b, where 'a = nat] by simp
  then have "of_nat (unat b mod 256) = b" by simp
  with snoc b show ?case by (simp add: add.commute)
qed (simp add: be_nat_def)

end
