(* ===== verification/Primitives.thy ===== *)
theory Primitives
  imports Prelude
begin

text \<open>
  The primitive types of \<open>qfc-types\<close> (\<open>primitives.rs\<close>) and the network constants
  (\<open>constants.rs\<close>). A \<open>U256\<close> is a 256-bit word. Its operators panic on overflow and
  underflow, so they return an option here, with \<open>None\<close> for the panic; the \<open>checked_\<close> and
  \<open>saturating_\<close> methods return what they return in the program.
\<close>

section \<open>U256\<close>

definition u256_checked_add :: "u256 \<Rightarrow> u256 \<Rightarrow> u256 option" where
  "u256_checked_add a b = w_checked_add a b"

definition u256_checked_sub :: "u256 \<Rightarrow> u256 \<Rightarrow> u256 option" where
  "u256_checked_sub a b = w_checked_sub a b"

definition u256_checked_mul :: "u256 \<Rightarrow> u256 \<Rightarrow> u256 option" where
  "u256_checked_mul a b = w_checked_mul a b"

definition u256_checked_div :: "u256 \<Rightarrow> u256 \<Rightarrow> u256 option" where
  "u256_checked_div a b = w_checked_div a b"

definition u256_saturating_add :: "u256 \<Rightarrow> u256 \<Rightarrow> u256" where
  "u256_saturating_add a b = w_sat_add a b"

definition u256_saturating_sub :: "u256 \<Rightarrow> u256 \<Rightarrow> u256" where
  "u256_saturating_sub a b = w_sat_sub a b"

definition u256_saturating_mul :: "u256 \<Rightarrow> u256 \<Rightarrow> u256" where
  "u256_saturating_mul a b = w_sat_mul a b"

text \<open>The operators \<open>+\<close>, \<open>-\<close>, \<open>*\<close> and \<open>/\<close>; \<open>None\<close> is the panic.\<close>

definition u256_add :: "u256 \<Rightarrow> u256 \<Rightarrow> u256 option" where
  "u256_add a b = w_checked_add a b"

definition u256_sub :: "u256 \<Rightarrow> u256 \<Rightarrow> u256 option" where
  "u256_sub a b = w_checked_sub a b"

definition u256_mul :: "u256 \<Rightarrow> u256 \<Rightarrow> u256 option" where
  "u256_mul a b = w_checked_mul a b"

definition u256_div :: "u256 \<Rightarrow> u256 \<Rightarrow> u256 option" where
  "u256_div a b = w_checked_div a b"

definition u256_from_u64 :: "u64 \<Rightarrow> u256" where
  "u256_from_u64 v = ucast v"

definition u256_from_u128 :: "u128 \<Rightarrow> u256" where
  "u256_from_u128 v = ucast v"

definition u256_low_u64 :: "u256 \<Rightarrow> u64" where
  "u256_low_u64 v = ucast v"

definition u256_low_u128 :: "u256 \<Rightarrow> u128" where
  "u256_low_u128 v = ucast v"

definition u256_is_zero :: "u256 \<Rightarrow> bool" where
  "u256_is_zero v \<longleftrightarrow> v = 0"

definition u256_to_be_bytes :: "u256 \<Rightarrow> bytes" where
  "u256_to_be_bytes v = be_bytes 32 (unat v)"

definition u256_from_be_bytes :: "bytes \<Rightarrow> u256" where
  "u256_from_be_bytes bs = of_nat (be_nat bs)"

definition u256_to_le_bytes :: "u256 \<Rightarrow> bytes" where
  "u256_to_le_bytes v = rev (be_bytes 32 (unat v))"

definition u256_from_le_bytes :: "bytes \<Rightarrow> u256" where
  "u256_from_le_bytes bs = of_nat (be_nat (rev bs))"

section \<open>Addresses\<close>

definition address_as_bytes :: "address \<Rightarrow> bytes" where
  "address_as_bytes a = be_bytes 20 (unat a)"

definition address_from_slice :: "bytes \<Rightarrow> address option" where
  "address_from_slice bs = (if length bs \<noteq> 20 then None else Some (of_nat (be_nat bs)))"

section \<open>Constants\<close>

definition MINIMUM_GAS :: u64 where "MINIMUM_GAS = 21000"
definition TRANSFER_GAS :: u64 where "TRANSFER_GAS = 21000"
definition CONTRACT_CREATE_GAS :: u64 where "CONTRACT_CREATE_GAS = 53000"
definition GAS_PER_BYTE :: u64 where "GAS_PER_BYTE = 16"
definition GAS_PER_ZERO_BYTE :: u64 where "GAS_PER_ZERO_BYTE = 4"
definition ONE_QFC :: u128 where "ONE_QFC = 1000000000000000000"
definition MIN_VALIDATOR_STAKE :: u128 where "MIN_VALIDATOR_STAKE = 10000000000000000000000"
definition MIN_DELEGATION :: u128 where "MIN_DELEGATION = 100 * ONE_QFC"
definition MAX_VALIDATOR_STAKE_PERCENT :: u64 where "MAX_VALIDATOR_STAKE_PERCENT = 20"
definition UNSTAKE_DELAY_SECS :: u64 where "UNSTAKE_DELAY_SECS = 7 * 24 * 60 * 60"
definition BLOCK_REWARD :: u128 where "BLOCK_REWARD = 10000000000000000000"
definition MIN_BLOCK_REWARD :: u128 where "MIN_BLOCK_REWARD = 625000000000000000"

lemmas gas_constants = MINIMUM_GAS_def TRANSFER_GAS_def CONTRACT_CREATE_GAS_def
  GAS_PER_BYTE_def GAS_PER_ZERO_BYTE_def

lemmas stake_constants = ONE_QFC_def MIN_VALIDATOR_STAKE_def MIN_DELEGATION_def
  MAX_VALIDATOR_STAKE_PERCENT_def UNSTAKE_DELAY_SECS_def

text \<open>\<open>max_validator_stake\<close>: the multiplication panics when it overflows.\<close>

definition max_validator_stake :: "u256 \<Rightarrow> u256 option" where
  "max_validator_stake total_stake =
     Option.bind (u256_mul total_stake (u256_from_u64 MAX_VALIDATOR_STAKE_PERCENT))
       (\<lambda>p. u256_div p (u256_from_u64 100))"

definition block_reward_for_year :: "u64 \<Rightarrow> u256" where
  "block_reward_for_year year =
     (let halvings = min year 4;
          reward = drop_bit (unat halvings) BLOCK_REWARD;
          final_reward = max reward MIN_BLOCK_REWARD
      in u256_from_u128 final_reward)"

section \<open>Arithmetic facts used by the components\<close>

named_theorems u256_defs \<open>definitions of the U256 operations\<close>

declare u256_checked_add_def [u256_defs] u256_checked_sub_def [u256_defs]
  u256_checked_mul_def [u256_defs] u256_checked_div_def [u256_defs]
  u256_saturating_add_def [u256_defs] u256_saturating_sub_def [u256_defs]
  u256_saturating_mul_def [u256_defs] u256_add_def [u256_defs] u256_sub_def [u256_defs]
  u256_mul_def [u256_defs] u256_div_def [u256_defs]

lemma unat_u256_bound: "unat (x :: u256) < 2 ^ 256"
  using unsigned_less [of x, where 'a = nat] by simp

lemma unat_u64_bound: "unat (x :: u64) < 2 ^ 64"
  using unsigned_less [of x, where 'a = nat] by simp

lemma u256_add_Some: "u256_add a b = Some c \<Longrightarrow> unat c = unat a + unat b"
  by (simp add: u256_add_def unat_checked_add)

lemma u256_sub_Some: "u256_sub a b = Some c \<Longrightarrow> unat c = unat a - unat b \<and> b \<le> a"
  by (auto simp: u256_sub_def unat_checked_sub) (auto simp: w_checked_sub_def split: if_splits)

lemma u256_mul_Some: "u256_mul a b = Some c \<Longrightarrow> unat c = unat a * unat b"
  by (simp add: u256_mul_def unat_checked_mul)

lemma u256_saturating_add_exact:
  "unat a + unat b < 2 ^ 256 \<Longrightarrow> unat (u256_saturating_add a b) = unat a + unat b"
  by (simp add: u256_saturating_add_def unat_sat_add)

lemma unat_u256_saturating_add_le:
  "unat (u256_saturating_add a b) \<le> unat a + unat b"
  by (simp add: u256_saturating_add_def unat_sat_add)

lemma unat_u256_saturating_sub [simp]:
  "unat (u256_saturating_sub a b) = unat a - unat b"
  by (simp add: u256_saturating_sub_def unat_sat_sub)

lemma unat_u256_from_u64 [simp]: "unat (u256_from_u64 v) = unat v"
  by (simp add: u256_from_u64_def unsigned_ucast_eq take_bit_nat_eq_self_iff)
     (use unat_u64_bound [of v] in simp)

lemma unat_u256_from_u128 [simp]: "unat (u256_from_u128 v) = unat v"
proof -
  have "unat v < 2 ^ 128"
    using unsigned_less [of v, where 'a = nat] by simp
  then show ?thesis
    by (simp add: u256_from_u128_def unsigned_ucast_eq take_bit_nat_eq_self_iff)
qed

lemma u256_be_roundtrip [simp]: "u256_from_be_bytes (u256_to_be_bytes v) = v"
proof -
  have "(256 :: nat) ^ 32 = 2 ^ 256" by simp
  with unat_u256_bound [of v] show ?thesis
    by (simp add: u256_from_be_bytes_def u256_to_be_bytes_def be_nat_be_bytes)
qed

lemma length_u256_to_be_bytes [simp]: "length (u256_to_be_bytes v) = 32"
  by (simp add: u256_to_be_bytes_def)

lemma length_address_as_bytes [simp]: "length (address_as_bytes a) = 20"
  by (simp add: address_as_bytes_def)

lemma address_roundtrip [simp]: "address_from_slice (address_as_bytes a) = Some a"
proof -
  have "unat a < 2 ^ 160"
    using unsigned_less [of a, where 'a = nat] by simp
  moreover have "(256 :: nat) ^ 20 = 2 ^ 160" by simp
  ultimately show ?thesis
    by (simp add: address_from_slice_def address_as_bytes_def be_nat_be_bytes)
qed

lemma address_as_bytes_inject [simp]: "address_as_bytes a = address_as_bytes b \<longleftrightarrow> a = b"
  by (metis address_roundtrip option.inject)

lemma u256_to_be_bytes_inject [simp]: "u256_to_be_bytes a = u256_to_be_bytes b \<longleftrightarrow> a = b"
  by (metis u256_be_roundtrip)

end
