(* ===== verification/Storage.thy ===== *)
theory Storage
  imports Primitives
begin

text \<open>
  The database of \<open>qfc-storage\<close>: column families (\<open>schema.rs\<close>), write batches (\<open>batch.rs\<close>) and
  the \<open>Database\<close> methods (\<open>db.rs\<close>). RocksDB itself is a parameter: the record \<open>rocks\<close> holds its
  calls over a state of unknown type \<open>'d\<close>, and \<open>rocks_ok\<close> names what its documentation promises
  when no I/O error occurs (a sorted key-value map per column family, atomic batches). The
  hot-key sampler of \<open>Database\<close> only counts accesses and is left out.
\<close>

section \<open>Hashes\<close>

text \<open>
  A \<open>Hash\<close> is its byte string. The length 32 is not part of the type, so that a hash function
  without collisions is a satisfiable hypothesis.
\<close>

type_synonym hash = bytes

definition hash_ZERO :: hash where
  "hash_ZERO = replicate 32 0"

section \<open>Column families and batches\<close>

datatype cf = BLOCK_HEADERS | BLOCK_BODIES | BLOCK_HASH_INDEX | BLOCKS_BY_HASH | TRANSACTIONS
  | TX_INDEX | RECEIPTS | STATE | CODE | METADATA | VALIDATORS | REWARDS | DELEGATIONS
  | UNDELEGATIONS | CHECKPOINTS | WORK_PROOFS | ETH_TX_INDEX | ETH_TX_META | MINER_EARNINGS
  | TASKS | TRAINING_COMMITMENTS

datatype batch_op = BatchPut cf bytes bytes | BatchDelete cf bytes

type_synonym write_batch = "batch_op list"

definition batch_put :: "cf \<Rightarrow> bytes \<Rightarrow> bytes \<Rightarrow> write_batch \<Rightarrow> write_batch" where
  "batch_put c k v b = b @ [BatchPut c k v]"

definition batch_delete :: "cf \<Rightarrow> bytes \<Rightarrow> write_batch \<Rightarrow> write_batch" where
  "batch_delete c k b = b @ [BatchDelete c k]"

section \<open>Keys\<close>

definition encode_block_number :: "u64 \<Rightarrow> bytes" where
  "encode_block_number n = be_bytes 8 (unat n)"

definition decode_block_number :: "bytes \<Rightarrow> u64 option" where
  "decode_block_number bs = (if length bs \<noteq> 8 then None else Some (of_nat (be_nat bs)))"

definition encode_tx_location :: "u64 \<Rightarrow> u32 \<Rightarrow> bytes" where
  "encode_tx_location h i = be_bytes 8 (unat h) @ be_bytes 4 (unat i)"

definition decode_tx_location :: "bytes \<Rightarrow> (u64 \<times> u32) option" where
  "decode_tx_location bs =
     (if length bs \<noteq> 12 then None
      else Some (of_nat (be_nat (take 8 bs)), of_nat (be_nat (drop 8 bs))))"

section \<open>RocksDB\<close>

text \<open>An error of the library is its message.\<close>

record 'd rocks =
  rk_get :: "'d \<Rightarrow> cf \<Rightarrow> bytes \<Rightarrow> string + bytes option"
  rk_put :: "'d \<Rightarrow> cf \<Rightarrow> bytes \<Rightarrow> bytes \<Rightarrow> (string + unit) \<times> 'd"
  rk_delete :: "'d \<Rightarrow> cf \<Rightarrow> bytes \<Rightarrow> (string + unit) \<times> 'd"
  rk_write :: "'d \<Rightarrow> batch_op list \<Rightarrow> (string + unit) \<times> 'd"
  rk_iter_from :: "'d \<Rightarrow> cf \<Rightarrow> bytes \<Rightarrow> (string + bytes \<times> bytes) list"

type_synonym kv_map = "cf \<Rightarrow> bytes \<Rightarrow> bytes option"

definition kv :: "('d, 'z) rocks_scheme \<Rightarrow> 'd \<Rightarrow> kv_map" where
  "kv R d c k = (case rk_get R d c k of Inl e \<Rightarrow> None | Inr v \<Rightarrow> v)"

fun apply_batch_op :: "batch_op \<Rightarrow> kv_map \<Rightarrow> kv_map" where
  "apply_batch_op (BatchPut c k v) m = m(c := (m c)(k \<mapsto> v))"
| "apply_batch_op (BatchDelete c k) m = m(c := (m c)(k := None))"

definition rocks_ok :: "('d, 'z) rocks_scheme \<Rightarrow> bool" where
  "rocks_ok R \<longleftrightarrow>
     (\<forall>d c k. rk_get R d c k = Inr (kv R d c k)) \<and>
     (\<forall>d c k v. \<exists>d'. rk_put R d c k v = (Inr (), d') \<and>
                      kv R d' = apply_batch_op (BatchPut c k v) (kv R d)) \<and>
     (\<forall>d c k. \<exists>d'. rk_delete R d c k = (Inr (), d') \<and>
                    kv R d' = apply_batch_op (BatchDelete c k) (kv R d)) \<and>
     (\<forall>d ops. \<exists>d'. rk_write R d ops = (Inr (), d') \<and> kv R d' = fold apply_batch_op ops (kv R d)) \<and>
     (\<forall>d c k. \<exists>xs. rk_iter_from R d c k = map Inr xs \<and> sorted_wrt (<) (map fst xs) \<and>
                    (\<forall>x v. (x, v) \<in> set xs \<longleftrightarrow> k \<le> x \<and> kv R d c x = Some v))"

section \<open>Database methods\<close>

definition db_get :: "('d, 'z) rocks_scheme \<Rightarrow> cf \<Rightarrow> bytes \<Rightarrow> ('d, string, bytes option) op" where
  "db_get R c k = (\<lambda>d. case rk_get R d c k of Inl e \<Rightarrow> (Inl (Err e), d) | Inr v \<Rightarrow> (Inr v, d))"

definition db_put :: "('d, 'z) rocks_scheme \<Rightarrow> cf \<Rightarrow> bytes \<Rightarrow> bytes \<Rightarrow> ('d, string, unit) op" where
  "db_put R c k v = (\<lambda>d. case rk_put R d c k v of
     (Inl e, d') \<Rightarrow> (Inl (Err e), d') | (Inr u, d') \<Rightarrow> (Inr (), d'))"

definition db_delete :: "('d, 'z) rocks_scheme \<Rightarrow> cf \<Rightarrow> bytes \<Rightarrow> ('d, string, unit) op" where
  "db_delete R c k = (\<lambda>d. case rk_delete R d c k of
     (Inl e, d') \<Rightarrow> (Inl (Err e), d') | (Inr u, d') \<Rightarrow> (Inr (), d'))"

definition db_write_batch :: "('d, 'z) rocks_scheme \<Rightarrow> write_batch \<Rightarrow> ('d, string, unit) op" where
  "db_write_batch R b = (\<lambda>d. case rk_write R d b of
     (Inl e, d') \<Rightarrow> (Inl (Err e), d') | (Inr u, d') \<Rightarrow> (Inr (), d'))"

text \<open>\<open>try_iter_from\<close>, and \<open>iter_from\<close>, whose iterator panics on the first error.\<close>

definition db_try_iter_from :: "('d, 'z) rocks_scheme \<Rightarrow> cf \<Rightarrow> bytes \<Rightarrow> 'd \<Rightarrow> (string + bytes \<times> bytes) list" where
  "db_try_iter_from R c k d = rk_iter_from R d c k"

definition db_iter_from :: "('d, 'z) rocks_scheme \<Rightarrow> cf \<Rightarrow> bytes \<Rightarrow> ('d, string, (bytes \<times> bytes) list) op" where
  "db_iter_from R c k = (\<lambda>d.
     (case those (map (\<lambda>r. case r of Inl e \<Rightarrow> None | Inr p \<Rightarrow> Some p) (db_try_iter_from R c k d)) of
        None \<Rightarrow> (Inl Panic, d) | Some xs \<Rightarrow> (Inr xs, d)))"

definition db_iter :: "('d, 'z) rocks_scheme \<Rightarrow> cf \<Rightarrow> ('d, string, (bytes \<times> bytes) list) op" where
  "db_iter R c = db_iter_from R c []"

section \<open>What the methods do when RocksDB keeps its promises\<close>

lemma rocks_okD:
  assumes "rocks_ok R"
  shows "rk_get R d c k = Inr (kv R d c k)"
    and "\<exists>d'. rk_put R d c k v = (Inr (), d') \<and> kv R d' = apply_batch_op (BatchPut c k v) (kv R d)"
    and "\<exists>d'. rk_delete R d c k = (Inr (), d') \<and> kv R d' = apply_batch_op (BatchDelete c k) (kv R d)"
    and "\<exists>d'. rk_write R d ops = (Inr (), d') \<and> kv R d' = fold apply_batch_op ops (kv R d)"
    and "\<exists>xs. rk_iter_from R d c k = map Inr xs \<and> sorted_wrt (<) (map fst xs) \<and>
              (\<forall>x v. (x, v) \<in> set xs \<longleftrightarrow> k \<le> x \<and> kv R d c x = Some v)"
proof -
  note ok = assms [unfolded rocks_ok_def]
  show "rk_get R d c k = Inr (kv R d c k)"
    using ok [THEN conjunct1] by iprover
  show "\<exists>d'. rk_put R d c k v = (Inr (), d') \<and> kv R d' = apply_batch_op (BatchPut c k v) (kv R d)"
    using ok [THEN conjunct2, THEN conjunct1] by iprover
  show "\<exists>d'. rk_delete R d c k = (Inr (), d') \<and> kv R d' = apply_batch_op (BatchDelete c k) (kv R d)"
    using ok [THEN conjunct2, THEN conjunct2, THEN conjunct1] by iprover
  show "\<exists>d'. rk_write R d ops = (Inr (), d') \<and> kv R d' = fold apply_batch_op ops (kv R d)"
    using ok [THEN conjunct2, THEN conjunct2, THEN conjunct2, THEN conjunct1] by iprover
  show "\<exists>xs. rk_iter_from R d c k = map Inr xs \<and> sorted_wrt (<) (map fst xs) \<and>
              (\<forall>x v. (x, v) \<in> set xs \<longleftrightarrow> k \<le> x \<and> kv R d c x = Some v)"
    using ok [THEN conjunct2, THEN conjunct2, THEN conjunct2, THEN conjunct2] by iprover
qed

lemma db_get_ok [simp]: "rocks_ok R \<Longrightarrow> db_get R c k d = (Inr (kv R d c k), d)"
  by (simp add: rocks_okD(1) db_get_def)

lemma db_put_ok:
  assumes "rocks_ok R"
  obtains d' where "db_put R c k v d = (Inr (), d')" "kv R d' = (kv R d)(c := (kv R d c)(k \<mapsto> v))"
proof -
  obtain d' where "rk_put R d c k v = (Inr (), d')" "kv R d' = apply_batch_op (BatchPut c k v) (kv R d)"
    using rocks_okD(2) [OF assms] by blast
  then show thesis by (intro that [of d']) (simp_all add: db_put_def)
qed

lemma db_delete_ok:
  assumes "rocks_ok R"
  obtains d' where "db_delete R c k d = (Inr (), d')" "kv R d' = (kv R d)(c := (kv R d c)(k := None))"
proof -
  obtain d' where "rk_delete R d c k = (Inr (), d')" "kv R d' = apply_batch_op (BatchDelete c k) (kv R d)"
    using rocks_okD(3) [OF assms] by blast
  then show thesis by (intro that [of d']) (simp_all add: db_delete_def)
qed

lemma db_write_batch_ok:
  assumes "rocks_ok R"
  obtains d' where "db_write_batch R b d = (Inr (), d')" "kv R d' = fold apply_batch_op b (kv R d)"
proof -
  obtain d' where "rk_write R d b = (Inr (), d')" "kv R d' = fold apply_batch_op b (kv R d)"
    using rocks_okD(4) [OF assms] by blast
  then show thesis by (intro that [of d']) (simp_all add: db_write_batch_def)
qed

lemma those_map_Some_id [simp]: "those (map Some xs) = Some xs"
  by (induction xs) auto

lemma db_iter_from_ok:
  assumes "rocks_ok R"
  obtains xs where "db_iter_from R c k d = (Inr xs, d)" "sorted_wrt (<) (map fst xs)"
    "\<And>x v. (x, v) \<in> set xs \<longleftrightarrow> k \<le> x \<and> kv R d c x = Some v"
proof -
  obtain xs where xs: "rk_iter_from R d c k = map Inr xs" "sorted_wrt (<) (map fst xs)"
    "\<forall>x v. (x, v) \<in> set xs \<longleftrightarrow> k \<le> x \<and> kv R d c x = Some v"
    using rocks_okD(5) [OF assms] by blast
  then show thesis
    by (intro that [of xs]) (simp_all add: db_iter_from_def db_try_iter_from_def comp_def)
qed

section \<open>Keys decode to what they encode\<close>

lemma decode_encode_block_number: "decode_block_number (encode_block_number n) = Some n"
  using unat_u64_bound [of n]
  by (simp add: decode_block_number_def encode_block_number_def be_nat_be_bytes)

lemma decode_encode_tx_location: "decode_tx_location (encode_tx_location h i) = Some (h, i)"
proof -
  have "unat i < 2 ^ 32"
    using unsigned_less [of i, where 'a = nat] by simp
  then show ?thesis
    using unat_u64_bound [of h]
    by (simp add: decode_tx_location_def encode_tx_location_def be_nat_be_bytes)
qed

lemma be_bytes_less:
  "m < n \<Longrightarrow> n < 256 ^ k \<Longrightarrow> be_bytes k m < be_bytes k n"
proof (induction k arbitrary: m n)
  case 0
  then show ?case by simp
next
  case (Suc k)
  show ?case
  proof (cases "m div 256 < n div 256")
    case True
    moreover have "n div 256 < 256 ^ k" using Suc.prems(2) by (simp add: div_less_iff_less_mult mult.commute)
    ultimately have "be_bytes k (m div 256) < be_bytes k (n div 256)" by (rule Suc.IH)
    moreover have "length (be_bytes k (m div 256)) = length (be_bytes k (n div 256))" by simp
    ultimately show ?thesis
      by (simp add: list_less_def lexord_sufI)
  next
    case False
    with Suc.prems(1) have eq: "m div 256 = n div 256"
      by (metis div_le_mono le_antisym less_imp_le not_less)
    then have "m mod 256 < n mod 256"
      using Suc.prems(1) by (metis div_mult_mod_eq nat_add_left_cancel_less)
    moreover have "unat (of_nat (i mod 256) :: u8) = i mod 256" for i
      by (simp add: unat_of_nat)
    ultimately have "(of_nat (m mod 256) :: u8) < of_nat (n mod 256)"
      by (simp only: word_less_nat_alt)
    then have "([of_nat (m mod 256) :: u8], [of_nat (n mod 256)]) \<in> lexord {(u, v). u < v}"
      by (simp only: lexord_cons_cons) simp
    then show ?thesis
      unfolding be_bytes.simps eq list_less_def by (rule lexord_append_leftI)
  qed
qed

end
