(* ===== verification/Nibbles.thy ===== *)
theory Nibbles
  imports Prelude
begin

text \<open>
  Nibble slices (\<open>qfc-trie/src/nibbles.rs\<close>). A slice is a byte vector with a start and a
  length counted in nibbles. Its methods assert their ranges, so they return an option, with
  \<open>None\<close> for the panic. The abstraction \<open>nibs\<close> is the list of nibbles a slice denotes; on
  well-formed slices every method is the list function one expects, and the compact encoding
  is undone by its decoder.
\<close>

unbundle bit_operations_syntax

section \<open>The slice and its methods\<close>

record nibble_slice =
  ns_data :: bytes
  ns_start :: nat
  ns_len :: nat

text \<open>The two nibbles of a byte, and the byte of two nibbles.\<close>

definition high_nibble :: "u8 \<Rightarrow> u8" where
  "high_nibble byte = drop_bit 4 byte AND 0x0f"

definition low_nibble :: "u8 \<Rightarrow> u8" where
  "low_nibble byte = byte AND 0x0f"

definition join_nibbles :: "u8 \<Rightarrow> u8 \<Rightarrow> u8" where
  "join_nibbles a b = push_bit 4 a OR b"

definition ns_from_bytes :: "bytes \<Rightarrow> nibble_slice" where
  "ns_from_bytes bs = \<lparr>ns_data = bs, ns_start = 0, ns_len = length bs * 2\<rparr>"

text \<open>The packing loop over \<open>nibbles.chunks(2)\<close>.\<close>

fun pack_nibbles :: "bytes \<Rightarrow> bytes" where
  "pack_nibbles [] = []"
| "pack_nibbles [a] = [push_bit 4 a]"
| "pack_nibbles (a # b # xs) = join_nibbles a (low_nibble b) # pack_nibbles xs"

definition ns_from_nibbles :: "bytes \<Rightarrow> nibble_slice" where
  "ns_from_nibbles ks = \<lparr>ns_data = pack_nibbles ks, ns_start = 0, ns_len = length ks\<rparr>"

definition ns_is_empty :: "nibble_slice \<Rightarrow> bool" where
  "ns_is_empty s \<longleftrightarrow> ns_len s = 0"

definition ns_at :: "nibble_slice \<Rightarrow> nat \<Rightarrow> u8 option" where
  "ns_at s index =
     (if index < ns_len s then
        let actual_index = ns_start s + index in
        map_option (\<lambda>byte. if actual_index mod 2 = 0 then high_nibble byte
                           else low_nibble byte)
          (index_opt (ns_data s) (actual_index div 2))
      else None)"

definition ns_offset :: "nibble_slice \<Rightarrow> nat \<Rightarrow> nibble_slice option" where
  "ns_offset s k =
     (if k \<le> ns_len s
      then Some \<lparr>ns_data = ns_data s, ns_start = ns_start s + k, ns_len = ns_len s - k\<rparr>
      else None)"

definition ns_prefix :: "nibble_slice \<Rightarrow> nat \<Rightarrow> nibble_slice option" where
  "ns_prefix s cnt =
     (if cnt \<le> ns_len s
      then Some \<lparr>ns_data = ns_data s, ns_start = ns_start s, ns_len = cnt\<rparr>
      else None)"

text \<open>
  The comparison loops of \<open>common_prefix_len\<close> and \<open>starts_with\<close>: both walk the indices
  \<open>i..i+n\<close> and stop at the first difference.
\<close>

fun cpl_loop :: "nibble_slice \<Rightarrow> nibble_slice \<Rightarrow> nat \<Rightarrow> nat \<Rightarrow> nat option" where
  "cpl_loop s t i 0 = Some i"
| "cpl_loop s t i (Suc n) =
     (case (ns_at s i, ns_at t i) of
        (Some a, Some b) \<Rightarrow> if a \<noteq> b then Some i else cpl_loop s t (Suc i) n
      | _ \<Rightarrow> None)"

definition ns_common_prefix_len :: "nibble_slice \<Rightarrow> nibble_slice \<Rightarrow> nat option" where
  "ns_common_prefix_len s t = cpl_loop s t 0 (min (ns_len s) (ns_len t))"

fun starts_with_loop :: "nibble_slice \<Rightarrow> nibble_slice \<Rightarrow> nat \<Rightarrow> nat \<Rightarrow> bool option" where
  "starts_with_loop s t i 0 = Some True"
| "starts_with_loop s t i (Suc n) =
     (case (ns_at s i, ns_at t i) of
        (Some a, Some b) \<Rightarrow> if a \<noteq> b then Some False else starts_with_loop s t (Suc i) n
      | _ \<Rightarrow> None)"

definition ns_starts_with :: "nibble_slice \<Rightarrow> nibble_slice \<Rightarrow> bool option" where
  "ns_starts_with s prefix =
     (if ns_len prefix > ns_len s then Some False
      else starts_with_loop s prefix 0 (ns_len prefix))"

definition ns_to_nibbles :: "nibble_slice \<Rightarrow> bytes option" where
  "ns_to_nibbles s = those (map (ns_at s) [0..<ns_len s])"

text \<open>The byte \<open>(at(i) << 4) | at(i + 1)\<close>, and the indices of \<open>(a..n).step_by(2)\<close>.\<close>

definition ns_pair :: "nibble_slice \<Rightarrow> nat \<Rightarrow> u8 option" where
  "ns_pair s i =
     (case (ns_at s i, ns_at s (i + 1)) of
        (Some a, Some b) \<Rightarrow> Some (join_nibbles a b)
      | _ \<Rightarrow> None)"

definition step_by_2 :: "nat \<Rightarrow> nat \<Rightarrow> nat list" where
  "step_by_2 a n = map (\<lambda>j. a + 2 * j) [0..<(n - a + 1) div 2]"

definition ns_to_bytes :: "nibble_slice \<Rightarrow> bytes option" where
  "ns_to_bytes s =
     (if ns_len s mod 2 = 0 then those (map (ns_pair s) (step_by_2 0 (ns_len s))) else None)"

definition ns_encode_compact :: "nibble_slice \<Rightarrow> bool \<Rightarrow> bytes option" where
  "ns_encode_compact s is_leaf =
     (let odd = ns_len s mod 2 = 1;
          flag = (if is_leaf then 2 else 0) + (if odd then 1 else 0)
      in if odd then
           (case (ns_at s 0,
                  those (map (ns_pair s) (filter (\<lambda>i. i + 1 < ns_len s) (step_by_2 1 (ns_len s))))) of
              (Some a, Some rest) \<Rightarrow> Some (join_nibbles flag a # rest)
            | _ \<Rightarrow> None)
         else map_option ((#) (push_bit 4 flag)) (those (map (ns_pair s) (step_by_2 0 (ns_len s)))))"

definition ns_decode_compact :: "bytes \<Rightarrow> (nibble_slice \<times> bool) option" where
  "ns_decode_compact bs =
     (case bs of
        [] \<Rightarrow> None
      | b0 # rest \<Rightarrow>
          let flag = high_nibble b0;
              is_leaf = (flag AND 2 \<noteq> 0);
              odd = (flag AND 1 \<noteq> 0);
              nibbles = (if odd then [low_nibble b0] else []) @
                        concat (map (\<lambda>byte. [high_nibble byte, low_nibble byte]) rest)
          in Some (ns_from_nibbles nibbles, is_leaf))"

section \<open>The nibbles of a slice\<close>

definition nib :: "bytes \<Rightarrow> nat \<Rightarrow> u8" where
  "nib bs a = (if a mod 2 = 0 then high_nibble (bs ! (a div 2))
               else low_nibble (bs ! (a div 2)))"

definition nibs :: "nibble_slice \<Rightarrow> bytes" where
  "nibs s = map (\<lambda>i. nib (ns_data s) (ns_start s + i)) [0..<ns_len s]"

definition ns_wf :: "nibble_slice \<Rightarrow> bool" where
  "ns_wf s \<longleftrightarrow> ns_start s + ns_len s \<le> 2 * length (ns_data s)"

definition is_nibble :: "u8 \<Rightarrow> bool" where
  "is_nibble x \<longleftrightarrow> x < 16"

lemma and_0f: "x AND 0x0f = take_bit 4 (x :: u8)"
  by (simp add: take_bit_eq_mask mask_eq_exp_minus_1)

lemma is_nibble_take_bit: "is_nibble x \<longleftrightarrow> take_bit 4 x = x"
  by (auto simp: is_nibble_def take_bit_eq_mod word_unat_eq_iff word_less_nat_alt unat_mod)

lemma nibble_high_low [simp]: "is_nibble (high_nibble b)" "is_nibble (low_nibble b)"
  unfolding is_nibble_take_bit high_nibble_def low_nibble_def and_0f
  by (simp_all only: take_bit_take_bit min.idem)

lemma low_nibble_id [simp]: "is_nibble x \<Longrightarrow> low_nibble x = x"
  unfolding is_nibble_take_bit low_nibble_def and_0f .

lemma nib_nibble [simp]: "is_nibble (nib bs a)"
  by (simp add: nib_def)

lemma length_nibs [simp]: "length (nibs s) = ns_len s"
  by (simp add: nibs_def)

lemma nibs_nibbles [dest]: "x \<in> set (nibs s) \<Longrightarrow> is_nibble x"
  by (auto simp: nibs_def)

lemma nibs_nth_nibble [simp]: "i < ns_len s \<Longrightarrow> is_nibble (nibs s ! i)"
  by (simp add: nibs_def)

lemma ns_at_nibs [simp]:
  assumes "ns_wf s" "i < ns_len s"
  shows "ns_at s i = Some (nibs s ! i)"
proof -
  have "(ns_start s + i) div 2 < length (ns_data s)"
    using assms by (simp add: ns_wf_def)
  with assms(2) show ?thesis
    by (simp add: ns_at_def nibs_def nib_def Let_def)
qed

definition ns_drop :: "nibble_slice \<Rightarrow> nat \<Rightarrow> nibble_slice" where
  "ns_drop s k = \<lparr>ns_data = ns_data s, ns_start = ns_start s + k, ns_len = ns_len s - k\<rparr>"

definition ns_take :: "nibble_slice \<Rightarrow> nat \<Rightarrow> nibble_slice" where
  "ns_take s k = \<lparr>ns_data = ns_data s, ns_start = ns_start s, ns_len = k\<rparr>"

lemma ns_offset_drop [simp]: "k \<le> ns_len s \<Longrightarrow> ns_offset s k = Some (ns_drop s k)"
  by (simp add: ns_offset_def ns_drop_def)

lemma ns_prefix_take [simp]: "k \<le> ns_len s \<Longrightarrow> ns_prefix s k = Some (ns_take s k)"
  by (simp add: ns_prefix_def ns_take_def)

lemma ns_wf_drop [simp]: "ns_wf s \<Longrightarrow> k \<le> ns_len s \<Longrightarrow> ns_wf (ns_drop s k)"
  by (simp add: ns_wf_def ns_drop_def)

lemma ns_wf_take [simp]: "ns_wf s \<Longrightarrow> k \<le> ns_len s \<Longrightarrow> ns_wf (ns_take s k)"
  by (simp add: ns_wf_def ns_take_def)

lemma ns_len_drop [simp]: "ns_len (ns_drop s k) = ns_len s - k"
  by (simp add: ns_drop_def)

lemma ns_len_take [simp]: "ns_len (ns_take s k) = k"
  by (simp add: ns_take_def)

lemma nibs_drop [simp]: "nibs (ns_drop s k) = drop k (nibs s)"
  by (rule nth_equalityI) (auto simp: nibs_def ns_drop_def add.assoc)

lemma nibs_take [simp]: "k \<le> ns_len s \<Longrightarrow> nibs (ns_take s k) = take k (nibs s)"
  by (rule nth_equalityI) (auto simp: nibs_def ns_take_def)

lemma ns_is_empty_nibs [simp]: "ns_is_empty s \<longleftrightarrow> nibs s = []"
  by (metis length_0_conv length_nibs ns_is_empty_def)

lemma those_map_Some: "(\<And>x. x \<in> set xs \<Longrightarrow> f x = Some (g x)) \<Longrightarrow> those (map f xs) = Some (map g xs)"
  by (induction xs) auto

lemma ns_to_nibbles_nibs [simp]: "ns_wf s \<Longrightarrow> ns_to_nibbles s = Some (nibs s)"
proof -
  assume "ns_wf s"
  then have "ns_to_nibbles s = Some (map (\<lambda>i. nibs s ! i) [0..<ns_len s])"
    unfolding ns_to_nibbles_def by (intro those_map_Some) simp
  then show ?thesis
    using map_nth [of "nibs s"] by simp
qed

section \<open>Packing nibbles into bytes\<close>

definition byte_nibbles :: "u8 \<Rightarrow> bytes" where
  "byte_nibbles b = [high_nibble b, low_nibble b]"

lemma nib_Cons: "nib (b # bs) a = (if a < 2 then byte_nibbles b ! a else nib bs (a - 2))"
proof (cases "a < 2")
  case True
  then have "a = 0 \<or> a = 1" by auto
  then show ?thesis by (auto simp: nib_def byte_nibbles_def)
next
  case False
  then obtain c where "a = c + 2" by (metis add.commute le_add_diff_inverse not_less)
  then show ?thesis by (simp add: nib_def)
qed

lemma nibble_bit: "is_nibble x \<Longrightarrow> bit x n \<Longrightarrow> n < 4"
  by (metis is_nibble_take_bit bit_take_bit_iff)

lemma high_join [simp]: "is_nibble b \<Longrightarrow> high_nibble (join_nibbles a b) = low_nibble a"
  unfolding high_nibble_def low_nibble_def join_nibbles_def and_0f
  by (rule bit_word_eqI) (auto simp: bit_simps dest: nibble_bit)

lemma low_join [simp]: "is_nibble b \<Longrightarrow> low_nibble (join_nibbles a b) = b"
  unfolding low_nibble_def join_nibbles_def and_0f
  by (rule bit_word_eqI) (auto simp: bit_simps dest: nibble_bit)

lemma high_push [simp]: "high_nibble (push_bit 4 a) = low_nibble a"
  unfolding high_nibble_def low_nibble_def and_0f
  by (rule bit_word_eqI) (auto simp: bit_simps)

lemma join_high_low [simp]: "join_nibbles (high_nibble b) (low_nibble b) = b"
  unfolding high_nibble_def low_nibble_def join_nibbles_def and_0f
  by (rule bit_word_eqI) (auto simp: bit_simps)

lemma nib_pack:
  "i < length ks \<Longrightarrow> nib (pack_nibbles ks) i = low_nibble (ks ! i)"
proof (induction ks arbitrary: i rule: pack_nibbles.induct)
  case 1
  then show ?case by simp
next
  case (2 a)
  then show ?case by (simp add: nib_Cons byte_nibbles_def)
next
  case (3 a b xs)
  show ?case
  proof (cases "i < 2")
    case True
    then have "i = 0 \<or> i = 1" by auto
    then show ?thesis by (auto simp: nib_Cons byte_nibbles_def)
  next
    case False
    then obtain j where "i = Suc (Suc j)" by (metis add_2_eq_Suc le_add_diff_inverse not_less)
    with 3 show ?thesis by (simp add: nib_Cons)
  qed
qed

lemma length_pack_nibbles: "length (pack_nibbles ks) = (length ks + 1) div 2"
  by (induction ks rule: pack_nibbles.induct) auto

lemma ns_wf_from_nibbles [simp]: "ns_wf (ns_from_nibbles ks)"
  by (simp add: ns_wf_def ns_from_nibbles_def length_pack_nibbles)

lemma ns_len_from_nibbles [simp]: "ns_len (ns_from_nibbles ks) = length ks"
  by (simp add: ns_from_nibbles_def)

lemma nibs_from_nibbles_mask: "nibs (ns_from_nibbles ks) = map low_nibble ks"
  by (rule nth_equalityI) (auto simp: nibs_def ns_from_nibbles_def nib_pack)

lemma nibs_from_nibbles [simp]:
  "(\<And>x. x \<in> set ks \<Longrightarrow> is_nibble x) \<Longrightarrow> nibs (ns_from_nibbles ks) = ks"
  by (simp add: nibs_from_nibbles_mask map_idI)

lemma ns_wf_from_bytes [simp]: "ns_wf (ns_from_bytes bs)"
  by (simp add: ns_wf_def ns_from_bytes_def)

lemma ns_len_from_bytes [simp]: "ns_len (ns_from_bytes bs) = 2 * length bs"
  by (simp add: ns_from_bytes_def)

lemma upt_2: "[0..<n + 2] = 0 # 1 # map (\<lambda>i. i + 2) [0..<n]"
  by (rule nth_equalityI) (auto simp: nth_Cons nth_append split: nat.splits)

lemma nibs_from_bytes: "nibs (ns_from_bytes bs) = concat (map byte_nibbles bs)"
proof (induction bs)
  case Nil
  then show ?case by (simp add: nibs_def ns_from_bytes_def)
next
  case (Cons b bs)
  have "nibs (ns_from_bytes (b # bs)) = byte_nibbles b @ nibs (ns_from_bytes bs)"
    using upt_2 [of "2 * length bs"]
    by (simp add: nibs_def ns_from_bytes_def nib_Cons byte_nibbles_def comp_def mult.commute)
  with Cons show ?case by simp
qed

section \<open>Comparing slices\<close>

text \<open>The longest common prefix of two lists, as a reference definition.\<close>

fun lcp :: "'a list \<Rightarrow> 'a list \<Rightarrow> nat" where
  "lcp (x # xs) (y # ys) = (if x = y then Suc (lcp xs ys) else 0)"
| "lcp _ _ = 0"

lemma lcp_le: "lcp xs ys \<le> length xs" "lcp xs ys \<le> length ys"
  by (induction xs ys rule: lcp.induct) auto

lemma lcp_take: "take (lcp xs ys) xs = take (lcp xs ys) ys"
  by (induction xs ys rule: lcp.induct) auto

lemma lcp_nth: "lcp xs ys < length xs \<Longrightarrow> lcp xs ys < length ys \<Longrightarrow> xs ! lcp xs ys \<noteq> ys ! lcp xs ys"
  by (induction xs ys rule: lcp.induct) (auto split: if_splits)

lemma lcp_prefix: "lcp xs ys = length ys \<longleftrightarrow> length ys \<le> length xs \<and> take (length ys) xs = ys"
  by (induction xs ys rule: lcp.induct) auto

lemma lcp_full: "lcp xs ys = length xs \<Longrightarrow> lcp xs ys = length ys \<Longrightarrow> xs = ys"
  by (metis lcp_take order_refl take_all)

lemma cpl_loop_lcp:
  assumes "ns_wf s" "ns_wf t" "i + n = min (ns_len s) (ns_len t)"
  shows "cpl_loop s t i n = Some (i + lcp (drop i (nibs s)) (drop i (nibs t)))"
  using assms(3)
proof (induction n arbitrary: i)
  case 0
  then have "drop i (nibs s) = [] \<or> drop i (nibs t) = []"
    by (auto simp: min_def split: if_splits)
  then show ?case by auto
next
  case (Suc n)
  then have i: "i < ns_len s" "i < ns_len t" by auto
  then have "drop i (nibs s) = nibs s ! i # drop (Suc i) (nibs s)"
    "drop i (nibs t) = nibs t ! i # drop (Suc i) (nibs t)"
    by (simp_all add: Cons_nth_drop_Suc)
  with Suc i assms(1,2) show ?case by simp
qed

lemma ns_common_prefix_len_lcp [simp]:
  "ns_wf s \<Longrightarrow> ns_wf t \<Longrightarrow> ns_common_prefix_len s t = Some (lcp (nibs s) (nibs t))"
  by (simp add: ns_common_prefix_len_def cpl_loop_lcp)

lemma starts_with_loop_take:
  assumes "ns_wf s" "ns_wf t" "i + n = ns_len t" "ns_len t \<le> ns_len s"
  shows "starts_with_loop s t i n =
           Some (take n (drop i (nibs s)) = drop i (nibs t))"
  using assms(3)
proof (induction n arbitrary: i)
  case 0
  then show ?case by simp
next
  case (Suc n)
  then have i: "i < ns_len s" "i < ns_len t" using assms(4) by auto
  then have "drop i (nibs s) = nibs s ! i # drop (Suc i) (nibs s)"
    "drop i (nibs t) = nibs t ! i # drop (Suc i) (nibs t)"
    by (simp_all add: Cons_nth_drop_Suc)
  with Suc i assms(1,2) show ?case by simp
qed

lemma ns_starts_with_lcp [simp]:
  "ns_wf s \<Longrightarrow> ns_wf t \<Longrightarrow> ns_starts_with s t = Some (lcp (nibs s) (nibs t) = ns_len t)"
  using starts_with_loop_take [of s t 0 "ns_len t"] lcp_prefix [of "nibs s" "nibs t"]
  by (auto simp: ns_starts_with_def)

section \<open>Bytes and the compact encoding\<close>

definition pairs_of :: "bytes \<Rightarrow> nat \<Rightarrow> bytes" where
  "pairs_of ks a = map (\<lambda>j. join_nibbles (ks ! (a + 2 * j)) (ks ! (a + 2 * j + 1)))
                       [0..<(length ks - a) div 2]"

lemma unpack_pairs:
  assumes "\<And>x. x \<in> set ks \<Longrightarrow> is_nibble x" "even (length ks - a)" "a \<le> length ks"
  shows "concat (map byte_nibbles (pairs_of ks a)) = drop a ks"
  using assms(2,3)
proof (induction "(length ks - a) div 2" arbitrary: a)
  case 0
  then have "length ks = a" by presburger
  then show ?case by (simp add: pairs_of_def)
next
  case (Suc n)
  then have len: "Suc (Suc a) \<le> length ks" by (auto elim!: evenE)
  have n: "n = (length ks - Suc (Suc a)) div 2" using Suc(2) by simp
  have "even (length ks - Suc (Suc a))" using Suc(3) len by simp
  then have IH: "concat (map byte_nibbles (pairs_of ks (Suc (Suc a)))) = drop (Suc (Suc a)) ks"
    using Suc(1) [OF n] len by simp
  have "[0..<(length ks - a) div 2] = 0 # map Suc [0..<n]"
    using Suc(2) by (simp add: map_Suc_upt upt_conv_Cons)
  then have "pairs_of ks a = join_nibbles (ks ! a) (ks ! Suc a) # pairs_of ks (Suc (Suc a))"
    using n by (simp add: pairs_of_def comp_def)
  moreover have "is_nibble (ks ! a)" "is_nibble (ks ! Suc a)"
    using assms(1) len by simp_all
  moreover have "drop a ks = ks ! a # ks ! Suc a # drop (Suc (Suc a)) ks"
    using len by (metis Cons_nth_drop_Suc Suc_leD Suc_le_lessD)
  ultimately show ?case using IH by (simp add: byte_nibbles_def)
qed

lemma those_pairs:
  assumes "ns_wf s" "\<And>j. j < (ns_len s - a) div 2 \<Longrightarrow> idx ! j = a + 2 * j"
    "length idx = (ns_len s - a) div 2"
  shows "those (map (ns_pair s) idx) = Some (pairs_of (nibs s) a)"
proof -
  have idx: "idx = map (\<lambda>j. a + 2 * j) [0..<(ns_len s - a) div 2]"
    by (rule nth_equalityI) (use assms in auto)
  have "those (map (ns_pair s) idx) =
        Some (map (\<lambda>i. join_nibbles (nibs s ! i) (nibs s ! (i + 1))) idx)"
    by (rule those_map_Some) (use assms(1) in \<open>auto simp: idx ns_pair_def\<close>)
  then show ?thesis by (simp add: idx pairs_of_def comp_def)
qed

lemma those_pairs_even:
  "ns_wf s \<Longrightarrow> even (ns_len s) \<Longrightarrow>
     those (map (ns_pair s) (step_by_2 0 (ns_len s))) = Some (pairs_of (nibs s) 0)"
  by (rule those_pairs) (auto simp: step_by_2_def elim!: evenE)

lemma those_pairs_odd:
  assumes "ns_wf s" "odd (ns_len s)"
  shows "those (map (ns_pair s) (filter (\<lambda>i. i + 1 < ns_len s) (step_by_2 1 (ns_len s)))) =
         Some (pairs_of (nibs s) 1)"
proof -
  obtain m where m: "ns_len s = 2 * m + 1" using assms(2) by (auto elim: oddE)
  have "filter (\<lambda>i. i + 1 < ns_len s) (step_by_2 1 (ns_len s)) = map (\<lambda>j. 1 + 2 * j) [0..<m]"
    by (auto simp: step_by_2_def m filter_id_conv)
  then show ?thesis
    using those_pairs [of s 1 "map (\<lambda>j. 1 + 2 * j) [0..<m]"] assms m by simp
qed

lemma ns_to_bytes_from_bytes: "ns_to_bytes (ns_from_bytes bs) = Some bs"
proof -
  have "ns_to_bytes (ns_from_bytes bs) = Some (pairs_of (nibs (ns_from_bytes bs)) 0)"
    using those_pairs_even [of "ns_from_bytes bs"] by (simp add: ns_to_bytes_def)
  moreover have "pairs_of (nibs (ns_from_bytes bs)) 0 = bs"
    by (rule nth_equalityI)
       (auto simp: pairs_of_def nibs_def ns_from_bytes_def nib_def)
  ultimately show ?thesis by simp
qed

lemma ns_decode_compact_Cons:
  "is_nibble flag \<Longrightarrow> is_nibble a \<Longrightarrow>
   ns_decode_compact (join_nibbles flag a # rest) =
     Some (ns_from_nibbles ((if flag AND 1 \<noteq> 0 then [a] else []) @ concat (map byte_nibbles rest)),
           flag AND 2 \<noteq> 0)"
  by (simp add: ns_decode_compact_def Let_def byte_nibbles_def [abs_def])

text \<open>decoding the compact encoding of a slice gives the same nibbles and leaf flag back.\<close>

theorem decode_encode_compact:
  assumes "ns_wf s"
  shows "\<exists>bs t. ns_encode_compact s leaf = Some bs \<and> ns_decode_compact bs = Some (t, leaf) \<and>
                nibs t = nibs s"
proof (cases "odd (ns_len s)")
  case True
  then have pos: "0 < ns_len s" by (auto intro: ccontr)
  define flag :: u8 where "flag = (if leaf then 3 else 1)"
  have f: "is_nibble flag" "flag AND 2 \<noteq> 0 \<longleftrightarrow> leaf" "flag AND 1 \<noteq> 0"
    by (auto simp: flag_def is_nibble_def)
  have enc: "ns_encode_compact s leaf =
          Some (join_nibbles flag (nibs s ! 0) # pairs_of (nibs s) 1)"
    using True pos assms those_pairs_odd [OF assms True]
    by (simp add: ns_encode_compact_def flag_def odd_iff_mod_2_eq_one)
  have "concat (map byte_nibbles (pairs_of (nibs s) 1)) = drop 1 (nibs s)"
    using True pos by (intro unpack_pairs) auto
  moreover have "nibs s = nibs s ! 0 # drop 1 (nibs s)"
    using pos by (metis Cons_nth_drop_Suc One_nat_def drop0 length_nibs)
  ultimately have "[nibs s ! 0] @ concat (map byte_nibbles (pairs_of (nibs s) 1)) = nibs s"
    by simp
  then show ?thesis
    using f pos by (simp add: enc ns_decode_compact_Cons nibs_nibbles)
next
  case False
  define flag :: u8 where "flag = (if leaf then 2 else 0)"
  have f: "is_nibble flag" "flag AND 2 \<noteq> 0 \<longleftrightarrow> leaf" "flag AND 1 = 0"
    by (auto simp: flag_def is_nibble_def)
  have enc: "ns_encode_compact s leaf = Some (join_nibbles flag 0 # pairs_of (nibs s) 0)"
    using False assms those_pairs_even [OF assms]
    by (simp add: ns_encode_compact_def flag_def join_nibbles_def even_iff_mod_2_eq_zero)
  have "concat (map byte_nibbles (pairs_of (nibs s) 0)) = nibs s"
    using False unpack_pairs [of "nibs s" 0] by auto
  moreover have "is_nibble 0" by (simp add: is_nibble_def)
  ultimately show ?thesis
    using f by (simp add: enc ns_decode_compact_Cons nibs_nibbles)
qed

theorem decode_encode_compact_witness:
  "\<exists>bs t. ns_encode_compact (ns_from_nibbles [1, 2, 3]) True = Some bs \<and>
      ns_decode_compact bs = Some (t, True) \<and> nibs t = nibs (ns_from_nibbles [1, 2, 3])"
  by (rule decode_encode_compact) (rule ns_wf_from_nibbles)

end
