(* ===== verification/Trie_Model.thy ===== *)
theory Trie_Model
  imports Storage Nibbles
begin

text \<open>
  The Merkle Patricia trie of \<open>qfc-trie\<close> (\<open>node.rs\<close>, \<open>trie.rs\<close>) as operations on a database and
  a trie (root hash, node cache, dirty nodes). BLAKE3, the borsh encoding of nodes, the LRU
  cache and the iteration order of a \<open>HashMap\<close> are parameters, collected in the record
  \<open>trie_env\<close>. The recursive functions take a fuel argument that bounds the descent; the entry
  points give one unit more than the nibbles of the key, which the refinement in \<open>Trie_Refine\<close>
  shows to be enough.
\<close>

section \<open>Nodes\<close>

datatype trie_node =
    NEmpty
  | NLeaf (node_key: bytes) (node_value: bytes)
  | NExtension bytes hash
  | NBranch "hash option list" "bytes option"

datatype trie_error = NodeNotFound hash | Storage string | Serialization string

type_synonym node_cache = "(hash \<times> trie_node) list"

record trie =
  tr_root :: hash
  tr_cache :: node_cache
  tr_dirty :: "(hash \<times> trie_node) list"

record 'd trie_env = "'d rocks" +
  blake3_hash :: "bytes \<Rightarrow> hash"
  node_to_bytes :: "trie_node \<Rightarrow> bytes"
  node_from_bytes :: "bytes \<Rightarrow> string + trie_node"
  node_cache_get :: "node_cache \<Rightarrow> hash \<Rightarrow> trie_node option \<times> node_cache"
  node_cache_put :: "node_cache \<Rightarrow> hash \<Rightarrow> trie_node \<Rightarrow> node_cache"
  dirty_order :: "(hash \<times> trie_node) list \<Rightarrow> (hash \<times> trie_node) list"

type_synonym ('d, 'a) trie_op = "('d \<times> trie, trie_error, 'a) op"

text \<open>\<open>TrieNode::leaf\<close> and \<open>TrieNode::extension\<close> store the nibbles of the slice.\<close>

definition node_leaf :: "nibble_slice \<Rightarrow> bytes \<Rightarrow> trie_node option" where
  "node_leaf key value = map_option (\<lambda>ks. NLeaf ks value) (ns_to_nibbles key)"

definition node_extension :: "nibble_slice \<Rightarrow> hash \<Rightarrow> trie_node option" where
  "node_extension key child = map_option (\<lambda>ks. NExtension ks child) (ns_to_nibbles key)"

definition node_hash :: "('d, 'z) trie_env_scheme \<Rightarrow> trie_node \<Rightarrow> hash" where
  "node_hash E n = (case n of NEmpty \<Rightarrow> hash_ZERO | _ \<Rightarrow> blake3_hash E (node_to_bytes E n))"

section \<open>Node access\<close>

definition trie_new :: trie where
  "trie_new = \<lparr>tr_root = hash_ZERO, tr_cache = [], tr_dirty = []\<rparr>"

definition trie_with_root :: "hash \<Rightarrow> trie" where
  "trie_with_root root = trie_new\<lparr>tr_root := root\<rparr>"

definition get_node :: "('d, 'z) trie_env_scheme \<Rightarrow> hash \<Rightarrow> ('d, trie_node) trie_op" where
  "get_node E h = (\<lambda>(d, t).
     if h = hash_ZERO then (Inr NEmpty, (d, t))
     else case map_of (tr_dirty t) h of
       Some n \<Rightarrow> (Inr n, (d, t))
     | None \<Rightarrow>
       (case node_cache_get E (tr_cache t) h of
          (Some n, c) \<Rightarrow> (Inr n, (d, t\<lparr>tr_cache := c\<rparr>))
        | (None, c) \<Rightarrow>
          let t1 = t\<lparr>tr_cache := c\<rparr> in
          (case rk_get E d STATE h of
             Inl e \<Rightarrow> (Inl (Err (Storage e)), (d, t1))
           | Inr None \<Rightarrow> (Inl (Err (NodeNotFound h)), (d, t1))
           | Inr (Some bs) \<Rightarrow>
               (case node_from_bytes E bs of
                  Inl e \<Rightarrow> (Inl (Err (Serialization e)), (d, t1))
                | Inr n \<Rightarrow> (Inr n, (d, t1\<lparr>tr_cache := node_cache_put E c h n\<rparr>))))))"

definition store_node :: "('d, 'z) trie_env_scheme \<Rightarrow> trie_node \<Rightarrow> ('d, hash) trie_op" where
  "store_node E n = (\<lambda>(d, t).
     let h = node_hash E n in
     (Inr h, (d, if h \<noteq> hash_ZERO then t\<lparr>tr_dirty := AList.update h n (tr_dirty t)\<rparr> else t)))"

text \<open>A node built from a slice (the slice methods may panic) is stored at once.\<close>

definition store_expect :: "('d, 'z) trie_env_scheme \<Rightarrow> trie_node option \<Rightarrow> ('d, hash) trie_op" where
  "store_expect E n = op_bind (op_expect n) (store_node E)"

section \<open>Lookup\<close>

fun get_at :: "('d, 'z) trie_env_scheme \<Rightarrow> nat \<Rightarrow> hash \<Rightarrow> nibble_slice \<Rightarrow> ('d, bytes option) trie_op" where
  "get_at E 0 h key = op_fail OutOfFuel"
| "get_at E (Suc fuel) h key =
     (if h = hash_ZERO then op_ret None
      else op_bind (get_node E h) (\<lambda>node. case node of
        NEmpty \<Rightarrow> op_ret None
      | NLeaf leaf_key value \<Rightarrow>
          op_bind (op_expect (ns_to_nibbles key)) (\<lambda>ks.
          op_bind (op_expect (ns_to_nibbles (ns_from_nibbles leaf_key))) (\<lambda>lks.
            if ks = lks then op_ret (Some value) else op_ret None))
      | NExtension ext_key child \<Rightarrow>
          let ext_nibbles = ns_from_nibbles ext_key in
          op_bind (op_expect (ns_starts_with key ext_nibbles)) (\<lambda>starts.
            if starts then
              op_bind (op_expect (ns_offset key (ns_len ext_nibbles))) (\<lambda>remaining.
                get_at E fuel child remaining)
            else op_ret None)
      | NBranch children value \<Rightarrow>
          if ns_is_empty key then op_ret value
          else
            op_bind (op_expect (ns_at key 0)) (\<lambda>index.
            op_bind (op_expect (index_opt children (unat index))) (\<lambda>child. case child of
              Some child_hash \<Rightarrow>
                op_bind (op_expect (ns_offset key 1)) (\<lambda>remaining. get_at E fuel child_hash remaining)
            | None \<Rightarrow> op_ret None))))"

definition trie_get :: "('d, 'z) trie_env_scheme \<Rightarrow> bytes \<Rightarrow> ('d, bytes option) trie_op" where
  "trie_get E key = (\<lambda>(d, t).
     if tr_root t = hash_ZERO then (Inr None, (d, t))
     else let nibbles = ns_from_bytes key in
       get_at E (Suc (ns_len nibbles)) (tr_root t) nibbles (d, t))"

definition trie_contains :: "('d, 'z) trie_env_scheme \<Rightarrow> bytes \<Rightarrow> ('d, bool) trie_op" where
  "trie_contains E key = op_bind (trie_get E key) (\<lambda>v. op_ret (v \<noteq> None))"

section \<open>Insertion\<close>

text \<open>
  The two places of \<open>insert_at\<close> that end a split: the new branch is stored, and below a
  non-empty common prefix an extension is stored above it.
\<close>

definition finish_split :: "('d, 'z) trie_env_scheme \<Rightarrow> nibble_slice \<Rightarrow> nat \<Rightarrow>
    hash option list \<Rightarrow> bytes option \<Rightarrow> ('d, hash) trie_op" where
  "finish_split E key common_len children branch_value =
     op_bind (store_node E (NBranch children branch_value)) (\<lambda>branch_hash.
       if common_len > 0 then
         op_bind (op_expect (ns_prefix key common_len)) (\<lambda>p.
           store_expect E (node_extension p branch_hash))
       else op_ret branch_hash)"

text \<open>\<open>children[nibble] = Some(h)\<close> for the leaf or extension below the branch.\<close>

definition split_new :: "('d, 'z) trie_env_scheme \<Rightarrow> nibble_slice \<Rightarrow> nat \<Rightarrow> bytes \<Rightarrow>
    hash option list \<Rightarrow> ('d, hash option list \<times> bytes option) trie_op" where
  "split_new E key common_len value children =
     (if common_len < ns_len key then
        op_bind (op_expect (ns_at key common_len)) (\<lambda>new_nibble.
        op_bind (op_expect (ns_offset key (common_len + 1))) (\<lambda>new_remaining.
        op_bind (store_expect E (node_leaf new_remaining value)) (\<lambda>h.
          op_ret (children[unat new_nibble := Some h], None))))
      else op_ret (children, Some value))"

definition split_leaf :: "('d, 'z) trie_env_scheme \<Rightarrow> nibble_slice \<Rightarrow> nibble_slice \<Rightarrow> bytes \<Rightarrow>
    bytes \<Rightarrow> ('d, hash) trie_op" where
  "split_leaf E key leaf_nibbles leaf_value value =
     op_bind (op_expect (ns_common_prefix_len key leaf_nibbles)) (\<lambda>common_len.
     op_bind
       (if common_len < ns_len leaf_nibbles then
          op_bind (op_expect (ns_at leaf_nibbles common_len)) (\<lambda>old_nibble.
          op_bind (op_expect (ns_offset leaf_nibbles (common_len + 1))) (\<lambda>old_remaining.
          op_bind
            (if ns_is_empty old_remaining
             then store_expect E (node_leaf (ns_from_nibbles []) leaf_value)
             else store_expect E (node_leaf old_remaining leaf_value)) (\<lambda>h.
            op_ret ((replicate 16 None)[unat old_nibble := Some h]))))
        else op_ret (replicate 16 None)) (\<lambda>children.
     op_bind
       (if common_len < ns_len key then
          op_bind (op_expect (ns_at key common_len)) (\<lambda>new_nibble.
          op_bind (op_expect (ns_offset key (common_len + 1))) (\<lambda>new_remaining.
          op_bind
            (if ns_is_empty new_remaining
             then store_expect E (node_leaf (ns_from_nibbles []) value)
             else store_expect E (node_leaf new_remaining value)) (\<lambda>h.
            op_ret (children[unat new_nibble := Some h], None))))
        else op_ret (children, Some value)) (\<lambda>(children, branch_value).
     finish_split E key common_len children branch_value)))"

definition split_extension :: "('d, 'z) trie_env_scheme \<Rightarrow> nibble_slice \<Rightarrow> nibble_slice \<Rightarrow> nat \<Rightarrow>
    hash \<Rightarrow> bytes \<Rightarrow> ('d, hash) trie_op" where
  "split_extension E key ext_nibbles common_len child value =
     op_bind (op_expect (ns_offset ext_nibbles (common_len + 1))) (\<lambda>old_remaining.
     op_bind (op_expect (ns_at ext_nibbles common_len)) (\<lambda>old_nibble.
     op_bind
       (if ns_is_empty old_remaining then op_ret child
        else store_expect E (node_extension old_remaining child)) (\<lambda>old_child.
     op_bind (split_new E key common_len value ((replicate 16 None)[unat old_nibble := Some old_child]))
       (\<lambda>(children, branch_value).
     finish_split E key common_len children branch_value))))"

fun insert_at :: "('d, 'z) trie_env_scheme \<Rightarrow> nat \<Rightarrow> hash \<Rightarrow> nibble_slice \<Rightarrow> bytes \<Rightarrow>
    ('d, hash) trie_op" where
  "insert_at E 0 h key value = op_fail OutOfFuel"
| "insert_at E (Suc fuel) h key value =
     (if h = hash_ZERO then store_expect E (node_leaf key value)
      else op_bind (get_node E h) (\<lambda>node. case node of
        NEmpty \<Rightarrow> store_expect E (node_leaf key value)
      | NLeaf leaf_key leaf_value \<Rightarrow>
          let leaf_nibbles = ns_from_nibbles leaf_key in
          op_bind (op_expect (ns_to_nibbles key)) (\<lambda>ks.
          op_bind (op_expect (ns_to_nibbles leaf_nibbles)) (\<lambda>lks.
            if ks = lks then store_expect E (node_leaf key value)
            else split_leaf E key leaf_nibbles leaf_value value))
      | NExtension ext_key child \<Rightarrow>
          let ext_nibbles = ns_from_nibbles ext_key in
          op_bind (op_expect (ns_common_prefix_len key ext_nibbles)) (\<lambda>common_len.
            if common_len = ns_len ext_nibbles then
              op_bind (op_expect (ns_offset key common_len)) (\<lambda>remaining.
              op_bind (insert_at E fuel child remaining value) (\<lambda>new_child.
                store_expect E (node_extension ext_nibbles new_child)))
            else split_extension E key ext_nibbles common_len child value)
      | NBranch children branch_value \<Rightarrow>
          if ns_is_empty key then store_node E (NBranch children (Some value))
          else
            op_bind (op_expect (ns_at key 0)) (\<lambda>nibble.
            op_bind (op_expect (ns_offset key 1)) (\<lambda>remaining.
            op_bind (op_expect (index_opt children (unat nibble))) (\<lambda>child.
            op_bind (insert_at E fuel (case child of Some c \<Rightarrow> c | None \<Rightarrow> hash_ZERO) remaining value)
              (\<lambda>new_child. store_node E (NBranch (children[unat nibble := Some new_child]) branch_value)))))))"

definition trie_insert :: "('d, 'z) trie_env_scheme \<Rightarrow> bytes \<Rightarrow> bytes \<Rightarrow> ('d, unit) trie_op" where
  "trie_insert E key value = (\<lambda>(d, t).
     let nibbles = ns_from_bytes key in
     op_bind (insert_at E (Suc (ns_len nibbles)) (tr_root t) nibbles value)
       (\<lambda>new_root (d', t'). (Inr (), (d', t'\<lparr>tr_root := new_root\<rparr>))) (d, t))"

section \<open>Deletion\<close>

text \<open>
  The first occupied slot of a branch, found as
  \<open>children.iter().enumerate().find(|(_, c)| c.is_some())\<close>.
\<close>

fun find_child :: "nat \<Rightarrow> hash option list \<Rightarrow> (nat \<times> hash) option" where
  "find_child i [] = None"
| "find_child i (None # cs) = find_child (Suc i) cs"
| "find_child i (Some h # cs) = Some (i, h)"

definition maybe_collapse_branch :: "('d, 'z) trie_env_scheme \<Rightarrow> hash option list \<Rightarrow> bytes option \<Rightarrow>
    ('d, hash) trie_op" where
  "maybe_collapse_branch E children value =
     (let child_count = length (filter (\<lambda>c. c \<noteq> None) children) in
      if child_count = 0 then
        (case value of
           Some v \<Rightarrow> store_expect E (node_leaf (ns_from_nibbles []) v)
         | None \<Rightarrow> op_ret hash_ZERO)
      else if child_count = 1 \<and> value = None then
        op_bind (op_expect (find_child 0 children)) (\<lambda>(i, child_hash).
          let nibble = (of_nat i :: u8) in
          op_bind (get_node E child_hash) (\<lambda>child_node. case child_node of
            NExtension key child \<Rightarrow>
              store_expect E (node_extension (ns_from_nibbles (nibble # key)) child)
          | NLeaf key v \<Rightarrow>
              store_expect E (node_leaf (ns_from_nibbles (nibble # key)) v)
          | _ \<Rightarrow>
              store_expect E (node_extension (ns_from_nibbles [nibble]) child_hash)))
      else store_node E (NBranch children value))"

text \<open>
  What \<open>delete_at\<close> does with the new child below an extension: merge two extensions, merge an
  extension with a leaf, or keep the extension.
\<close>

definition merge_extension :: "('d, 'z) trie_env_scheme \<Rightarrow> nibble_slice \<Rightarrow> hash \<Rightarrow> ('d, hash) trie_op" where
  "merge_extension E ext_nibbles new_child =
     op_bind (get_node E new_child) (\<lambda>child_node. case child_node of
       NExtension child_key grandchild \<Rightarrow>
         op_bind (op_expect (ns_to_nibbles ext_nibbles)) (\<lambda>eks.
         op_bind (op_expect (ns_to_nibbles (ns_from_nibbles child_key))) (\<lambda>cks.
           store_expect E (node_extension (ns_from_nibbles (eks @ cks)) grandchild)))
     | NLeaf child_key value \<Rightarrow>
         op_bind (op_expect (ns_to_nibbles ext_nibbles)) (\<lambda>eks.
         op_bind (op_expect (ns_to_nibbles (ns_from_nibbles child_key))) (\<lambda>cks.
           store_expect E (node_leaf (ns_from_nibbles (eks @ cks)) value)))
     | _ \<Rightarrow> store_expect E (node_extension ext_nibbles new_child))"

fun delete_at :: "('d, 'z) trie_env_scheme \<Rightarrow> nat \<Rightarrow> hash \<Rightarrow> nibble_slice \<Rightarrow>
    ('d, hash option) trie_op" where
  "delete_at E 0 h key = op_fail OutOfFuel"
| "delete_at E (Suc fuel) h key =
     (if h = hash_ZERO then op_ret None
      else op_bind (get_node E h) (\<lambda>node. case node of
        NEmpty \<Rightarrow> op_ret None
      | NLeaf leaf_key value \<Rightarrow>
          op_bind (op_expect (ns_to_nibbles key)) (\<lambda>ks.
          op_bind (op_expect (ns_to_nibbles (ns_from_nibbles leaf_key))) (\<lambda>lks.
            if ks = lks then op_ret (Some hash_ZERO) else op_ret None))
      | NExtension ext_key child \<Rightarrow>
          let ext_nibbles = ns_from_nibbles ext_key in
          op_bind (op_expect (ns_starts_with key ext_nibbles)) (\<lambda>starts.
            if starts then
              op_bind (op_expect (ns_offset key (ns_len ext_nibbles))) (\<lambda>remaining.
              op_bind (delete_at E fuel child remaining) (\<lambda>r. case r of
                Some new_child \<Rightarrow>
                  if new_child = hash_ZERO then op_ret (Some hash_ZERO)
                  else op_bind (merge_extension E ext_nibbles new_child) (\<lambda>m. op_ret (Some m))
              | None \<Rightarrow> op_ret None))
            else op_ret None)
      | NBranch children value \<Rightarrow>
          if ns_is_empty key then
            (if value = None then op_ret None
             else op_bind (maybe_collapse_branch E children None) (\<lambda>m. op_ret (Some m)))
          else
            op_bind (op_expect (ns_at key 0)) (\<lambda>nibble.
            op_bind (op_expect (index_opt children (unat nibble))) (\<lambda>child. case child of
              None \<Rightarrow> op_ret None
            | Some child_hash \<Rightarrow>
                op_bind (op_expect (ns_offset key 1)) (\<lambda>remaining.
                op_bind (delete_at E fuel child_hash remaining) (\<lambda>r. case r of
                  Some new_child \<Rightarrow>
                    op_bind (maybe_collapse_branch E
                        (children[unat nibble := if new_child = hash_ZERO then None else Some new_child])
                        value)
                      (\<lambda>m. op_ret (Some m))
                | None \<Rightarrow> op_ret None))))))"

definition trie_delete :: "('d, 'z) trie_env_scheme \<Rightarrow> bytes \<Rightarrow> ('d, bool) trie_op" where
  "trie_delete E key = (\<lambda>(d, t).
     if tr_root t = hash_ZERO then (Inr False, (d, t))
     else let nibbles = ns_from_bytes key in
       op_bind (delete_at E (Suc (ns_len nibbles)) (tr_root t) nibbles)
         (\<lambda>r. case r of
            Some new_root \<Rightarrow> (\<lambda>(d', t'). (Inr True, (d', t'\<lparr>tr_root := new_root\<rparr>)))
          | None \<Rightarrow> op_ret False) (d, t))"

section \<open>Commit and enumeration\<close>

text \<open>
  \<open>commit\<close> takes the dirty map, writes every entry in one batch and puts every entry into the
  cache, in the order in which the map is iterated.
\<close>

definition trie_commit :: "('d, 'z) trie_env_scheme \<Rightarrow> ('d, hash) trie_op" where
  "trie_commit E = (\<lambda>(d, t).
     let dirty_nodes = dirty_order E (tr_dirty t);
         batch = map (\<lambda>(h, n). BatchPut STATE h (node_to_bytes E n)) dirty_nodes;
         cache = fold (\<lambda>(h, n) c. node_cache_put E c h n) dirty_nodes (tr_cache t);
         t' = t\<lparr>tr_dirty := [], tr_cache := cache\<rparr>
     in case rk_write E d batch of
          (Inl e, d') \<Rightarrow> (Inl (Err (Storage e)), (d', t'))
        | (Inr _, d') \<Rightarrow> (Inr (tr_root t), (d', t')))"

text \<open>\<open>collect_values\<close> pushes onto a vector; the loop over the children threads it.\<close>

primrec collect_values :: "('d, 'z) trie_env_scheme \<Rightarrow> nat \<Rightarrow> hash \<Rightarrow> bytes list \<Rightarrow>
    ('d, bytes list) trie_op" where
  "collect_values E 0 = (\<lambda>h vs. op_fail OutOfFuel)"
| "collect_values E (Suc fuel) = (\<lambda>h vs.
     if h = hash_ZERO then op_ret vs
     else op_bind (get_node E h) (\<lambda>node. case node of
       NEmpty \<Rightarrow> op_ret vs
     | NLeaf key value \<Rightarrow> op_ret (vs @ [value])
     | NExtension key child \<Rightarrow> collect_values E fuel child vs
     | NBranch children value \<Rightarrow>
         op_fold (collect_values E fuel) (concat (map (\<lambda>c. case c of None \<Rightarrow> [] | Some h \<Rightarrow> [h]) children))
           (case value of Some v \<Rightarrow> vs @ [v] | None \<Rightarrow> vs)))"

definition trie_values :: "('d, 'z) trie_env_scheme \<Rightarrow> nat \<Rightarrow> ('d, bytes list) trie_op" where
  "trie_values E fuel = (\<lambda>(d, t). collect_values E fuel (tr_root t) [] (d, t))"

end
