(* ===== verification/Patricia_Tree.thy ===== *)
theory Patricia_Tree
  imports Nibbles
begin

text \<open>
  The abstract side of the trie: Patricia trees as a datatype, with the pure functions that
  \<open>trie.rs\<close> computes through hashes and a node store. A key is a list of nibbles. On trees whose
  keys all have the same length (addresses, storage slots) lookup, insertion and deletion obey
  the laws of a map, and a canonical tree is determined by the map it represents.
\<close>

section \<open>Trees and operations\<close>

datatype ptree =
    PLeaf bytes bytes
  | PExt bytes ptree
  | PBranch "ptree option list" "bytes option"

fun t_get :: "ptree \<Rightarrow> bytes \<Rightarrow> bytes option" where
  "t_get (PLeaf lk v) k = (if k = lk then Some v else None)"
| "t_get (PExt ek c) k = (if lcp k ek = length ek then t_get c (drop (length ek) k) else None)"
| "t_get (PBranch cs bv) [] = bv"
| "t_get (PBranch cs bv) (x # k) = (case cs ! unat x of None \<Rightarrow> None | Some c \<Rightarrow> t_get c k)"

definition pext :: "bytes \<Rightarrow> ptree \<Rightarrow> ptree" where
  "pext k t = (if k = [] then t else PExt k t)"

definition split_tree :: "bytes \<Rightarrow> nat \<Rightarrow> u8 \<Rightarrow> ptree \<Rightarrow> bytes \<Rightarrow> ptree" where
  "split_tree k n old_nibble old v =
     pext (take n k)
       (if n < length k
        then PBranch ((replicate 16 None)[unat old_nibble := Some old,
                                          unat (k ! n) := Some (PLeaf (drop (n + 1) k) v)]) None
        else PBranch ((replicate 16 None)[unat old_nibble := Some old]) (Some v))"

fun t_insert :: "ptree \<Rightarrow> bytes \<Rightarrow> bytes \<Rightarrow> ptree" where
  "t_insert (PLeaf lk lv) k v =
     (if k = lk then PLeaf k v
      else let n = lcp k lk in
        if n < length lk then split_tree k n (lk ! n) (PLeaf (drop (n + 1) lk) lv) v
        else pext (take n k)
               (PBranch ((replicate 16 None)[unat (k ! n) := Some (PLeaf (drop (n + 1) k) v)]) None))"
| "t_insert (PExt ek c) k v =
     (let n = lcp k ek in
      if n = length ek then PExt ek (t_insert c (drop n k) v)
      else split_tree k n (ek ! n) (pext (drop (n + 1) ek) c) v)"
| "t_insert (PBranch cs bv) [] v = PBranch cs (Some v)"
| "t_insert (PBranch cs bv) (x # k) v =
     PBranch (cs[unat x := Some (case cs ! unat x of None \<Rightarrow> PLeaf k v | Some c \<Rightarrow> t_insert c k v)]) bv"

text \<open>Prepending nibbles to a subtree, as the collapse after a deletion does.\<close>

fun prepend :: "bytes \<Rightarrow> ptree \<Rightarrow> ptree" where
  "prepend p (PLeaf k v) = PLeaf (p @ k) v"
| "prepend p (PExt k c) = PExt (p @ k) c"
| "prepend p (PBranch cs bv) = PExt p (PBranch cs bv)"

fun first_child :: "nat \<Rightarrow> 'a option list \<Rightarrow> (nat \<times> 'a) option" where
  "first_child i [] = None"
| "first_child i (None # cs) = first_child (Suc i) cs"
| "first_child i (Some c # cs) = Some (i, c)"

definition children_count :: "'a option list \<Rightarrow> nat" where
  "children_count cs = length (filter (\<lambda>c. c \<noteq> None) cs)"

definition collapse :: "ptree option list \<Rightarrow> bytes option \<Rightarrow> ptree option" where
  "collapse cs bv =
     (if children_count cs = 0 then map_option (PLeaf []) bv
      else if children_count cs = 1 \<and> bv = None
      then map_option (\<lambda>(i, c). prepend [of_nat i] c) (first_child 0 cs)
      else Some (PBranch cs bv))"

text \<open>\<open>None\<close>: the key is absent; \<open>Some None\<close>: the tree became empty.\<close>

fun t_delete :: "ptree \<Rightarrow> bytes \<Rightarrow> ptree option option" where
  "t_delete (PLeaf lk v) k = (if k = lk then Some None else None)"
| "t_delete (PExt ek c) k =
     (if lcp k ek = length ek
      then map_option (map_option (prepend ek)) (t_delete c (drop (length ek) k))
      else None)"
| "t_delete (PBranch cs bv) [] = (if bv = None then None else Some (collapse cs None))"
| "t_delete (PBranch cs bv) (x # k) =
     (case cs ! unat x of
        None \<Rightarrow> None
      | Some c \<Rightarrow> map_option (\<lambda>c'. collapse (cs[unat x := c']) bv) (t_delete c k))"

section \<open>Well-formed trees\<close>

definition nibble_list :: "bytes \<Rightarrow> bool" where
  "nibble_list k \<longleftrightarrow> (\<forall>x \<in> set k. is_nibble x)"

text \<open>Shape every operation relies on: nibbles in keys, non-empty extensions, sixteen children.\<close>

fun wf_tree :: "ptree \<Rightarrow> bool" where
  "wf_tree (PLeaf k v) = nibble_list k"
| "wf_tree (PExt k c) = (k \<noteq> [] \<and> nibble_list k \<and> wf_tree c)"
| "wf_tree (PBranch cs bv) = (length cs = 16 \<and> (\<forall>c \<in> set cs. pred_option wf_tree c))"

text \<open>Trees all of whose keys have length \<open>n\<close>, in canonical form.\<close>

fun is_branch :: "ptree \<Rightarrow> bool" where
  "is_branch (PBranch cs bv) = True"
| "is_branch _ = False"

fun mpt :: "nat \<Rightarrow> ptree \<Rightarrow> bool" where
  "mpt n (PLeaf k v) = (length k = n \<and> nibble_list k)"
| "mpt n (PExt k c) = (k \<noteq> [] \<and> length k \<le> n \<and> nibble_list k \<and> is_branch c \<and> mpt (n - length k) c)"
| "mpt n (PBranch cs bv) =
     (0 < n \<and> length cs = 16 \<and> bv = None \<and> 2 \<le> children_count cs \<and>
      (\<forall>c \<in> set cs. pred_option (mpt (n - 1)) c))"

definition key_of :: "nat \<Rightarrow> bytes \<Rightarrow> bool" where
  "key_of n k \<longleftrightarrow> length k = n \<and> nibble_list k"

section \<open>Occupied slots\<close>

lemma nibble_list_simps [simp]:
  "nibble_list []"
  "nibble_list (x # k) \<longleftrightarrow> is_nibble x \<and> nibble_list k"
  "nibble_list (k @ k') \<longleftrightarrow> nibble_list k \<and> nibble_list k'"
  by (auto simp: nibble_list_def)

lemma nibble_list_take_drop [simp]:
  "nibble_list k \<Longrightarrow> nibble_list (take n k)" "nibble_list k \<Longrightarrow> nibble_list (drop n k)"
  by (auto simp: nibble_list_def dest: in_set_takeD in_set_dropD)

lemma nibble_list_nth: "nibble_list k \<Longrightarrow> i < length k \<Longrightarrow> is_nibble (k ! i)"
  by (simp add: nibble_list_def)

lemma unat_nibble: "is_nibble x \<Longrightarrow> unat x < 16"
  by (simp add: is_nibble_def word_less_nat_alt)

lemma is_nibble_of_nat: "i < 16 \<Longrightarrow> is_nibble (of_nat i)" "i < 16 \<Longrightarrow> unat (of_nat i :: u8) = i"
  by (simp_all add: is_nibble_def word_less_nat_alt unat_of_nat)

lemma children_count_card: "children_count cs = card {i. i < length cs \<and> cs ! i \<noteq> None}"
  by (simp add: children_count_def length_filter_conv_card)

lemma children_count_0: "children_count cs = 0 \<longleftrightarrow> (\<forall>c \<in> set cs. c = None)"
  by (auto simp: children_count_def filter_empty_conv)

lemma children_count_ge_2:
  "2 \<le> children_count cs \<longleftrightarrow>
     (\<exists>i j. i < length cs \<and> j < length cs \<and> i \<noteq> j \<and> cs ! i \<noteq> None \<and> cs ! j \<noteq> None)"
    (is "_ \<longleftrightarrow> ?R")
proof
  assume "2 \<le> children_count cs"
  then have "2 \<le> card {i. i < length cs \<and> cs ! i \<noteq> None}"
    by (simp add: children_count_card)
  then obtain T where "T \<subseteq> {i. i < length cs \<and> cs ! i \<noteq> None}" "card T = 2"
    by (rule obtain_subset_with_card_n)
  moreover obtain i j where "T = {i, j}" "i \<noteq> j"
    using \<open>card T = 2\<close> by (auto simp: card_2_iff)
  ultimately show ?R by auto
next
  assume ?R
  then obtain i j where "i \<noteq> j" "{i, j} \<subseteq> {i. i < length cs \<and> cs ! i \<noteq> None}" by auto
  then have "card {i, j} \<le> card {i. i < length cs \<and> cs ! i \<noteq> None}"
    by (intro card_mono) auto
  with \<open>i \<noteq> j\<close> show "2 \<le> children_count cs" by (simp add: children_count_card)
qed

lemma first_child_Some:
  "first_child j cs = Some (i, c) \<Longrightarrow> j \<le> i \<and> i - j < length cs \<and> cs ! (i - j) = Some c"
proof (induction j cs rule: first_child.induct)
  case (2 j cs)
  then have "Suc j \<le> i" "i - Suc j < length cs" "cs ! (i - Suc j) = Some c" by auto
  moreover from this have "i - j = Suc (i - Suc j)" by simp
  ultimately show ?case by simp
qed auto

lemma first_child_None: "first_child j cs = None \<longleftrightarrow> (\<forall>c \<in> set cs. c = None)"
  by (induction j cs rule: first_child.induct) auto

lemma first_child_single:
  assumes "children_count cs = 1"
  obtains i c where "first_child 0 cs = Some (i, c)" "i < length cs" "cs ! i = Some c"
    "\<And>j. j < length cs \<Longrightarrow> j \<noteq> i \<Longrightarrow> cs ! j = None"
proof -
  have "first_child 0 cs \<noteq> None"
    using assms children_count_0 [of cs] by (simp add: first_child_None)
  then obtain i c where f: "first_child 0 cs = Some (i, c)" by auto
  then have i: "i < length cs" "cs ! i = Some c" using first_child_Some [OF f] by auto
  moreover have "cs ! j = None" if "j < length cs" "j \<noteq> i" for j
  proof (rule ccontr)
    assume "cs ! j \<noteq> None"
    with that i have "2 \<le> children_count cs" unfolding children_count_ge_2 by blast
    with assms show False by simp
  qed
  ultimately show thesis using f that by blast
qed

lemma nth_update_Some: "cs ! j \<noteq> None \<Longrightarrow> cs[i := Some c] ! j \<noteq> None"
  by (cases "i < length cs") (simp_all add: nth_list_update list_update_beyond)

lemma children_count_update:
  assumes "2 \<le> children_count cs"
  shows "2 \<le> children_count (cs[i := Some c])"
proof -
  obtain j k where "j < length cs" "k < length cs" "j \<noteq> k" "cs ! j \<noteq> None" "cs ! k \<noteq> None"
    using assms unfolding children_count_ge_2 by blast
  then have "j < length (cs[i := Some c])" "k < length (cs[i := Some c])" "j \<noteq> k"
    "cs[i := Some c] ! j \<noteq> None" "cs[i := Some c] ! k \<noteq> None"
    by (simp_all add: nth_update_Some)
  then show ?thesis unfolding children_count_ge_2 by blast
qed

lemma children_count_two:
  assumes "i \<noteq> j" "i < n" "j < n"
  shows "2 \<le> children_count ((replicate n None)[i := Some a, j := Some b])"
proof -
  have "(replicate n None)[i := Some a, j := Some b] ! i \<noteq> None"
    "(replicate n None)[i := Some a, j := Some b] ! j \<noteq> None"
    using assms by simp_all
  with assms show ?thesis
    unfolding children_count_ge_2 by (intro exI [of _ i] exI [of _ j]) simp
qed

section \<open>Prefixes\<close>

lemma t_get_pext: "t_get (pext p t) k = (if lcp k p = length p then t_get t (drop (length p) k) else None)"
  by (auto simp: pext_def)

lemma lcp_append_prefix: "lcp k (p @ q) = length (p @ q) \<longleftrightarrow>
    lcp k p = length p \<and> lcp (drop (length p) k) q = length q"
proof (cases "length p \<le> length k")
  case True
  then have "take (length p) k @ take (length q) (drop (length p) k) = p @ q \<longleftrightarrow>
      take (length p) k = p \<and> take (length q) (drop (length p) k) = q"
    by (intro append_eq_append_conv) simp
  with True show ?thesis unfolding lcp_prefix by (auto simp: take_add)
next
  case False
  then show ?thesis unfolding lcp_prefix by auto
qed

lemma t_get_prepend:
  "t_get (prepend p t) k = (if lcp k p = length p then t_get t (drop (length p) k) else None)"
proof (cases t)
  case (PLeaf lk v)
  have "k = p @ lk \<longleftrightarrow> lcp k p = length p \<and> drop (length p) k = lk"
    by (auto simp: lcp_prefix) (metis append_take_drop_id)
  then show ?thesis using PLeaf by auto
next
  case (PExt ek c)
  then show ?thesis using lcp_append_prefix [of k p ek] by (auto simp: add.commute)
qed auto

lemma mpt_prepend:
  assumes "mpt n t" "p \<noteq> []" "nibble_list p"
  shows "mpt (length p + n) (prepend p t)"
  using assms by (cases t) auto

lemma mpt_pext_branch:
  "mpt n t \<Longrightarrow> is_branch t \<Longrightarrow> nibble_list p \<Longrightarrow> mpt (length p + n) (pext p t)"
  by (auto simp: pext_def)

lemma is_branch_pext: "is_branch (pext p t) \<longleftrightarrow> p = [] \<and> is_branch t"
  by (auto simp: pext_def)

lemma mpt_wf: "mpt n t \<Longrightarrow> wf_tree t"
  by (induction n t rule: mpt.induct) (auto simp: pred_option_def)

section \<open>Insertion is a map update\<close>

lemma nth_list_update_eq_iff:
  "i < length cs \<Longrightarrow> cs[i := c] ! j = (if j = i then c else cs ! j)"
  by simp

lemma unat_nibble_eq [simp]: "unat x = unat y \<longleftrightarrow> x = (y :: u8)"
  by (simp add: word_unat_eq_iff)

lemma replicate_None_get:
  "is_nibble x \<Longrightarrow> is_nibble y \<Longrightarrow>
     (replicate 16 None)[unat y := Some c] ! unat x = (if x = y then Some c else None)"
  by (auto simp: nth_list_update unat_nibble)

lemma t_get_split_tree:
  assumes "n < length k" "length k' = length k" "nibble_list k" "nibble_list k'" "is_nibble x" "x \<noteq> k ! n"
  shows "t_get (split_tree k n x old v) k' =
    (if take n k' = take n k then
       (if k' ! n = k ! n then (if drop (n + 1) k' = drop (n + 1) k then Some v else None)
        else if k' ! n = x then t_get old (drop (n + 1) k') else None)
     else None)"
proof -
  have n: "is_nibble (k ! n)" "is_nibble (k' ! n)" using assms by (simp_all add: nibble_list_nth)
  have "drop n k' = k' ! n # drop (n + 1) k'" using assms by (simp add: Cons_nth_drop_Suc)
  moreover have "lcp k' (take n k) = length (take n k) \<longleftrightarrow> take n k' = take n k"
    using assms lcp_prefix [of k' "take n k"] by (simp add: min_absorb2)
  ultimately show ?thesis
    using assms n
    by (auto simp: split_tree_def t_get_pext min_def nth_list_update unat_nibble)
qed

lemma eq_take_nth_drop:
  assumes "n < length k" "length k' = length k"
  shows "k' = k \<longleftrightarrow> take n k' = take n k \<and> k' ! n = k ! n \<and> drop (n + 1) k' = drop (n + 1) k"
  using assms by (metis Suc_eq_plus1 id_take_nth_drop)

lemma lcp_less:
  "length k = length k' \<Longrightarrow> k \<noteq> k' \<Longrightarrow> lcp k k' < length k"
  using lcp_le(1) [of k k'] lcp_full [of k k'] by (auto simp: le_less)

lemma lcp_split:
  "m < length ek \<Longrightarrow> m < length k \<Longrightarrow> lcp k ek = length ek \<longleftrightarrow>
     take m k = take m ek \<and> k ! m = ek ! m \<and> lcp (drop (m + 1) k) (drop (m + 1) ek) = length ek - (m + 1)"
proof (induction m arbitrary: k ek)
  case 0
  then show ?case by (cases k; cases ek) auto
next
  case (Suc m)
  then show ?case by (cases k; cases ek) auto
qed

lemma t_get_insert:
  assumes "mpt n t" "key_of n k" "key_of n k'"
  shows "t_get (t_insert t k v) k' = (if k' = k then Some v else t_get t k')"
  using assms
proof (induction t k v arbitrary: n k' rule: t_insert.induct)
  case (1 lk lv k v)
  show ?case
  proof (cases "k = lk")
    case False
    define m where "m = lcp k lk"
    have len: "length k = length lk" "length k' = length k" and nl: "nibble_list k" "nibble_list k'" "nibble_list lk"
      using 1 by (auto simp: key_of_def)
    have m: "m < length k" using False len lcp_less [of k lk] by (simp add: m_def)
    moreover have "lk ! m \<noteq> k ! m" "take m k = take m lk"
      using m len lcp_nth [of k lk] lcp_take [of k lk] by (auto simp: m_def)
    moreover have "is_nibble (lk ! m)" using m len nl by (simp add: nibble_list_nth)
    ultimately show ?thesis
      using False len nl t_get_split_tree [of m k k' "lk ! m"] eq_take_nth_drop [of m k k']
        eq_take_nth_drop [of m lk k']
      by (auto simp: Let_def m_def)
  qed auto
next
  case (2 ek c k v)
  define m where "m = lcp k ek"
  have len: "length k = n" "length k' = n" and nl: "nibble_list k" "nibble_list k'" "nibble_list ek"
    and ek: "ek \<noteq> []" "length ek \<le> n" "mpt (n - length ek) c"
    using 2(2-) by (auto simp: key_of_def)
  show ?case
  proof (cases "m = length ek")
    case True
    then have pre: "take (length ek) k = ek" using lcp_prefix [of k ek] by (simp add: m_def)
    have IH: "t_get (t_insert c (drop m k) v) (drop m k') =
        (if drop m k' = drop m k then Some v else t_get c (drop m k'))"
      using 2(1) [of m "n - length ek" "drop m k'"] True len nl ek by (simp add: m_def key_of_def)
    have "k' = k \<longleftrightarrow> take (length ek) k' = ek \<and> drop (length ek) k' = drop (length ek) k"
      using pre by (metis append_take_drop_id)
    then show ?thesis
      using IH True len ek lcp_prefix [of k' ek] by (auto simp: Let_def m_def)
  next
    case False
    have m: "m < length ek" using False lcp_le(2) [of k ek] by (simp add: m_def)
    then have "m < length k" using len ek by simp
    moreover have "ek ! m \<noteq> k ! m" "take m k = take m ek"
      using m \<open>m < length k\<close> lcp_nth [of k ek] lcp_take [of k ek] by (auto simp: m_def)
    moreover have "is_nibble (ek ! m)" using m nl by (simp add: nibble_list_nth)
    moreover have "(take m k' = take m ek \<and> k' ! m = ek ! m \<and> lcp (drop (m + 1) k') (drop (m + 1) ek) = length ek - (m + 1))
       \<longleftrightarrow> lcp k' ek = length ek"
      using lcp_split [of m ek k'] m \<open>m < length k\<close> len by auto
    ultimately show ?thesis
      using False m len nl ek(1) t_get_split_tree [of m k k' "ek ! m"] eq_take_nth_drop [of m k k']
      by (auto simp: Let_def m_def t_get_pext)
  qed
next
  case (3 cs bv v)
  then show ?case by (simp add: key_of_def)
next
  case (4 cs bv x k v)
  obtain y l where k': "k' = y # l" using 4(2-) by (cases k') (auto simp: key_of_def)
  have xy: "unat x < 16" "unat y < 16" using 4(2-) k' by (auto simp: key_of_def unat_nibble)
  have keys: "key_of (n - 1) k" "key_of (n - 1) l" using 4(2-) k' by (auto simp: key_of_def)
  show ?case
  proof (cases "x = y \<and> cs ! unat x \<noteq> None")
    case True
    then obtain c where c: "cs ! unat x = Some c" by auto
    then have "mpt (n - 1) c" using 4(2) xy by (metis mpt.simps(3) nth_mem option.pred_inject(2))
    then show ?thesis using 4(1) [OF c] keys True c k' xy 4(2) by (auto simp: nth_list_update)
  next
    case False
    then show ?thesis using xy k' 4(2) by (auto simp: nth_list_update split: option.splits)
  qed
qed


lemma is_branch_insert: "is_branch t \<Longrightarrow> is_branch (t_insert t k v)"
  by (cases t; cases k) auto

lemma mpt_branch_two:
  assumes "i \<noteq> j" "i < 16" "j < 16" "mpt n a" "mpt n b"
  shows "mpt (Suc n) (PBranch ((replicate 16 None)[i := Some a, j := Some b]) None)"
  using assms children_count_two [of i j 16 a b] set_update_subset_insert
  by (auto dest!: set_update_subset_insert [THEN subsetD] simp del: children_count_def)

lemma mpt_split_tree:
  assumes "m < length k" "nibble_list k" "is_nibble x" "x \<noteq> k ! m" "mpt (length k - Suc m) old"
  shows "mpt (length k) (split_tree k m x old v)"
proof -
  define b where "b = PBranch ((replicate 16 None)[unat x := Some old,
                     unat (k ! m) := Some (PLeaf (drop (m + 1) k) v)]) None"
  have "mpt (Suc (length k - Suc m)) b"
    unfolding b_def using assms
    by (intro mpt_branch_two) (auto simp: unat_nibble nibble_list_nth)
  then have "mpt (length (take m k) + Suc (length k - Suc m)) (pext (take m k) b)"
    using assms(2) by (intro mpt_pext_branch) (simp_all add: b_def)
  moreover have "length (take m k) + Suc (length k - Suc m) = length k" using assms(1) by simp
  ultimately have "mpt (length k) (pext (take m k) b)" by (simp only:)
  then show ?thesis using assms(1) by (simp add: split_tree_def b_def)
qed

lemma mpt_insert:
  assumes "mpt n t" "key_of n k"
  shows "mpt n (t_insert t k v)"
  using assms
proof (induction t k v arbitrary: n rule: t_insert.induct)
  case (1 lk lv k v)
  then show ?case
    using lcp_less [of k lk] lcp_nth [of k lk] mpt_split_tree [of "lcp k lk" k "lk ! lcp k lk"]
    by (auto simp: Let_def key_of_def nibble_list_nth)
next
  case (2 ek c k v)
  show ?case
  proof (cases "lcp k ek = length ek")
    case True
    with 2 show ?thesis by (simp add: key_of_def is_branch_insert)
  next
    case False
    then have m: "lcp k ek < length ek" using lcp_le(2) [of k ek] by simp
    have "mpt (n - Suc (lcp k ek)) (pext (drop (lcp k ek + 1) ek) c)"
      using mpt_pext_branch [of "n - length ek" c "drop (lcp k ek + 1) ek"] 2(2-) m by auto
    then show ?thesis
      using False m 2(2-) lcp_nth [of k ek] mpt_split_tree [of "lcp k ek" k "ek ! lcp k ek"]
      by (auto simp: Let_def key_of_def nibble_list_nth)
  qed
next
  case (3 cs bv v)
  then show ?case by (simp add: key_of_def)
next
  case (4 cs bv x k v)
  have "mpt (n - 1) (case cs ! unat x of None \<Rightarrow> PLeaf k v | Some c \<Rightarrow> t_insert c k v)"
  proof (cases "cs ! unat x")
    case None
    then show ?thesis using 4(3) by (auto simp: key_of_def)
  next
    case (Some c)
    then have "mpt (n - 1) c"
      using 4(2,3) by (metis key_of_def list.set_intros(1) mpt.simps(3) nibble_list_def nth_mem
          option.pred_inject(2) unat_nibble)
    then show ?thesis using 4(1) [OF Some] 4(3) Some by (auto simp: key_of_def)
  qed
  then show ?case
    using 4(2) children_count_update [of cs "unat x"] set_update_subset_insert
    by (auto dest!: set_update_subset_insert [THEN subsetD])
qed

section \<open>Deletion is a map restriction\<close>

definition tm_get :: "ptree option \<Rightarrow> bytes \<Rightarrow> bytes option" where
  "tm_get t k = (case t of None \<Rightarrow> None | Some t' \<Rightarrow> t_get t' k)"

definition tm_mpt :: "nat \<Rightarrow> ptree option \<Rightarrow> bool" where
  "tm_mpt n t = pred_option (mpt n) t"

lemma tm_simps [simp]:
  "tm_get None k = None" "tm_get (Some t) k = t_get t k"
  "tm_mpt n None" "tm_mpt n (Some t) = mpt n t"
  by (simp_all add: tm_get_def tm_mpt_def)

lemma collapse_single:
  assumes "children_count cs = 1" "length cs = 16"
  obtains i c where "i < 16" "cs ! i = Some c" "collapse cs None = Some (prepend [of_nat i] c)"
    "\<And>j. j < 16 \<Longrightarrow> j \<noteq> i \<Longrightarrow> cs ! j = None"
proof -
  obtain i c where "first_child 0 cs = Some (i, c)" "i < length cs" "cs ! i = Some c"
    "\<And>j. j < length cs \<Longrightarrow> j \<noteq> i \<Longrightarrow> cs ! j = None"
    using first_child_single [OF assms(1)] by blast
  then show thesis using assms by (intro that [of i c]) (simp_all add: collapse_def)
qed

lemma t_get_collapse:
  assumes "length cs = 16" "is_nibble x"
  shows "tm_get (collapse cs None) (x # k) = (case cs ! unat x of None \<Rightarrow> None | Some c \<Rightarrow> t_get c k)"
proof -
  consider "children_count cs = 0" | "children_count cs = 1" | "2 \<le> children_count cs" by linarith
  then show ?thesis
  proof cases
    case 1
    then have "cs ! unat x = None"
      using assms unat_nibble [OF assms(2)] by (simp add: children_count_0)
    with 1 show ?thesis by (simp add: collapse_def)
  next
    case 2
    then obtain i c where i: "i < 16" "cs ! i = Some c" "collapse cs None = Some (prepend [of_nat i] c)"
      "\<And>j. j < 16 \<Longrightarrow> j \<noteq> i \<Longrightarrow> cs ! j = None"
      using collapse_single [OF _ assms(1)] by metis
    show ?thesis
    proof (cases "unat x = i")
      case True
      then have "x = of_nat i"
        using is_nibble_of_nat(2) [OF i(1)] unat_nibble_eq [of x "of_nat i"] by simp
      with i True show ?thesis by (simp add: t_get_prepend)
    next
      case False
      then have "x \<noteq> of_nat i" using i(1) is_nibble_of_nat by auto
      then show ?thesis using i False unat_nibble [OF assms(2)] by (simp add: t_get_prepend)
    qed
  next
    case 3
    then show ?thesis by (simp add: collapse_def)
  qed
qed

lemma mpt_collapse:
  assumes "length cs = 16" "\<forall>c \<in> set cs. pred_option (mpt n) c"
  shows "tm_mpt (Suc n) (collapse cs None)"
proof -
  consider "children_count cs = 0" | "children_count cs = 1" | "2 \<le> children_count cs" by linarith
  then show ?thesis
  proof cases
    case 2
    then obtain i c where i: "i < 16" "cs ! i = Some c" "collapse cs None = Some (prepend [of_nat i] c)"
      using collapse_single [OF _ assms(1)] by metis
    then have "mpt n c" using assms by (metis nth_mem option.pred_inject(2))
    then have "mpt (length [of_nat i :: u8] + n) (prepend [of_nat i] c)"
      using i(1) by (intro mpt_prepend) (simp_all add: is_nibble_of_nat)
    with i show ?thesis by simp
  qed (use assms in \<open>auto simp: collapse_def\<close>)
qed

lemma t_delete_None: "mpt n t \<Longrightarrow> key_of n k \<Longrightarrow> t_delete t k = None \<longleftrightarrow> t_get t k = None"
proof (induction t k arbitrary: n rule: t_delete.induct)
  case (4 cs bv x k)
  then show ?case
    by (auto split: option.splits simp: key_of_def)
       (metis Suc_pred length_0_conv length_Cons nth_mem option.distinct(1) option.inject option.pred_inject(2) unat_nibble diff_Suc_1)+
qed (auto simp: key_of_def)

lemma t_delete_Some:
  assumes "mpt n t" "key_of n k" "t_delete t k = Some r"
  shows "tm_mpt n r \<and> (\<forall>k'. key_of n k' \<longrightarrow> tm_get r k' = (if k' = k then None else t_get t k'))"
  using assms
proof (induction t k arbitrary: n r rule: t_delete.induct)
  case (1 lk v k)
  then show ?case by (auto split: if_splits)
next
  case (2 ek c k)
  then obtain r' where pre: "lcp k ek = length ek" and r': "t_delete c (drop (length ek) k) = Some r'"
    "r = map_option (prepend ek) r'" by (auto split: if_splits)
  have len: "length ek \<le> n" "length k = n" "nibble_list k" "nibble_list ek" "ek \<noteq> []"
    and c: "mpt (n - length ek) c"
    using 2(2,3) by (auto simp: key_of_def)
  have IH: "tm_mpt (n - length ek) r'"
    "\<And>k'. key_of (n - length ek) k' \<Longrightarrow> tm_get r' k' = (if k' = drop (length ek) k then None else t_get c k')"
    using 2(1) [OF pre c _ r'(1)] len by (auto simp: key_of_def)
  have "tm_mpt n r"
    using IH(1) r'(2) len mpt_prepend [of "n - length ek" _ ek] by (cases r') auto
  moreover have "tm_get r k' = (if k' = k then None else t_get (PExt ek c) k')" if k': "key_of n k'" for k'
  proof -
    have "k' = k \<longleftrightarrow> lcp k' ek = length ek \<and> drop (length ek) k' = drop (length ek) k"
      using pre unfolding lcp_prefix by (metis append_take_drop_id)
    then show ?thesis
      using IH(2) [of "drop (length ek) k'"] k' r'(2) len
      by (cases r') (auto simp: t_get_prepend key_of_def split: if_splits)
  qed
  ultimately show ?case by blast
next
  case (3 cs bv)
  then show ?case by (simp add: key_of_def)
next
  case (4 cs bv x k)
  then obtain c c' where c: "cs ! unat x = Some c" "t_delete c k = Some c'" "r = collapse (cs[unat x := c']) bv"
    by (auto split: option.splits)
  have bv: "bv = None" "length cs = 16" "0 < n" "unat x < 16" "key_of (n - 1) k"
    and cs: "\<forall>c \<in> set cs. pred_option (mpt (n - 1)) c"
    using 4(2,3) by (auto simp: key_of_def unat_nibble)
  then have "mpt (n - 1) c" using c(1) by (metis nth_mem option.pred_inject(2))
  then have IH: "tm_mpt (n - 1) c'"
    "\<And>k'. key_of (n - 1) k' \<Longrightarrow> tm_get c' k' = (if k' = k then None else t_get c k')"
    using 4(1) [OF c(1) _ _ c(2)] bv by auto
  then have "\<forall>d \<in> set (cs[unat x := c']). pred_option (mpt (n - 1)) d"
    using cs set_update_subset_insert [of cs "unat x" c'] by (auto simp: tm_mpt_def)
  then have "tm_mpt n r" using mpt_collapse [of "cs[unat x := c']" "n - 1"] bv c(3) by simp
  moreover have "tm_get r k' = (if k' = x # k then None else t_get (PBranch cs bv) k')" if k': "key_of n k'" for k'
  proof -
    obtain y l where y: "k' = y # l" using k' bv(3) by (cases k') (auto simp: key_of_def)
    then have y': "is_nibble y" "key_of (n - 1) l" using k' by (auto simp: key_of_def)
    show ?thesis
      using t_get_collapse [of "cs[unat x := c']" y l] y y' bv c IH(2) [of l] unat_nibble [of y]
      by (cases "x = y") (auto simp: tm_get_def split: option.splits)
  qed
  ultimately show ?case by blast
qed

section \<open>A canonical tree is determined by its map\<close>

lemma mpt_key_exists: "mpt n t \<Longrightarrow> \<exists>k. key_of n k \<and> t_get t k \<noteq> None"
proof (induction n t rule: mpt.induct)
  case (1 n k v)
  then show ?case by (intro exI [of _ k]) (simp add: key_of_def)
next
  case (2 n ek c)
  then obtain k where "key_of (n - length ek) k" "t_get c k \<noteq> None" by auto
  then have "key_of n (ek @ k) \<and> t_get (PExt ek c) (ek @ k) \<noteq> None"
    using 2(2) lcp_prefix [of "ek @ k" ek] by (auto simp: key_of_def)
  then show ?case by blast
next
  case (3 n cs bv)
  then obtain i c where i: "i < 16" "cs ! i = Some c" by (auto simp: children_count_ge_2)
  then have "Some c \<in> set cs" using 3(2) by (metis mpt.simps(3) nth_mem)
  moreover from this have "mpt (n - 1) c" using 3(2) by (metis mpt.simps(3) option.pred_inject(2))
  ultimately obtain k where "key_of (n - 1) k" "t_get c k \<noteq> None"
    using 3(1) [of "Some c" c] by auto
  then have "key_of n (of_nat i # k) \<and> t_get (PBranch cs bv) (of_nat i # k) \<noteq> None"
    using i 3(2) by (auto simp: key_of_def is_nibble_of_nat)
  then show ?case by blast
qed

lemma mpt_branch_two_keys:
  assumes "mpt n (PBranch cs bv)"
  obtains x k y l where "x \<noteq> y" "key_of n (x # k)" "key_of n (y # l)"
    "t_get (PBranch cs bv) (x # k) \<noteq> None" "t_get (PBranch cs bv) (y # l) \<noteq> None"
proof -
  have slot: "\<exists>k. key_of n (of_nat i # k) \<and> t_get (PBranch cs bv) (of_nat i # k) \<noteq> None"
    if i: "i < 16" "cs ! i \<noteq> None" for i
  proof -
    obtain c where c: "cs ! i = Some c" using i by auto
    then have "mpt (n - 1) c" using assms i by (metis mpt.simps(3) nth_mem option.pred_inject(2))
    then obtain k where "key_of (n - 1) k" "t_get c k \<noteq> None" using mpt_key_exists by blast
    then show ?thesis using i c assms by (intro exI [of _ k]) (auto simp: key_of_def is_nibble_of_nat)
  qed
  obtain i j where ij: "i < 16" "j < 16" "i \<noteq> j" "cs ! i \<noteq> None" "cs ! j \<noteq> None"
    using assms by (auto simp: children_count_ge_2)
  then have "of_nat i \<noteq> (of_nat j :: u8)" by (metis is_nibble_of_nat(2))
  with slot [of i] slot [of j] ij that show thesis by blast
qed

text \<open>
  The stem of a tree is the prefix its keys share; two keys of a tree that is not a leaf differ
  right behind the stem.
\<close>

fun stem :: "ptree \<Rightarrow> bytes" where
  "stem (PExt ek c) = ek"
| "stem _ = []"

fun is_leaf :: "ptree \<Rightarrow> bool" where
  "is_leaf (PLeaf k v) = True"
| "is_leaf _ = False"

lemma key_stem: "t_get t k \<noteq> None \<Longrightarrow> take (length (stem t)) k = stem t"
  using lcp_prefix [of k "stem t"] by (cases t) (auto split: if_splits)

lemma two_keys:
  assumes "mpt n t" "\<not> is_leaf t"
  obtains k l where "key_of n k" "key_of n l" "t_get t k \<noteq> None" "t_get t l \<noteq> None"
    "k ! length (stem t) \<noteq> l ! length (stem t)"
proof (cases t)
  case (PLeaf k v)
  then show thesis using assms(2) by simp
next
  case (PBranch cs bv)
  obtain x k y l where "x \<noteq> y" "key_of n (x # k)" "key_of n (y # l)"
    "t_get t (x # k) \<noteq> None" "t_get t (y # l) \<noteq> None"
    using mpt_branch_two_keys [of n cs bv] assms(1) unfolding PBranch by metis
  then show thesis using PBranch by (intro that [of "x # k" "y # l"]) auto
next
  case (PExt ek c)
  then obtain cs bv where c: "c = PBranch cs bv" using assms(1) by (cases c) auto
  have "mpt (n - length ek) c" using assms(1) PExt by simp
  then obtain x k y l where xy: "x \<noteq> y" "key_of (n - length ek) (x # k)" "key_of (n - length ek) (y # l)"
    "t_get c (x # k) \<noteq> None" "t_get c (y # l) \<noteq> None"
    using mpt_branch_two_keys [of "n - length ek" cs bv] unfolding c by metis
  have get: "t_get t (ek @ z) = t_get c z" for z
    using PExt lcp_prefix [of "ek @ z" ek] by simp
  have key: "key_of n (ek @ z)" if "key_of (n - length ek) z" for z
    using that assms(1) PExt by (auto simp: key_of_def)
  show thesis
    using xy get key PExt by (intro that [of "ek @ x # k" "ek @ y # l"]) (simp_all add: nth_append)
qed

definition same_map :: "nat \<Rightarrow> ptree \<Rightarrow> ptree \<Rightarrow> bool" where
  "same_map n t t' \<longleftrightarrow> (\<forall>k. key_of n k \<longrightarrow> t_get t k = t_get t' k)"

lemma same_map_sym: "same_map n t t' \<Longrightarrow> same_map n t' t"
  by (simp add: same_map_def)

lemma same_map_stem_le:
  assumes "mpt n t'" "\<not> is_leaf t'" "same_map n t t'"
  shows "length (stem t) \<le> length (stem t')"
proof (rule ccontr)
  assume *: "\<not> ?thesis"
  obtain k l where kl: "key_of n k" "key_of n l" "t_get t' k \<noteq> None" "t_get t' l \<noteq> None"
    "k ! length (stem t') \<noteq> l ! length (stem t')"
    using two_keys [OF assms(1,2)] by metis
  then have "t_get t k \<noteq> None" "t_get t l \<noteq> None" using assms(3) by (simp_all add: same_map_def)
  then have "take (length (stem t)) k = take (length (stem t)) l" by (simp add: key_stem)
  then have "k ! length (stem t') = l ! length (stem t')"
    using * by (metis not_le nth_take)
  with kl(5) show False by simp
qed

lemma same_map_leaf:
  assumes "mpt n t" "mpt n t'" "same_map n t t'" "is_leaf t"
  shows "is_leaf t'"
proof (rule ccontr)
  assume "\<not> is_leaf t'"
  then obtain k l where kl: "key_of n k" "key_of n l" "t_get t' k \<noteq> None" "t_get t' l \<noteq> None"
    "k ! length (stem t') \<noteq> l ! length (stem t')"
    using two_keys [OF assms(2)] by metis
  then have "t_get t k \<noteq> None" "t_get t l \<noteq> None" using assms(3) by (simp_all add: same_map_def)
  then have "k = l" using assms(4) by (cases t) (auto split: if_splits)
  with kl(5) show False by simp
qed

lemma same_map_stem:
  assumes "mpt n t" "mpt n t'" "same_map n t t'" "\<not> is_leaf t"
  shows "stem t = stem t'"
proof -
  have leaf: "\<not> is_leaf t'" using assms same_map_leaf same_map_sym by blast
  then have len: "length (stem t) = length (stem t')"
    using assms same_map_stem_le [of n t t'] same_map_stem_le [of n t' t] same_map_sym by fastforce
  obtain k where k: "key_of n k" "t_get t k \<noteq> None" using mpt_key_exists [OF assms(1)] by blast
  then have "t_get t' k \<noteq> None" using assms(3) by (simp add: same_map_def)
  with k len show ?thesis using key_stem [of t k] key_stem [of t' k] by metis
qed

lemma same_map_ext:
  assumes "same_map n (PExt ek c) (PExt ek c')" "length ek \<le> n" "nibble_list ek"
  shows "same_map (n - length ek) c c'"
  unfolding same_map_def
proof (intro allI impI)
  fix k
  assume k: "key_of (n - length ek) k"
  then have "key_of n (ek @ k)" using assms(2,3) by (simp add: key_of_def)
  then have "t_get (PExt ek c) (ek @ k) = t_get (PExt ek c') (ek @ k)"
    using assms(1) by (simp only: same_map_def)
  then show "t_get c k = t_get c' k" using lcp_prefix [of "ek @ k" ek] by simp
qed

lemma same_map_slot:
  assumes "mpt n (PBranch cs bv)" "mpt n (PBranch cs' bv')" "same_map n (PBranch cs bv) (PBranch cs' bv')"
    "i < 16"
  shows "rel_option (same_map (n - 1)) (cs ! i) (cs' ! i)"
proof -
  have get: "tm_get (cs ! i) k = tm_get (cs' ! i) k" if "key_of (n - 1) k" for k
  proof -
    have "key_of n (of_nat i # k)" using that assms(1,4) by (auto simp: key_of_def is_nibble_of_nat)
    then show ?thesis
      using assms(3,4) by (auto simp: same_map_def is_nibble_of_nat tm_get_def)
  qed
  have key: "\<exists>k. key_of (n - 1) k \<and> t_get c k \<noteq> None" if "mpt n (PBranch ds w)" "ds ! i = Some c" for ds w c
    using that assms(4) mpt_key_exists [of "n - 1" c]
    by (metis mpt.simps(3) nth_mem option.pred_inject(2))
  show ?thesis
  proof (cases "cs ! i"; cases "cs' ! i")
    fix c c' assume "cs ! i = Some c" "cs' ! i = Some c'"
    with get show ?thesis by (simp add: same_map_def)
  qed (use get key [OF assms(1)] key [OF assms(2)] in force)+
qed

lemma mpt_unique: "mpt n t \<Longrightarrow> mpt n t' \<Longrightarrow> same_map n t t' \<Longrightarrow> t = t'"
proof (induction n t arbitrary: t' rule: mpt.induct)
  case (1 n lk v)
  then obtain lk' v' where "t' = PLeaf lk' v'" using same_map_leaf [OF 1] by (cases t') auto
  then show ?case using 1 by (auto simp: same_map_def key_of_def split: if_splits)
next
  case (2 n ek c)
  then have "stem t' = ek" "\<not> is_leaf t'"
    using same_map_stem [OF 2(2-4)] same_map_leaf [OF 2(3,2) same_map_sym] 2(4) by auto
  then obtain c' where t': "t' = PExt ek c'" using 2(2) by (cases t') auto
  then have "same_map (n - length ek) c c'" using 2(2,4) by (intro same_map_ext) auto
  then show ?case using 2 t' by auto
next
  case (3 n cs bv)
  then have "stem t' = []" "\<not> is_leaf t'"
    using same_map_stem [OF 3(2-4)] same_map_leaf [OF 3(3,2) same_map_sym] by auto
  then obtain cs' bv' where t': "t' = PBranch cs' bv'" using 3(3) by (cases t') auto
  have "cs ! i = cs' ! i" if i: "i < 16" for i
  proof (cases "cs ! i")
    case None
    then show ?thesis using same_map_slot [OF 3(2) _ _ i] 3(3,4) t' by fastforce
  next
    case (Some c)
    then obtain c' where c': "cs' ! i = Some c'" "same_map (n - 1) c c'"
      using same_map_slot [OF 3(2) _ _ i, of cs' bv'] 3(3,4) t' by (auto simp: option_rel_Some1)
    have "mpt (n - 1) c" "mpt (n - 1) c'"
      using Some c' i 3(2,3) t' by (metis mpt.simps(3) nth_mem option.pred_inject(2))+
    moreover have "Some c \<in> set cs" using Some i 3(2) by (metis mpt.simps(3) nth_mem)
    ultimately show ?thesis using 3(1) [of "Some c" c c'] Some c' by simp
  qed
  then have "cs = cs'" using 3(2,3) t' by (intro nth_equalityI) auto
  then show ?case using 3(2,3) t' by simp
qed

end
