(* ===== verification/Trie_Refine.thy ===== *)
theory Trie_Refine
  imports Trie_Model Patricia_Tree
begin

text \<open>
  The trie implements the abstract Patricia tree. \<open>thash\<close> and \<open>tnode\<close> are the hash and the node
  a tree is stored under; \<open>stored\<close> says that every node of a tree can be found in the dirty set
  or in the database, and \<open>coherent\<close> that whatever the dirty set, the cache and the database
  hold under a hash is a node with that hash. Under the documented behaviour of the external
  parts (\<open>trie_env_ok\<close>) each trie operation computes the hash of the tree its abstract
  counterpart returns, without a panic, an error or a lack of fuel.
\<close>

section \<open>What the trie relies on\<close>

definition lru_ok :: "('c \<Rightarrow> ('k \<times> 'v) list) \<Rightarrow> ('c \<Rightarrow> 'k \<Rightarrow> 'v option \<times> 'c) \<Rightarrow> ('c \<Rightarrow> 'k \<Rightarrow> 'v \<Rightarrow> 'c) \<Rightarrow> bool" where
  "lru_ok contents get put \<longleftrightarrow>
     (\<forall>c k. fst (get c k) = map_of (contents c) k \<and>
            map_of (contents (snd (get c k))) = map_of (contents c)) \<and>
     (\<forall>c k v. map_of (contents (put c k v)) \<subseteq>\<^sub>m (map_of (contents c))(k \<mapsto> v))"

fun wf_node :: "trie_node \<Rightarrow> bool" where
  "wf_node (NBranch cs v) = (length cs = 16)"
| "wf_node _ = True"

definition trie_env_ok :: "('d, 'z) trie_env_scheme \<Rightarrow> bool" where
  "trie_env_ok E \<longleftrightarrow>
     rocks_ok E \<and>
     inj (blake3_hash E) \<and> (\<forall>b. blake3_hash E b \<noteq> hash_ZERO) \<and>
     (\<forall>n. wf_node n \<longrightarrow> node_from_bytes E (node_to_bytes E n) = Inr n) \<and>
     (\<forall>b n. node_from_bytes E b = Inr n \<longrightarrow> wf_node n) \<and>
     lru_ok id (node_cache_get E) (node_cache_put E) \<and>
     (\<forall>xs. mset (dirty_order E xs) = mset xs)"

lemma env_okD:
  assumes "trie_env_ok E"
  shows "rocks_ok E" "inj (blake3_hash E)" "blake3_hash E b \<noteq> hash_ZERO"
    "wf_node n \<Longrightarrow> node_from_bytes E (node_to_bytes E n) = Inr n"
    "node_from_bytes E b = Inr n \<Longrightarrow> wf_node n"
    "fst (node_cache_get E c k) = map_of c k"
    "map_of (snd (node_cache_get E c k)) = map_of c"
    "map_of (node_cache_put E c k v) \<subseteq>\<^sub>m (map_of c)(k \<mapsto> v)"
    "mset (dirty_order E xs) = mset xs"
  using assms unfolding trie_env_ok_def lru_ok_def by simp_all

lemma node_hash_inj:
  assumes "trie_env_ok E" "wf_node n" "wf_node m" "node_hash E n = node_hash E m"
  shows "n = m"
proof -
  have "blake3_hash E (node_to_bytes E a) \<noteq> hash_ZERO" for a using assms(1) by (rule env_okD)
  then consider "n = NEmpty" "m = NEmpty" | "blake3_hash E (node_to_bytes E n) = blake3_hash E (node_to_bytes E m)"
    using assms(4) by (cases n; cases m) (simp_all add: node_hash_def, metis+)
  then show ?thesis
  proof cases
    case 2
    then have "node_to_bytes E n = node_to_bytes E m"
      using env_okD(2) [OF assms(1)] by (simp add: inj_def)
    then show ?thesis using env_okD(4) [OF assms(1)] assms(2,3) by (metis sum.inject(2))
  qed simp
qed

section \<open>Trees as stored nodes\<close>

fun tnode :: "('d, 'z) trie_env_scheme \<Rightarrow> ptree \<Rightarrow> trie_node" where
  "tnode E (PLeaf k v) = NLeaf k v"
| "tnode E (PExt k c) = NExtension k (node_hash E (tnode E c))"
| "tnode E (PBranch cs bv) = NBranch (map (map_option (\<lambda>c. node_hash E (tnode E c))) cs) bv"

definition thash :: "('d, 'z) trie_env_scheme \<Rightarrow> ptree \<Rightarrow> hash" where
  "thash E t = node_hash E (tnode E t)"

definition avail :: "('d, 'z) trie_env_scheme \<Rightarrow> 'd \<times> trie \<Rightarrow> hash \<Rightarrow> trie_node \<Rightarrow> bool" where
  "avail E s h n \<longleftrightarrow> map_of (tr_dirty (snd s)) h = Some n \<or>
                      kv E (fst s) STATE h = Some (node_to_bytes E n)"

fun stored :: "('d, 'z) trie_env_scheme \<Rightarrow> 'd \<times> trie \<Rightarrow> ptree \<Rightarrow> bool" where
  "stored E s (PLeaf k v) = avail E s (thash E (PLeaf k v)) (tnode E (PLeaf k v))"
| "stored E s (PExt k c) = (avail E s (thash E (PExt k c)) (tnode E (PExt k c)) \<and> stored E s c)"
| "stored E s (PBranch cs bv) =
     (avail E s (thash E (PBranch cs bv)) (tnode E (PBranch cs bv)) \<and>
      (\<forall>c \<in> set cs. pred_option (stored E s) c))"

definition coherent :: "('d, 'z) trie_env_scheme \<Rightarrow> 'd \<times> trie \<Rightarrow> bool" where
  "coherent E s \<longleftrightarrow>
     distinct (map fst (tr_dirty (snd s))) \<and>
     (\<forall>h n. map_of (tr_dirty (snd s)) h = Some n \<longrightarrow> wf_node n \<and> node_hash E n = h) \<and>
     (\<forall>h n. map_of (tr_cache (snd s)) h = Some n \<longrightarrow> wf_node n \<and> node_hash E n = h) \<and>
     (\<forall>h b. kv E (fst s) STATE h = Some b \<longrightarrow>
        (\<exists>n. b = node_to_bytes E n \<and> wf_node n \<and> node_hash E n = h))"

text \<open>What an operation on the nodes may do to the state.\<close>

definition grows :: "('d, 'z) trie_env_scheme \<Rightarrow> 'd \<times> trie \<Rightarrow> 'd \<times> trie \<Rightarrow> bool" where
  "grows E s s' \<longleftrightarrow> coherent E s' \<and> fst s' = fst s \<and> tr_root (snd s') = tr_root (snd s) \<and>
     map_of (tr_dirty (snd s)) \<subseteq>\<^sub>m map_of (tr_dirty (snd s'))"

definition yields :: "('d, 'z) trie_env_scheme \<Rightarrow> ('d, 'a) trie_op \<Rightarrow> 'd \<times> trie \<Rightarrow> 'a \<Rightarrow>
    ('d \<times> trie \<Rightarrow> bool) \<Rightarrow> bool" where
  "yields E m s x Q \<longleftrightarrow> (\<exists>s'. m s = (Inr x, s') \<and> grows E s s' \<and> Q s')"

lemma grows_refl [simp]: "coherent E s \<Longrightarrow> grows E s s"
  by (simp add: grows_def)

lemma grows_trans: "grows E s s' \<Longrightarrow> grows E s' s'' \<Longrightarrow> grows E s s''"
  by (auto simp: grows_def intro: map_le_trans)

lemma grows_coherent: "grows E s s' \<Longrightarrow> coherent E s'"
  by (simp add: grows_def)

lemma grows_avail: "grows E s s' \<Longrightarrow> avail E s h n \<Longrightarrow> avail E s' h n"
  by (auto simp: grows_def avail_def map_le_def dom_def)

lemma grows_stored: "grows E s s' \<Longrightarrow> stored E s t \<Longrightarrow> stored E s' t"
  by (induction t) (auto simp: grows_avail pred_option_def)

lemma yields_ret: "coherent E s \<Longrightarrow> Q s \<Longrightarrow> yields E (op_ret x) s x Q"
  by (simp add: yields_def)

lemma yields_bind:
  assumes "yields E m s x Q" "\<And>s'. grows E s s' \<Longrightarrow> coherent E s' \<Longrightarrow> Q s' \<Longrightarrow> yields E (k x) s' y R"
  shows "yields E (op_bind m k) s y R"
proof -
  obtain s' where s': "m s = (Inr x, s')" "grows E s s'" "Q s'" using assms(1) by (auto simp: yields_def)
  then obtain s'' where "k x s' = (Inr y, s'')" "grows E s' s''" "R s''"
    using assms(2) [OF s'(2) grows_coherent [OF s'(2)] s'(3)] by (auto simp: yields_def)
  with s' show ?thesis by (auto simp: yields_def intro: grows_trans)
qed

lemma yields_mono: "yields E m s x Q \<Longrightarrow> (\<And>s'. grows E s s' \<Longrightarrow> Q s' \<Longrightarrow> R s') \<Longrightarrow> yields E m s x R"
  by (auto simp: yields_def)

lemma wf_tnode: "wf_tree t \<Longrightarrow> wf_node (tnode E t)"
  by (cases t) auto

lemma thash_nonzero: "trie_env_ok E \<Longrightarrow> thash E t \<noteq> hash_ZERO"
  using env_okD(3) [of E] by (cases t) (simp_all add: thash_def node_hash_def)

section \<open>Reading and writing one node\<close>

lemma coherent_dirty:
  "coherent E s \<Longrightarrow> map_of (tr_dirty (snd s)) h = Some n \<Longrightarrow> wf_node n \<and> node_hash E n = h"
  unfolding coherent_def by blast

lemma map_le_SomeD: "m \<subseteq>\<^sub>m m' \<Longrightarrow> m k = Some v \<Longrightarrow> m' k = Some v"
  by (auto simp: map_le_def dom_def)

lemma coherent_cache:
  "coherent E (d, t\<lparr>tr_cache := c'\<rparr>) \<Longrightarrow>
   (\<And>h n. map_of c h = Some n \<Longrightarrow> wf_node n \<and> node_hash E n = h) \<Longrightarrow>
   coherent E (d, t\<lparr>tr_cache := c\<rparr>)"
  by (simp add: coherent_def)

lemma yields_get_node:
  assumes E: "trie_env_ok E" and co: "coherent E s" and av: "avail E s h n"
    and n: "wf_node n" "node_hash E n = h" "h \<noteq> hash_ZERO"
  shows "yields E (get_node E h) s n (\<lambda>_. True)"
proof -
  obtain d t where s: "s = (d, t)" by (cases s)
  have uniq: "m = n" if "wf_node m" "node_hash E m = h" for m
    using node_hash_inj [OF E that(1) n(1)] that n(2) by simp
  show ?thesis
  proof (cases "map_of (tr_dirty t) h")
    case (Some m)
    then have "wf_node m \<and> node_hash E m = h" using co s by (simp add: coherent_def)
    then have "m = n" using uniq by blast
    with Some show ?thesis using n(3) co s by (auto simp: yields_def get_node_def)
  next
    case None
    then have db: "kv E d STATE h = Some (node_to_bytes E n)" using av s by (simp add: avail_def)
    obtain r c where c: "node_cache_get E (tr_cache t) h = (r, c)" by fastforce
    then have r: "r = map_of (tr_cache t) h" "map_of c = map_of (tr_cache t)"
      using env_okD(6,7) [OF E, of "tr_cache t" h] by auto
    then have co': "coherent E (d, t\<lparr>tr_cache := c\<rparr>)" using co s by (simp add: coherent_def)
    show ?thesis
    proof (cases r)
      case (Some m)
      then have "wf_node m \<and> node_hash E m = h" using r co s by (simp add: coherent_def)
      then have "m = n" using uniq by blast
      with Some None c n(3) co' s show ?thesis
        by (auto simp: yields_def get_node_def grows_def)
    next
      case r_None: None
      have "wf_node m \<and> node_hash E m = k" if put: "map_of (node_cache_put E c h n) k = Some m" for k m
      proof -
        have "((map_of c)(h \<mapsto> n)) k = Some m"
          using env_okD(8) [OF E] put by (rule map_le_SomeD)
        then show ?thesis using co' n by (cases "k = h") (simp_all add: coherent_def)
      qed
      then have "coherent E (d, t\<lparr>tr_cache := node_cache_put E c h n\<rparr>)"
        using co' by (simp add: coherent_cache)
      moreover have "get_node E h s = (Inr n, (d, t\<lparr>tr_cache := node_cache_put E c h n\<rparr>))"
        using r_None None c n s db env_okD(4) [OF E n(1)] rocks_okD(1) [OF env_okD(1) [OF E], of d STATE h]
        by (simp add: get_node_def Let_def)
      ultimately show ?thesis using s by (auto simp: yields_def grows_def)
    qed
  qed
qed

lemma yields_store_node:
  assumes E: "trie_env_ok E" and co: "coherent E s" and n: "wf_node n" "node_hash E n \<noteq> hash_ZERO"
  shows "yields E (store_node E n) s (node_hash E n) (\<lambda>s'. avail E s' (node_hash E n) n)"
proof -
  obtain d t where s: "s = (d, t)" by (cases s)
  define t' where "t' = t\<lparr>tr_dirty := AList.update (node_hash E n) n (tr_dirty t)\<rparr>"
  have dirty: "map_of (tr_dirty t') = (map_of (tr_dirty t))(node_hash E n \<mapsto> n)"
    by (simp add: t'_def update_conv')
  have "coherent E (d, t')"
    using co s n(1) unfolding coherent_def dirty fst_conv snd_conv by (simp add: t'_def distinct_update)
  moreover have "map_of (tr_dirty t) h = map_of (tr_dirty t') h" if "map_of (tr_dirty t) h \<noteq> None" for h
    using that coherent_dirty [OF co] s node_hash_inj [OF E _ n(1)] by (cases "h = node_hash E n") (auto simp: dirty)
  then have "map_of (tr_dirty t) \<subseteq>\<^sub>m map_of (tr_dirty t')" by (simp add: map_le_def dom_def)
  ultimately have "grows E s (d, t')" using s by (simp add: grows_def t'_def)
  moreover have "store_node E n s = (Inr (node_hash E n), (d, t'))"
    using n(2) s by (simp add: store_node_def t'_def Let_def)
  ultimately show ?thesis by (auto simp: yields_def avail_def dirty)
qed

text \<open>Storing the node of a tree whose children are stored.\<close>

fun kids_stored :: "('d, 'z) trie_env_scheme \<Rightarrow> 'd \<times> trie \<Rightarrow> ptree \<Rightarrow> bool" where
  "kids_stored E s (PLeaf k v) = True"
| "kids_stored E s (PExt k c) = stored E s c"
| "kids_stored E s (PBranch cs bv) = (\<forall>c \<in> set cs. pred_option (stored E s) c)"

lemma stored_kids: "stored E s t \<longleftrightarrow> avail E s (thash E t) (tnode E t) \<and> kids_stored E s t"
  by (cases t) auto

lemma grows_kids: "grows E s s' \<Longrightarrow> kids_stored E s t \<Longrightarrow> kids_stored E s' t"
  by (cases t) (auto simp: pred_option_def grows_stored)

lemma yields_store_tree:
  assumes "trie_env_ok E" "coherent E s" "wf_tree t" "kids_stored E s t"
  shows "yields E (store_node E (tnode E t)) s (thash E t) (\<lambda>s'. stored E s' t)"
proof -
  have "yields E (store_node E (tnode E t)) s (thash E t) (\<lambda>s'. avail E s' (thash E t) (tnode E t))"
    using yields_store_node [OF assms(1,2) wf_tnode [OF assms(3)]] thash_nonzero [OF assms(1), of t]
    by (simp add: thash_def)
  then show ?thesis
    by (rule yields_mono) (use assms(4) in \<open>auto simp: stored_kids intro: grows_kids\<close>)
qed

lemma yields_get_tree:
  assumes "trie_env_ok E" "coherent E s" "wf_tree t" "stored E s t"
  shows "yields E (get_node E (thash E t)) s (tnode E t) (\<lambda>_. True)"
  using assms thash_nonzero [OF assms(1), of t]
  by (intro yields_get_node) (auto simp: stored_kids wf_tnode thash_def)

text \<open>The node constructors of \<open>node.rs\<close> build the nodes of trees.\<close>

lemma store_leaf [simp]:
  "ns_wf key \<Longrightarrow> store_expect E (node_leaf key v) = store_node E (tnode E (PLeaf (nibs key) v))"
  by (simp add: store_expect_def node_leaf_def)

lemma store_extension [simp]:
  "ns_wf key \<Longrightarrow> store_expect E (node_extension key (thash E c)) = store_node E (tnode E (PExt (nibs key) c))"
  by (simp add: store_expect_def node_extension_def thash_def)

lemma branch_tnode: "NBranch (map (map_option (thash E)) cs) bv = tnode E (PBranch cs bv)"
  by (simp add: thash_def [abs_def])

lemma children_update_hash:
  "(map (map_option (thash E)) cs)[i := Some (thash E t)] = map (map_option (thash E)) (cs[i := Some t])"
  by (simp add: map_update)

lemma no_children_hash: "replicate 16 None = map (map_option (thash E)) (replicate 16 None)"
  by simp

section \<open>Lookup refines the tree lookup\<close>

lemma nibs_from_nibble_list [simp]: "nibble_list k \<Longrightarrow> nibs (ns_from_nibbles k) = k"
  by (simp add: nibble_list_def)

lemma branch_child:
  assumes "wf_tree (PBranch cs bv)" "ns_wf key" "nibs key \<noteq> []"
  obtains x k where "nibs key = x # k" "ns_at key 0 = Some x" "unat x < 16"
    "nibs (ns_drop key 1) = k" "ns_len key = Suc (length k)"
    "index_opt (map (map_option (thash E)) cs) (unat x) = Some (map_option (thash E) (cs ! unat x))"
proof -
  obtain x k where xk: "nibs key = x # k" using assms(3) by (cases "nibs key") auto
  then have len: "ns_len key = Suc (length k)" using length_nibs [of key] by simp
  moreover have "is_nibble x" using nibs_nth_nibble [of 0 key] xk len by simp
  ultimately show thesis
    using xk assms unat_nibble [of x] by (intro that [of x k]) simp_all
qed

lemma stored_child:
  "\<lbrakk>stored E s (PBranch cs bv); wf_tree (PBranch cs bv); i < 16; cs ! i = Some c\<rbrakk> \<Longrightarrow> stored E s c \<and> wf_tree c"
  by (metis nth_mem option.pred_inject(2) stored.simps(3) wf_tree.simps(3))

lemma get_at_refines:
  assumes "trie_env_ok E" "coherent E s" "wf_tree t" "stored E s t" "ns_wf key" "ns_len key < fuel"
  shows "yields E (get_at E fuel (thash E t) key) s (t_get t (nibs key)) (\<lambda>_. True)"
  using assms(2-)
proof (induction fuel arbitrary: t key s)
  case 0
  then show ?case by simp
next
  case (Suc fuel)
  note E = assms(1)
  have nz: "thash E t \<noteq> hash_ZERO" using E by (rule thash_nonzero)
  note node = yields_get_tree [OF E Suc.prems(1-3)]
  show ?case
  proof (cases t)
    case (PLeaf lk v)
    show ?thesis
      by (simp only: get_at.simps nz if_False, rule yields_bind [OF node])
         (use PLeaf Suc.prems in \<open>auto intro!: yields_ret\<close>)
  next
    case (PExt ek c)
    have step: "yields E (get_at E fuel (thash E c) (ns_drop key (length ek))) s'
        (t_get c (drop (length ek) (nibs key))) (\<lambda>_. True)"
      if "grows E s s'" "lcp (nibs key) ek = length ek" for s'
    proof -
      have "length ek \<le> ns_len key" using that(2) lcp_le(1) [of "nibs key" ek] by simp
      moreover have "ns_len key - length ek < fuel"
        using Suc.prems(2,5) PExt calculation by (cases ek) auto
      ultimately show ?thesis
        using Suc.IH [of s' c "ns_drop key (length ek)"] Suc.prems PExt that
        by (auto simp: grows_coherent grows_stored)
    qed
    show ?thesis
      by (simp only: get_at.simps nz if_False, rule yields_bind [OF node])
         (use PExt Suc.prems step lcp_le(1) [of "nibs key" ek] in
           \<open>auto intro!: yields_ret simp: Let_def thash_def\<close>)
  next
    case (PBranch cs bv)
    show ?thesis
    proof (cases "nibs key = []")
      case True
      show ?thesis
        by (simp only: get_at.simps nz if_False, rule yields_bind [OF node])
           (use PBranch Suc.prems True in \<open>auto intro!: yields_ret\<close>)
    next
      case False
      then obtain x k where xk: "nibs key = x # k" "ns_at key 0 = Some x" "unat x < 16"
        "nibs (ns_drop key 1) = k" "ns_len key = Suc (length k)"
        "index_opt (map (map_option (thash E)) cs) (unat x) = Some (map_option (thash E) (cs ! unat x))"
        using branch_child Suc.prems(2,4) PBranch by blast
      have step: "yields E (get_at E fuel (thash E c) (ns_drop key 1)) s' (t_get c k) (\<lambda>_. True)"
        if "grows E s s'" "cs ! unat x = Some c" for s' c
        using Suc.IH [of s' c "ns_drop key 1"] Suc.prems PBranch that xk stored_child [of E s cs bv]
        by (auto simp: grows_coherent grows_stored)
      show ?thesis
        by (simp only: get_at.simps nz if_False, rule yields_bind [OF node])
           (use PBranch Suc.prems step xk False in
             \<open>auto intro!: yields_ret simp: thash_def [abs_def] split: option.splits\<close>)
    qed
  qed
qed

section \<open>Insertion refines the tree insertion\<close>

abbreviation hashes :: "('d, 'z) trie_env_scheme \<Rightarrow> ptree option list \<Rightarrow> hash option list" where
  "hashes E cs \<equiv> map (map_option (thash E)) cs"

abbreviation all_stored :: "('d, 'z) trie_env_scheme \<Rightarrow> 'd \<times> trie \<Rightarrow> ptree option list \<Rightarrow> bool" where
  "all_stored E s cs \<equiv> \<forall>c \<in> set cs. pred_option (stored E s) c"

lemma all_stored_update: "all_stored E s cs \<Longrightarrow> stored E s t \<Longrightarrow> all_stored E s (cs[i := Some t])"
  using set_update_subset_insert [of cs i "Some t"] by auto

lemma all_stored_grows: "grows E s s' \<Longrightarrow> all_stored E s cs \<Longrightarrow> all_stored E s' cs"
  by (auto simp: pred_option_def grows_stored)

lemma wf_children_update:
  "\<forall>c \<in> set cs. pred_option wf_tree c \<Longrightarrow> wf_tree t \<Longrightarrow> \<forall>c \<in> set (cs[i := Some t]). pred_option wf_tree c"
  using set_update_subset_insert [of cs i "Some t"] by auto

lemma store_leaf_or_empty:
  "ns_wf r \<Longrightarrow> (if ns_is_empty r then store_expect E (node_leaf (ns_from_nibbles []) v)
                else store_expect E (node_leaf r v)) = store_expect E (node_leaf r v)"
  by simp

lemma nibble_list_nibs [simp]: "nibble_list (nibs key)"
  by (auto simp: nibble_list_def)

lemma nibs_Nil: "nibs key = [] \<longleftrightarrow> ns_len key = 0"
  by (metis length_0_conv length_nibs)

lemma finish_split_refines:
  assumes "trie_env_ok E" "coherent E s" "ns_wf key" "n \<le> ns_len key"
    "wf_tree (PBranch cs bv)" "all_stored E s cs"
  shows "yields E (finish_split E key n (hashes E cs) bv) s
           (thash E (pext (take n (nibs key)) (PBranch cs bv)))
           (\<lambda>s'. stored E s' (pext (take n (nibs key)) (PBranch cs bv)))"
proof -
  let ?b = "PBranch cs bv"
  have store: "yields E (store_node E (tnode E ?b)) s (thash E ?b) (\<lambda>s'. stored E s' ?b)"
    using assms by (intro yields_store_tree) auto
  have ext: "yields E (store_node E (tnode E (PExt (take n (nibs key)) ?b))) s'
      (thash E (PExt (take n (nibs key)) ?b)) (\<lambda>s''. stored E s'' (PExt (take n (nibs key)) ?b))"
    if "coherent E s'" "stored E s' ?b" "0 < n" for s'
    using assms that by (intro yields_store_tree) (auto simp: nibs_Nil)
  have "take n (nibs key) = [] \<longleftrightarrow> n = 0" using assms(4) by (auto simp flip: length_0_conv)
  then show ?thesis
    unfolding finish_split_def branch_tnode pext_def
    by (intro yields_bind [OF store]) (use assms ext in \<open>auto intro!: yields_ret simp del: tnode.simps\<close>)
qed

lemma split_new_refines:
  assumes "trie_env_ok E" "coherent E s" "ns_wf key" "n \<le> ns_len key" "all_stored E s cs"
    and "(cs', bv) = (if n < ns_len key
            then (cs[unat (nibs key ! n) := Some (PLeaf (drop (n + 1) (nibs key)) v)], None)
            else (cs, Some v))"
  shows "yields E (split_new E key n v (hashes E cs)) s (hashes E cs', bv) (\<lambda>s'. all_stored E s' cs')"
proof (cases "n < ns_len key")
  case True
  let ?t = "PLeaf (drop (n + 1) (nibs key)) v"
  have "yields E (store_node E (tnode E ?t)) s (thash E ?t) (\<lambda>s'. stored E s' ?t)"
    using assms by (intro yields_store_tree) auto
  then have "yields E (op_bind (store_node E (tnode E ?t))
      (\<lambda>h. op_ret ((hashes E cs)[unat (nibs key ! n) := Some h], None))) s (hashes E cs', bv)
      (\<lambda>s'. all_stored E s' cs')"
  proof (rule yields_bind)
    fix s'
    assume s': "grows E s s'" "coherent E s'" "stored E s' ?t"
    then have "all_stored E s' (cs[unat (nibs key ! n) := Some ?t])"
      using all_stored_update [OF all_stored_grows [OF s'(1) assms(5)]] by blast
    then show "yields E (op_ret ((hashes E cs)[unat (nibs key ! n) := Some (thash E ?t)], None)) s'
        (hashes E cs', bv) (\<lambda>s'. all_stored E s' cs')"
      using True assms(6) s'(2) by (simp add: children_update_hash yields_ret)
  qed
  then show ?thesis using True assms(3) by (simp add: split_new_def)
next
  case False
  then show ?thesis using assms by (auto simp: split_new_def intro!: yields_ret)
qed

lemma split_tree_refines:
  assumes E: "trie_env_ok E" and co: "coherent E s" and key: "ns_wf key" "n \<le> ns_len key"
    and old: "wf_tree old" "stored E s old" "is_nibble x"
  shows "yields E (op_bind (split_new E key n v ((replicate 16 None)[unat x := Some (thash E old)]))
             (\<lambda>(children, branch_value). finish_split E key n children branch_value)) s
           (thash E (split_tree (nibs key) n x old v))
           (\<lambda>s'. stored E s' (split_tree (nibs key) n x old v))"
proof -
  let ?cs = "(replicate 16 None)[unat x := Some old]"
  obtain cs' bv where cs': "(cs', bv) = (if n < ns_len key
            then (?cs[unat (nibs key ! n) := Some (PLeaf (drop (n + 1) (nibs key)) v)], None)
            else (?cs, Some v))" by (metis surj_pair)
  have "all_stored E s ?cs" using old by (intro all_stored_update) auto
  then have new: "yields E (split_new E key n v (hashes E ?cs)) s (hashes E cs', bv) (\<lambda>s'. all_stored E s' cs')"
    using split_new_refines [OF E co key _ cs'] by simp
  have "wf_tree (PBranch cs' bv)"
    using cs' old by (auto split: if_splits dest!: set_update_subset_insert [THEN subsetD])
  then have "yields E (op_bind (split_new E key n v (hashes E ?cs))
             (\<lambda>(children, branch_value). finish_split E key n children branch_value)) s
           (thash E (pext (take n (nibs key)) (PBranch cs' bv)))
           (\<lambda>s'. stored E s' (pext (take n (nibs key)) (PBranch cs' bv)))"
    by (intro yields_bind [OF new]) (simp add: finish_split_refines [OF E _ key])
  moreover have "pext (take n (nibs key)) (PBranch cs' bv) = split_tree (nibs key) n x old v"
    using cs' by (auto simp: split_tree_def split: if_splits)
  moreover have "hashes E ?cs = (replicate 16 None)[unat x := Some (thash E old)]"
    by (simp add: map_update)
  ultimately show ?thesis by simp
qed

lemma split_leaf_alt:
  assumes "ns_wf key" "ns_wf lks"
  shows "split_leaf E key lks lv v =
    (let n = lcp (nibs key) (nibs lks) in
     op_bind (if n < ns_len lks
              then op_bind (store_expect E (node_leaf (ns_drop lks (n + 1)) lv))
                     (\<lambda>h. op_ret ((replicate 16 None)[unat (nibs lks ! n) := Some h]))
              else op_ret (replicate 16 None))
       (\<lambda>children. op_bind (split_new E key n v children)
          (\<lambda>(children, branch_value). finish_split E key n children branch_value)))"
  using assms
  by (simp add: split_leaf_def split_new_def Let_def store_leaf_or_empty
        del: ns_is_empty_nibs store_leaf cong: if_cong)

lemma split_leaf_refines:
  assumes E: "trie_env_ok E" and co: "coherent E s" and key: "ns_wf key" and lk: "nibble_list lk"
    and ne: "nibs key \<noteq> lk"
  shows "yields E (split_leaf E key (ns_from_nibbles lk) lv v) s
           (thash E (t_insert (PLeaf lk lv) (nibs key) v))
           (\<lambda>s'. stored E s' (t_insert (PLeaf lk lv) (nibs key) v))"
proof -
  let ?n = "lcp (nibs key) lk"
  have n: "?n \<le> ns_len key" "?n \<le> length lk" using lcp_le [of "nibs key" lk] by auto
  show ?thesis
  proof (cases "?n < length lk")
    case True
    let ?old = "PLeaf (drop (?n + 1) lk) lv"
    have store: "yields E (store_node E (tnode E ?old)) s (thash E ?old) (\<lambda>s'. stored E s' ?old)"
      using E co lk by (intro yields_store_tree) auto
    have nib: "is_nibble (lk ! ?n)" "wf_tree ?old" using lk True by (simp_all add: nibble_list_nth)
    have "yields E (op_bind (store_node E (tnode E ?old))
              (\<lambda>h. op_ret ((replicate 16 None)[unat (lk ! ?n) := Some h]))) s
           ((replicate 16 None)[unat (lk ! ?n) := Some (thash E ?old)]) (\<lambda>s'. stored E s' ?old)"
      by (rule yields_bind [OF store], rule yields_ret)
    then have "yields E (op_bind (op_bind (store_node E (tnode E ?old))
              (\<lambda>h. op_ret ((replicate 16 None)[unat (lk ! ?n) := Some h])))
            (\<lambda>children. op_bind (split_new E key ?n v children)
               (\<lambda>(children, branch_value). finish_split E key ?n children branch_value))) s
           (thash E (split_tree (nibs key) ?n (lk ! ?n) ?old v))
           (\<lambda>s'. stored E s' (split_tree (nibs key) ?n (lk ! ?n) ?old v))"
      by (rule yields_bind) (rule split_tree_refines [OF E _ key n(1) nib(2) _ nib(1)])
    then show ?thesis using True ne lk key by (simp add: split_leaf_alt Let_def)
  next
    case False
    then have n': "?n = length lk" using n by simp
    moreover have "?n \<noteq> ns_len key" using n' ne lcp_full [of "nibs key" lk] by auto
    ultimately have n': "?n = length lk" "?n < ns_len key" using n by simp_all
    let ?cs = "(replicate 16 None)[unat (nibs key ! ?n) := Some (PLeaf (drop (?n + 1) (nibs key)) v)]"
    have new: "yields E (split_new E key ?n v (hashes E (replicate 16 None))) s (hashes E ?cs, None)
        (\<lambda>s'. all_stored E s' ?cs)"
      using n' by (intro split_new_refines [OF E co key n(1)]) auto
    have "yields E (op_bind (split_new E key ?n v (hashes E (replicate 16 None)))
             (\<lambda>(children, branch_value). finish_split E key ?n children branch_value)) s
           (thash E (pext (take ?n (nibs key)) (PBranch ?cs None)))
           (\<lambda>s'. stored E s' (pext (take ?n (nibs key)) (PBranch ?cs None)))"
      by (intro yields_bind [OF new])
         (use n in \<open>auto intro!: finish_split_refines [OF E _ key] dest!: set_update_subset_insert [THEN subsetD]\<close>)
    then show ?thesis using n' False ne lk key by (simp add: split_leaf_alt Let_def)
  qed
qed

lemma split_extension_refines:
  assumes E: "trie_env_ok E" and co: "coherent E s" and key: "ns_wf key" and ek: "nibble_list ek"
    and c: "wf_tree c" "stored E s c" and n: "n = lcp (nibs key) ek" "n \<noteq> length ek"
  shows "yields E (split_extension E key (ns_from_nibbles ek) n (thash E c) v) s
           (thash E (t_insert (PExt ek c) (nibs key) v))
           (\<lambda>s'. stored E s' (t_insert (PExt ek c) (nibs key) v))"
proof -
  have le: "n \<le> ns_len key" "n < length ek" using lcp_le [of "nibs key" ek] n by auto
  let ?old = "pext (drop (n + 1) ek) c"
  have old: "yields E (if ns_is_empty (ns_drop (ns_from_nibbles ek) (n + 1)) then op_ret (thash E c)
        else store_expect E (node_extension (ns_drop (ns_from_nibbles ek) (n + 1)) (thash E c))) s
      (thash E ?old) (\<lambda>s'. stored E s' ?old)"
    using E co c ek le yields_store_tree [of E s "PExt (drop (n + 1) ek) c"]
    by (auto simp: pext_def intro!: yields_ret simp del: tnode.simps)
  have nib: "is_nibble (ek ! n)" "wf_tree ?old" using ek le c by (simp_all add: nibble_list_nth pext_def)
  have eq: "split_extension E key (ns_from_nibbles ek) n (thash E c) v =
    op_bind (if ns_is_empty (ns_drop (ns_from_nibbles ek) (n + 1)) then op_ret (thash E c)
        else store_expect E (node_extension (ns_drop (ns_from_nibbles ek) (n + 1)) (thash E c)))
      (\<lambda>old_child. op_bind (split_new E key n v ((replicate 16 None)[unat (ek ! n) := Some old_child]))
        (\<lambda>(children, branch_value). finish_split E key n children branch_value))"
    using le ek by (simp add: split_extension_def del: ns_is_empty_nibs store_extension)
  have ins: "t_insert (PExt ek c) (nibs key) v = split_tree (nibs key) n (ek ! n) ?old v"
    using n by (simp add: Let_def)
  show ?thesis
    unfolding eq ins
    by (rule yields_bind [OF old]) (rule split_tree_refines [OF E _ key le(1) nib(2) _ nib(1)])
qed

lemma wf_pext: "wf_tree t \<Longrightarrow> nibble_list p \<Longrightarrow> wf_tree (pext p t)"
  by (simp add: pext_def)

lemma wf_split_tree:
  "wf_tree old \<Longrightarrow> nibble_list k \<Longrightarrow> wf_tree (split_tree k n x old v)"
  unfolding split_tree_def
  by (intro wf_pext) (auto dest!: set_update_subset_insert [THEN subsetD])

lemma wf_insert: "wf_tree t \<Longrightarrow> nibble_list k \<Longrightarrow> wf_tree (t_insert t k v)"
proof (induction t k v rule: t_insert.induct)
  case (1 lk lv k v)
  then show ?case
    by (auto simp: Let_def intro!: wf_split_tree wf_pext dest!: set_update_subset_insert [THEN subsetD])
next
  case (2 ek c k v)
  then show ?case by (auto simp: Let_def intro!: wf_split_tree wf_pext)
next
  case (4 cs bv x k v)
  have "wf_tree (case cs ! unat x of None \<Rightarrow> PLeaf k v | Some c \<Rightarrow> t_insert c k v)"
  proof (cases "cs ! unat x")
    case (Some c)
    then have "Some c \<in> set cs" using 4(2,3) by (metis nibble_list_simps(2) nth_mem unat_nibble wf_tree.simps(3))
    then show ?thesis using Some 4 by auto
  qed (use 4 in auto)
  then show ?case using 4(2) by (auto dest!: set_update_subset_insert [THEN subsetD])
qed auto

lemma insert_at_zero:
  assumes "trie_env_ok E" "coherent E s" "ns_wf key"
  shows "yields E (insert_at E (Suc fuel) hash_ZERO key v) s (thash E (PLeaf (nibs key) v))
           (\<lambda>s'. stored E s' (PLeaf (nibs key) v))"
  using yields_store_tree [of E s "PLeaf (nibs key) v"] assms by simp

lemma insert_branch_refines:
  fixes cs :: "ptree option list" and bv v
  defines "t \<equiv> PBranch cs bv"
  assumes E: "trie_env_ok E" and co: "coherent E s" and t: "wf_tree t" "stored E s t"
    and key: "ns_wf key" "nibs key = x # k"
    and child: "\<And>s'. grows E s s' \<Longrightarrow>
      yields E (insert_at E fuel (case map_option (thash E) (cs ! unat x) of
            Some c \<Rightarrow> c | None \<Rightarrow> hash_ZERO) (ns_drop key 1) v) s'
          (thash E (case cs ! unat x of None \<Rightarrow> PLeaf k v | Some c \<Rightarrow> t_insert c k v))
          (\<lambda>s'. stored E s' (case cs ! unat x of None \<Rightarrow> PLeaf k v | Some c \<Rightarrow> t_insert c k v))"
  shows "yields E (insert_at E (Suc fuel) (thash E t) key v) s (thash E (t_insert t (x # k) v))
           (\<lambda>s'. stored E s' (t_insert t (x # k) v))"
proof -
  let ?t = "case cs ! unat x of None \<Rightarrow> PLeaf k v | Some c \<Rightarrow> t_insert c k v"
  have nz: "thash E t \<noteq> hash_ZERO" using E by (rule thash_nonzero)
  note node = yields_get_tree [OF E co t]
  obtain xk: "ns_at key 0 = Some x" "unat x < 16" "ns_len key = Suc (length k)"
    "index_opt (hashes E cs) (unat x) = Some (map_option (thash E) (cs ! unat x))"
    using branch_child [of cs bv key E] t(1) key unfolding t_def by (metis list.distinct(1) list.inject)
  have st: "all_stored E s cs" using t(2) by (simp add: t_def)
  have "wf_tree (t_insert t (x # k) v)"
    using t(1) key(2) by (metis wf_insert nibble_list_nibs)
  then have store: "yields E (store_node E (tnode E (t_insert t (x # k) v))) s' (thash E (t_insert t (x # k) v))
      (\<lambda>s'. stored E s' (t_insert t (x # k) v))"
    if "grows E s s'" "stored E s' ?t" for s'
    using that E all_stored_update [OF all_stored_grows [OF that(1) st] that(2)]
    by (intro yields_store_tree) (auto simp: grows_coherent t_def)
  have node_eq: "NBranch ((hashes E cs)[unat x := Some (thash E ?t)]) bv = tnode E (t_insert t (x # k) v)"
    by (simp only: t_def children_update_hash branch_tnode t_insert.simps)
  have "yields E (op_bind (insert_at E fuel (case map_option (thash E) (cs ! unat x) of
        Some c \<Rightarrow> c | None \<Rightarrow> hash_ZERO) (ns_drop key 1) v)
      (\<lambda>new_child. store_node E (NBranch ((hashes E cs)[unat x := Some new_child]) bv))) s'
      (thash E (t_insert t (x # k) v)) (\<lambda>s'. stored E s' (t_insert t (x # k) v))" if s': "grows E s s'" for s'
    by (rule yields_bind [OF child [OF s']])
       (use store s' node_eq in \<open>auto intro: grows_trans simp del: t_insert.simps\<close>)
  then show ?thesis
    by (simp only: insert_at.simps nz if_False, intro yields_bind [OF node])
       (use xk key in \<open>auto simp: t_def thash_def [symmetric] branch_tnode [symmetric] simp del: t_insert.simps\<close>)
qed

lemma insert_branch_value_refines:
  assumes E: "trie_env_ok E" and co: "coherent E s" and t: "wf_tree (PBranch cs bv)" "stored E s (PBranch cs bv)"
    and key: "nibs key = []"
  shows "yields E (insert_at E (Suc fuel) (thash E (PBranch cs bv)) key v) s (thash E (PBranch cs (Some v)))
           (\<lambda>s'. stored E s' (PBranch cs (Some v)))"
proof -
  note node = yields_get_tree [OF E co t]
  have "all_stored E s cs" using t(2) by simp
  then have "yields E (store_node E (tnode E (PBranch cs (Some v)))) s' (thash E (PBranch cs (Some v)))
      (\<lambda>s'. stored E s' (PBranch cs (Some v)))" if "grows E s s'" for s'
    using that E t(1) all_stored_grows [OF that] by (intro yields_store_tree) (auto simp: grows_coherent)
  then show ?thesis
    by (simp only: insert_at.simps thash_nonzero [OF E] if_False, intro yields_bind [OF node])
       (use key in auto)
qed

lemma insert_at_refines:
  assumes "trie_env_ok E" "coherent E s" "wf_tree t" "stored E s t" "ns_wf key" "ns_len key < fuel"
  shows "yields E (insert_at E fuel (thash E t) key v) s (thash E (t_insert t (nibs key) v))
           (\<lambda>s'. stored E s' (t_insert t (nibs key) v))"
  using assms(2-)
proof (induction fuel arbitrary: t key s)
  case 0
  then show ?case by simp
next
  case (Suc fuel)
  note E = assms(1)
  have nz: "thash E t \<noteq> hash_ZERO" using E by (rule thash_nonzero)
  note node = yields_get_tree [OF E Suc.prems(1-3)]
  have nl: "nibble_list (nibs key)" by simp
  show ?case
  proof (cases t)
    case (PLeaf lk lv)
    show ?thesis
      by (simp only: insert_at.simps nz if_False, rule yields_bind [OF node])
         (use PLeaf Suc.prems E yields_store_tree [of E _ "PLeaf lk v"]
            split_leaf_refines [OF E _ Suc.prems(4), of _ lk lv v] in \<open>auto simp: Let_def\<close>)
  next
    case (PExt ek c)
    let ?n = "lcp (nibs key) ek"
    have ek: "nibble_list ek" "wf_tree c" "ek \<noteq> []" "stored E s c" using Suc.prems PExt by auto
    have n: "?n \<le> ns_len key" using lcp_le(1) [of "nibs key" ek] by simp
    have deep: "yields E (op_bind (insert_at E fuel (thash E c) (ns_drop key ?n) v)
        (\<lambda>new_child. store_expect E (node_extension (ns_from_nibbles ek) new_child))) s'
        (thash E (PExt ek (t_insert c (drop ?n (nibs key)) v)))
        (\<lambda>s'. stored E s' (PExt ek (t_insert c (drop ?n (nibs key)) v)))"
      if s': "grows E s s'" and full: "?n = length ek" for s'
    proof -
      have "ns_len key - ?n < fuel" using full n ek(3) Suc.prems(5) by (cases ek) auto
      then have "yields E (insert_at E fuel (thash E c) (ns_drop key ?n) v) s'
          (thash E (t_insert c (drop ?n (nibs key)) v)) (\<lambda>s'. stored E s' (t_insert c (drop ?n (nibs key)) v))"
        using Suc.IH [of s' c "ns_drop key ?n"] Suc.prems(4) ek s' n
        by (simp add: grows_coherent grows_stored)
      then show ?thesis
        by (rule yields_bind)
           (use E ek nl in \<open>auto intro!: yields_store_tree simp: wf_insert simp del: tnode.simps stored.simps\<close>)
    qed
    show ?thesis
      by (simp only: insert_at.simps nz if_False, rule yields_bind [OF node])
         (use PExt Suc.prems(4) ek n deep split_extension_refines [OF E _ Suc.prems(4) ek(1,2)] in
           \<open>auto simp: Let_def thash_def [symmetric] grows_stored\<close>)
  next
    case (PBranch cs bv)
    show ?thesis
    proof (cases "nibs key")
      case Nil
      then show ?thesis
        using insert_branch_value_refines [OF E Suc.prems(1)] Suc.prems(2,3) PBranch by simp
    next
      case (Cons x k)
      have len: "ns_len key = Suc (length k)" "unat x < 16" "nibs (ns_drop key 1) = k"
        using Cons length_nibs [of key] nl by (auto simp: unat_nibble)
      have "yields E (insert_at E fuel (case map_option (thash E) (cs ! unat x) of
            Some c \<Rightarrow> c | None \<Rightarrow> hash_ZERO) (ns_drop key 1) v) s'
          (thash E (case cs ! unat x of None \<Rightarrow> PLeaf k v | Some c \<Rightarrow> t_insert c k v))
          (\<lambda>s'. stored E s' (case cs ! unat x of None \<Rightarrow> PLeaf k v | Some c \<Rightarrow> t_insert c k v))"
        if "grows E s s'" for s'
      proof (cases "cs ! unat x")
        case None
        obtain f where "fuel = Suc f" using len Suc.prems(5) by (cases fuel) auto
        then show ?thesis
          using None insert_at_zero [OF E grows_coherent [OF that], of "ns_drop key 1" f v] len Suc.prems(4)
          by simp
      next
        case (Some c)
        then show ?thesis
          using Suc.IH [of s' c "ns_drop key 1"] Suc.prems PBranch that len stored_child [of E s cs bv]
          by (auto simp: grows_coherent grows_stored)
      qed
      then show ?thesis
        using insert_branch_refines [OF E Suc.prems(1) _ _ Suc.prems(4) Cons] Suc.prems(2,3) PBranch Cons
        by simp
    qed
  qed
qed

section \<open>Deletion refines the tree deletion\<close>

definition ohash :: "('d, 'z) trie_env_scheme \<Rightarrow> ptree option \<Rightarrow> hash" where
  "ohash E t = (case t of None \<Rightarrow> hash_ZERO | Some t' \<Rightarrow> thash E t')"

lemma ohash_simps [simp]: "ohash E None = hash_ZERO" "ohash E (Some t) = thash E t"
  by (simp_all add: ohash_def)

lemma wf_prepend: "wf_tree t \<Longrightarrow> nibble_list p \<Longrightarrow> p \<noteq> [] \<Longrightarrow> wf_tree (prepend p t)"
  by (cases t) auto

lemma wf_collapse:
  assumes "length cs = 16" "\<forall>c \<in> set cs. pred_option wf_tree c"
  shows "pred_option wf_tree (collapse cs bv)"
proof (cases "children_count cs = 1 \<and> bv = None")
  case True
  then obtain i c where i: "i < 16" "cs ! i = Some c" "collapse cs None = Some (prepend [of_nat i] c)"
    using collapse_single [OF _ assms(1)] by metis
  then have "wf_tree c" using assms by (metis nth_mem option.pred_inject(2))
  with i True show ?thesis by (simp add: wf_prepend is_nibble_of_nat)
next
  case False
  then show ?thesis using assms by (cases bv) (auto simp: collapse_def)
qed

lemma wf_delete: "wf_tree t \<Longrightarrow> nibble_list k \<Longrightarrow> t_delete t k = Some r \<Longrightarrow> pred_option wf_tree r"
proof (induction t k arbitrary: r rule: t_delete.induct)
  case (2 ek c k)
  then obtain r' where "t_delete c (drop (length ek) k) = Some r'" "r = map_option (prepend ek) r'"
    "lcp k ek = length ek" by (auto split: if_splits)
  with 2 show ?case by (cases r') (auto simp: wf_prepend)
next
  case (4 cs bv x k)
  then obtain c c' where c: "cs ! unat x = Some c" "t_delete c k = Some c'" "r = collapse (cs[unat x := c']) bv"
    by (auto split: option.splits)
  have "wf_tree c" using c(1) 4(2,3) by (metis nibble_list_simps(2) nth_mem option.pred_inject(2) unat_nibble wf_tree.simps(3))
  then have "pred_option wf_tree c'" using 4(1) [OF c(1)] 4(3) c(2) by simp
  then show ?case
    unfolding c(3) using 4(2) by (intro wf_collapse) (auto dest!: set_update_subset_insert [THEN subsetD])
qed (auto simp: wf_collapse split: if_splits)

lemma find_child_hashes: "find_child i (hashes E cs) = map_option (\<lambda>(i, c). (i, thash E c)) (first_child i cs)"
  by (induction i cs rule: first_child.induct) auto

lemma children_count_hashes: "length (filter (\<lambda>c. c \<noteq> None) (hashes E cs)) = children_count cs"
  by (simp add: children_count_def filter_map comp_def)

text \<open>Both collapsing functions look at the child and store it with a longer key.\<close>

lemma prepend_refines:
  assumes E: "trie_env_ok E" and co: "coherent E s" and c: "wf_tree c" "stored E s c"
    and p: "nibble_list p" "p \<noteq> []"
    and leaf: "\<And>k v. f (NLeaf k v) = store_node E (NLeaf (p @ map low_nibble k) v)"
    and ext: "\<And>k h. f (NExtension k h) = store_node E (NExtension (p @ map low_nibble k) h)"
    and branch: "\<And>cs v. f (NBranch cs v) = store_node E (NExtension p (thash E c))"
  shows "yields E (op_bind (get_node E (thash E c)) f) s (thash E (prepend p c))
           (\<lambda>s'. stored E s' (prepend p c))"
proof -
  have low: "map low_nibble k = k" if "nibble_list k" for k
    using that by (auto simp: nibble_list_def intro: map_idI)
  have "f (tnode E c) = store_node E (tnode E (prepend p c))"
    using c(1) low leaf ext branch by (cases c) (auto simp: thash_def)
  moreover have "kids_stored E s (prepend p c)" using c(2) by (cases c) auto
  then have "yields E (store_node E (tnode E (prepend p c))) s' (thash E (prepend p c))
      (\<lambda>s'. stored E s' (prepend p c))" if "grows E s s'" for s'
    using that E c p by (intro yields_store_tree) (auto simp: wf_prepend grows_coherent grows_kids)
  ultimately show ?thesis
    by (intro yields_bind [OF yields_get_tree [OF E co c]]) simp
qed

lemmas collapse_unfold = maybe_collapse_branch_def children_count_hashes find_child_hashes Let_def

lemma collapse_refines:
  assumes E: "trie_env_ok E" and co: "coherent E s"
    and cs: "length cs = 16" "\<forall>c \<in> set cs. pred_option wf_tree c" "all_stored E s cs"
  shows "yields E (maybe_collapse_branch E (hashes E cs) bv) s (ohash E (collapse cs bv))
           (\<lambda>s'. pred_option (stored E s') (collapse cs bv))"
proof -
  consider (zero) "children_count cs = 0" | (one) "children_count cs = 1" "bv = None"
    | (many) "children_count cs \<noteq> 0" "\<not> (children_count cs = 1 \<and> bv = None)" by blast
  then show ?thesis
  proof cases
    case zero
    then show ?thesis
      unfolding collapse_unfold using E co yields_store_tree [of E s "PLeaf [] (the bv)"]
      by (cases bv) (auto simp: collapse_def intro!: yields_ret)
  next
    case one
    then obtain i c where i: "first_child 0 cs = Some (i, c)" "i < length cs" "cs ! i = Some c"
      using first_child_single by metis
    then have c: "wf_tree c" "stored E s c"
      using cs by (metis nth_mem option.pred_inject(2))+
    have "is_nibble (of_nat i)" "map low_nibble [of_nat i :: u8] = [of_nat i]"
      using i cs is_nibble_of_nat(1) [of i] by simp_all
    then show ?thesis
      unfolding collapse_unfold using one i prepend_refines [OF E co c, of "[of_nat i]"]
      by (simp add: collapse_def store_expect_def node_leaf_def node_extension_def nibs_from_nibbles_mask)
  next
    case many
    then show ?thesis
      unfolding collapse_unfold using cs E co yields_store_tree [of E s "PBranch cs bv"]
      by (auto simp: collapse_def branch_tnode simp del: tnode.simps stored.simps)
  qed
qed

lemma merge_extension_refines:
  assumes E: "trie_env_ok E" and co: "coherent E s" and c: "wf_tree c" "stored E s c"
    and p: "nibble_list p" "p \<noteq> []"
  shows "yields E (merge_extension E (ns_from_nibbles p) (thash E c)) s (thash E (prepend p c))
           (\<lambda>s'. stored E s' (prepend p c))"
proof -
  have "map low_nibble p = p" "map low_nibble (map low_nibble k) = map low_nibble k" for k
    using p by (auto simp: nibble_list_def intro: map_idI)
  then show ?thesis
    unfolding merge_extension_def
    by (intro prepend_refines [OF E co c p])
       (simp_all add: store_expect_def node_leaf_def node_extension_def nibs_from_nibbles_mask comp_def)
qed

abbreviation opt_stored :: "('d, 'z) trie_env_scheme \<Rightarrow> 'd \<times> trie \<Rightarrow> ptree option option \<Rightarrow> bool" where
  "opt_stored E s r \<equiv> pred_option (pred_option (stored E s)) r"

lemma yields_Pair: "coherent E s \<Longrightarrow> Q s \<Longrightarrow> yields E (Pair (Inr x)) s x Q"
  by (simp add: yields_def)

lemma delete_ext_refines:
  assumes E: "trie_env_ok E" and co: "coherent E s" and t: "wf_tree (PExt ek c)" "stored E s (PExt ek c)"
    and key: "ns_wf key" "lcp (nibs key) ek = length ek"
    and child: "\<And>s'. grows E s s' \<Longrightarrow>
      yields E (delete_at E fuel (thash E c) (ns_drop key (length ek))) s'
        (map_option (ohash E) (t_delete c (drop (length ek) (nibs key))))
        (\<lambda>s'. opt_stored E s' (t_delete c (drop (length ek) (nibs key))))"
  shows "yields E (delete_at E (Suc fuel) (thash E (PExt ek c)) key) s
           (map_option (ohash E) (t_delete (PExt ek c) (nibs key)))
           (\<lambda>s'. opt_stored E s' (t_delete (PExt ek c) (nibs key)))"
proof -
  let ?r = "t_delete c (drop (length ek) (nibs key))"
  have ek: "nibble_list ek" "ek \<noteq> []" "wf_tree c" "length ek \<le> ns_len key"
    using t(1) key(2) lcp_le(1) [of "nibs key" ek] by auto
  have merge: "yields E (op_bind (merge_extension E (ns_from_nibbles ek) (thash E c')) (\<lambda>m. op_ret (Some m))) s'
      (Some (thash E (prepend ek c'))) (\<lambda>s'. stored E s' (prepend ek c'))"
    if "coherent E s'" "stored E s' c'" "wf_tree c'" for s' c'
    by (intro yields_bind [OF merge_extension_refines [OF E that(1,3,2) ek(1,2)]] yields_ret)
  have wf: "wf_tree c'" if "?r = Some (Some c')" for c'
    using wf_delete [OF ek(3) _ that] by simp
  have "yields E (op_bind (delete_at E fuel (thash E c) (ns_drop key (length ek))) (\<lambda>r. case r of
          Some new_child \<Rightarrow>
            if new_child = hash_ZERO then op_ret (Some hash_ZERO)
            else op_bind (merge_extension E (ns_from_nibbles ek) new_child) (\<lambda>m. op_ret (Some m))
        | None \<Rightarrow> op_ret None)) s'
      (map_option (ohash E) (t_delete (PExt ek c) (nibs key)))
      (\<lambda>s'. opt_stored E s' (t_delete (PExt ek c) (nibs key)))" if "grows E s s'" for s'
    by (rule yields_bind [OF child [OF that]])
       (use key wf thash_nonzero [OF E] in \<open>cases ?r; cases "the ?r"; auto intro!: yields_ret merge\<close>)
  then show ?thesis
    by (simp only: delete_at.simps thash_nonzero [OF E] if_False, intro yields_bind [OF yields_get_tree [OF E co t]])
       (use key ek in \<open>simp add: Let_def thash_def [symmetric] del: t_delete.simps\<close>)
qed

lemma hashes_update_ohash:
  "(hashes E cs)[i := if ohash E c = hash_ZERO then None else Some (ohash E c)] = hashes E (cs[i := c])"
  if "trie_env_ok E"
  using thash_nonzero [OF that] by (cases c) (simp_all add: map_update)

lemma delete_branch_refines:
  assumes E: "trie_env_ok E" and co: "coherent E s" and t: "wf_tree (PBranch cs bv)" "stored E s (PBranch cs bv)"
    and key: "ns_wf key" "nibs key = x # k"
    and child: "\<And>s' c. grows E s s' \<Longrightarrow> cs ! unat x = Some c \<Longrightarrow>
      yields E (delete_at E fuel (thash E c) (ns_drop key 1)) s'
        (map_option (ohash E) (t_delete c k)) (\<lambda>s'. opt_stored E s' (t_delete c k))"
  shows "yields E (delete_at E (Suc fuel) (thash E (PBranch cs bv)) key) s
           (map_option (ohash E) (t_delete (PBranch cs bv) (nibs key)))
           (\<lambda>s'. opt_stored E s' (t_delete (PBranch cs bv) (nibs key)))"
proof -
  obtain xk: "ns_at key 0 = Some x" "unat x < 16" "ns_len key = Suc (length k)"
    "index_opt (hashes E cs) (unat x) = Some (map_option (thash E) (cs ! unat x))"
    using branch_child [of cs bv key E] t(1) key by (metis list.distinct(1) list.inject)
  have nl: "nibble_list k" using nibble_list_nibs [of key] key(2) by simp
  have collapse: "yields E (op_bind (maybe_collapse_branch E (hashes E (cs[unat x := c'])) bv) (\<lambda>m. op_ret (Some m))) s'
      (Some (ohash E (collapse (cs[unat x := c']) bv))) (\<lambda>s'. pred_option (stored E s') (collapse (cs[unat x := c']) bv))"
    if "grows E s s'" "cs ! unat x = Some c" "t_delete c k = Some c'" "pred_option (stored E s') c'" for s' c c'
  proof -
    have "wf_tree c" using t xk that(2) stored_child by blast
    then have "pred_option wf_tree c'" using wf_delete nl that(3) by blast
    then show ?thesis
      using t that all_stored_grows [OF that(1), of cs]
      by (intro yields_bind [OF collapse_refines] yields_ret)
         (auto simp: E grows_coherent dest!: set_update_subset_insert [THEN subsetD])
  qed
  have "yields E (op_bind (delete_at E fuel (thash E c) (ns_drop key 1)) (\<lambda>r. case r of
            Some new_child \<Rightarrow>
              op_bind (maybe_collapse_branch E
                  ((hashes E cs)[unat x := if new_child = hash_ZERO then None else Some new_child]) bv)
                (\<lambda>m. op_ret (Some m))
          | None \<Rightarrow> op_ret None)) s'
      (map_option (ohash E) (t_delete (PBranch cs bv) (nibs key)))
      (\<lambda>s'. opt_stored E s' (t_delete (PBranch cs bv) (nibs key)))"
    if "grows E s s'" "cs ! unat x = Some c" for s' c
    by (rule yields_bind [OF child [OF that]])
       (use key that hashes_update_ohash [OF E] in
         \<open>cases "t_delete c k"; auto intro!: yields_ret collapse intro: grows_trans\<close>)
  then show ?thesis
    by (simp only: delete_at.simps thash_nonzero [OF E] if_False, intro yields_bind [OF yields_get_tree [OF E co t]])
       (use key xk in \<open>cases "cs ! unat x"; auto intro!: yields_ret yields_Pair simp: thash_def [symmetric] branch_tnode [symmetric]\<close>)
qed

lemma delete_branch_value_refines:
  assumes E: "trie_env_ok E" and co: "coherent E s" and t: "wf_tree (PBranch cs bv)" "stored E s (PBranch cs bv)"
    and key: "nibs key = []"
  shows "yields E (delete_at E (Suc fuel) (thash E (PBranch cs bv)) key) s
           (map_option (ohash E) (t_delete (PBranch cs bv) (nibs key)))
           (\<lambda>s'. opt_stored E s' (t_delete (PBranch cs bv) (nibs key)))"
proof -
  have "yields E (op_bind (maybe_collapse_branch E (hashes E cs) None) (\<lambda>m. op_ret (Some m))) s'
      (Some (ohash E (collapse cs None))) (\<lambda>s'. pred_option (stored E s') (collapse cs None))"
    if "grows E s s'" for s'
    using t all_stored_grows [OF that, of cs] that
    by (intro yields_bind [OF collapse_refines] yields_ret) (auto simp: E grows_coherent)
  then show ?thesis
    by (simp only: delete_at.simps thash_nonzero [OF E] if_False, intro yields_bind [OF yields_get_tree [OF E co t]])
       (use key in \<open>auto intro!: yields_ret simp: thash_def [symmetric] branch_tnode [symmetric]\<close>)
qed


lemma delete_at_refines:
  assumes "trie_env_ok E" "coherent E s" "wf_tree t" "stored E s t" "ns_wf key" "ns_len key < fuel"
  shows "yields E (delete_at E fuel (thash E t) key) s (map_option (ohash E) (t_delete t (nibs key)))
           (\<lambda>s'. opt_stored E s' (t_delete t (nibs key)))"
  using assms(2-)
proof (induction fuel arbitrary: t key s)
  case 0
  then show ?case by simp
next
  case (Suc fuel)
  note E = assms(1)
  note node = yields_get_tree [OF E Suc.prems(1-3)]
  show ?case
  proof (cases t)
    case (PLeaf lk v)
    show ?thesis
      by (simp only: delete_at.simps thash_nonzero [OF E] if_False, rule yields_bind [OF node])
         (use PLeaf Suc.prems in \<open>auto intro!: yields_ret\<close>)
  next
    case (PExt ek c)
    show ?thesis
    proof (cases "lcp (nibs key) ek = length ek")
      case True
      then have "length ek \<le> ns_len key" using lcp_le(1) [of "nibs key" ek] by simp
      moreover have "ns_len key - length ek < fuel"
        using Suc.prems(2,5) PExt calculation by (cases ek) auto
      ultimately show ?thesis
        unfolding PExt using Suc.prems PExt True Suc.IH [of _ c "ns_drop key (length ek)"]
        by (intro delete_ext_refines [OF E]) (auto simp: grows_coherent grows_stored)
    next
      case False
      show ?thesis
        by (simp only: delete_at.simps thash_nonzero [OF E] if_False, rule yields_bind [OF node])
           (use PExt Suc.prems False in \<open>auto intro!: yields_ret yields_Pair simp: Let_def\<close>)
    qed
  next
    case (PBranch cs bv)
    show ?thesis
    proof (cases "nibs key")
      case Nil
      then show ?thesis
        unfolding PBranch using Suc.prems PBranch by (intro delete_branch_value_refines [OF E]) auto
    next
      case (Cons x k)
      have len: "ns_len key = Suc (length k)" "unat x < 16" "nibs (ns_drop key 1) = k"
        using Cons length_nibs [of key] nibble_list_nibs [of key] by (auto simp: unat_nibble)
      have "yields E (delete_at E fuel (thash E c) (ns_drop key 1)) s'
          (map_option (ohash E) (t_delete c k)) (\<lambda>s'. opt_stored E s' (t_delete c k))"
        if "grows E s s'" "cs ! unat x = Some c" for s' c
        using Suc.IH [of s' c "ns_drop key 1"] Suc.prems PBranch that len stored_child [of E s cs bv]
        by (auto simp: grows_coherent grows_stored)
      then show ?thesis
        unfolding PBranch using Suc.prems PBranch Cons
        by (intro delete_branch_refines [OF E _ _ _ _ Cons]) auto
    qed
  qed
qed

declare get_at.simps [simp del] insert_at.simps [simp del] delete_at.simps [simp del]

end
