(* ===== verification/Map_Store.thy ===== *)
theory Map_Store
  imports Prelude
begin

text \<open>
  The interface between the state components: a stateful store that represents a map. \<open>holds s m\<close>
  relates a state to the map it represents; reading returns the mapped value and keeps the map,
  writing updates it. The trie provides this interface to the state database, and the state
  database provides it, for accounts, to the executor. What a client proves about sequences of
  operations is proved here once.
\<close>

section \<open>Commands\<close>

datatype ('k, 'v) cmd = Put (cmd_key: 'k) 'v | Remove (cmd_key: 'k)

fun apply_cmd :: "('k, 'v) cmd \<Rightarrow> ('k \<Rightarrow> 'v option) \<Rightarrow> 'k \<Rightarrow> 'v option" where
  "apply_cmd (Put k v) m = m(k \<mapsto> v)"
| "apply_cmd (Remove k) m = m(k := None)"

fun run_cmds :: "('k \<Rightarrow> 'v \<Rightarrow> ('s, 'e, unit) op) \<Rightarrow> ('k \<Rightarrow> ('s, 'e, bool) op) \<Rightarrow> ('k, 'v) cmd list \<Rightarrow>
    ('s, 'e, unit) op" where
  "run_cmds put del [] = op_ret ()"
| "run_cmds put del (Put k v # cs) = op_bind (put k v) (\<lambda>_. run_cmds put del cs)"
| "run_cmds put del (Remove k # cs) = op_bind (del k) (\<lambda>_. run_cmds put del cs)"

section \<open>Stores\<close>

locale lookup_store =
  fixes holds :: "'s \<Rightarrow> ('k \<Rightarrow> 'v option) \<Rightarrow> bool"
    and valid :: "'k \<Rightarrow> bool"
    and get :: "'k \<Rightarrow> ('s, 'e, 'v option) op"
    and put :: "'k \<Rightarrow> 'v \<Rightarrow> ('s, 'e, unit) op"
  assumes get_ok: "holds s m \<Longrightarrow> valid k \<Longrightarrow> \<exists>s'. get k s = (Inr (m k), s') \<and> holds s' m"
    and put_ok: "holds s m \<Longrightarrow> valid k \<Longrightarrow> \<exists>s'. put k v s = (Inr (), s') \<and> holds s' (m(k \<mapsto> v))"
begin

lemma get_put:
  assumes "holds s m" "valid k" "valid k'"
  shows "\<exists>s' s''. put k v s = (Inr (), s') \<and>
           get k' s' = (Inr (if k' = k then Some v else m k'), s'') \<and> holds s'' (m(k \<mapsto> v))"
proof -
  obtain s' where s': "put k v s = (Inr (), s')" "holds s' (m(k \<mapsto> v))"
    using put_ok [OF assms(1,2)] by blast
  then show ?thesis using get_ok [OF s'(2) assms(3)] by auto
qed

lemma put_put:
  assumes "holds s m" "valid k" "valid k'" "k \<noteq> k'"
  shows "\<exists>s' s''. op_bind (put k v) (\<lambda>_. put k' v') s = (Inr (), s') \<and>
                  op_bind (put k' v') (\<lambda>_. put k v) s = (Inr (), s'') \<and>
                  holds s' (m(k \<mapsto> v, k' \<mapsto> v')) \<and> holds s'' (m(k \<mapsto> v, k' \<mapsto> v'))"
proof -
  obtain s1 where s1: "put k v s = (Inr (), s1)" "holds s1 (m(k \<mapsto> v))"
    using put_ok [OF assms(1,2)] by blast
  obtain s2 where s2: "put k' v' s1 = (Inr (), s2)" "holds s2 (m(k \<mapsto> v, k' \<mapsto> v'))"
    using put_ok [OF s1(2) assms(3)] by blast
  obtain s3 where s3: "put k' v' s = (Inr (), s3)" "holds s3 (m(k' \<mapsto> v'))"
    using put_ok [OF assms(1,3)] by blast
  obtain s4 where s4: "put k v s3 = (Inr (), s4)" "holds s4 (m(k' \<mapsto> v', k \<mapsto> v))"
    using put_ok [OF s3(2) assms(2)] by blast
  with s1 s2 s3 show ?thesis by (simp add: fun_upd_twist [OF assms(4)])
qed

end

locale keyed_store = lookup_store holds valid get put
  for holds :: "'s \<Rightarrow> ('k \<Rightarrow> 'v option) \<Rightarrow> bool"
    and valid :: "'k \<Rightarrow> bool"
    and get :: "'k \<Rightarrow> ('s, 'e, 'v option) op"
    and put :: "'k \<Rightarrow> 'v \<Rightarrow> ('s, 'e, unit) op" +
  fixes del :: "'k \<Rightarrow> ('s, 'e, bool) op"
  assumes del_ok: "holds s m \<Longrightarrow> valid k \<Longrightarrow> \<exists>s'. del k s = (Inr (m k \<noteq> None), s') \<and> holds s' (m(k := None))"
begin

lemma run_cmds_holds:
  "holds s m \<Longrightarrow> \<forall>c \<in> set cs. valid (cmd_key c) \<Longrightarrow>
     \<exists>s'. run_cmds put del cs s = (Inr (), s') \<and> holds s' (fold apply_cmd cs m)"
proof (induction cs arbitrary: s m)
  case Nil
  then show ?case by simp
next
  case (Cons c cs)
  have rest: "\<forall>c \<in> set cs. valid (cmd_key c)" using Cons.prems(2) by simp
  show ?case
  proof (cases c)
    case (Put k v)
    then obtain s' where s': "put k v s = (Inr (), s')" "holds s' (m(k \<mapsto> v))"
      using put_ok [OF Cons.prems(1), of k v] Cons.prems(2) by auto
    then show ?thesis
      using Cons.IH [OF s'(2) rest]
      by (simp only: Put run_cmds.simps op_bind_def s'(1) prod.case sum.case fold.simps comp_apply apply_cmd.simps)
  next
    case (Remove k)
    then obtain s' where s': "del k s = (Inr (m k \<noteq> None), s')" "holds s' (m(k := None))"
      using del_ok [OF Cons.prems(1), of k] Cons.prems(2) by auto
    then show ?thesis
      using Cons.IH [OF s'(2) rest]
      by (simp only: Remove run_cmds.simps op_bind_def s'(1) prod.case sum.case fold.simps comp_apply apply_cmd.simps)
  qed
qed

end

end
