(* ===== verification/Trie_Map.thy ===== *)
theory Trie_Map
  imports Trie_Refine Map_Store
begin

text \<open>
  The contract of the trie as its clients see it: a map from keys of one length to values, with
  a root hash that identifies the map. \<open>trie_holds E L s m\<close> says that the trie of state \<open>s\<close>
  represents the map \<open>m\<close> on keys of \<open>L\<close> bytes.
\<close>

section \<open>Byte keys as nibble keys\<close>

definition byte_key :: "bytes \<Rightarrow> bytes" where
  "byte_key k = nibs (ns_from_bytes k)"

lemma length_byte_key [simp]: "length (byte_key k) = 2 * length k"
  by (simp add: byte_key_def)

lemma key_of_byte_key: "key_of (2 * length k) (byte_key k)"
  by (simp add: key_of_def byte_key_def)

lemma byte_key_inject [simp]: "byte_key k = byte_key l \<longleftrightarrow> k = l"
proof
  assume eq: "byte_key k = byte_key l"
  then have "length k = length l" by (metis length_byte_key mult_cancel1 zero_neq_numeral)
  then have "pairs_of (byte_key k) 0 = k" "pairs_of (byte_key l) 0 = l"
    using ns_to_bytes_from_bytes [of k] ns_to_bytes_from_bytes [of l]
      those_pairs_even [of "ns_from_bytes k"] those_pairs_even [of "ns_from_bytes l"]
    by (simp_all add: ns_to_bytes_def byte_key_def)
  then show "k = l" using eq by metis
qed simp

lemma byte_key_surj:
  assumes "key_of (2 * L) ks"
  obtains k where "length k = L" "byte_key k = ks"
proof
  let ?k = "pairs_of ks 0"
  have "\<And>x. x \<in> set ks \<Longrightarrow> is_nibble x" using assms by (simp add: key_of_def nibble_list_def)
  then have "concat (map byte_nibbles ?k) = ks"
    using unpack_pairs [of ks 0] assms by (simp add: key_of_def)
  then show "byte_key ?k = ks" by (simp add: byte_key_def nibs_from_bytes)
  show "length ?k = L" using assms by (simp add: pairs_of_def key_of_def)
qed

section \<open>The represented map\<close>

definition trie_holds :: "('d, 'z) trie_env_scheme \<Rightarrow> nat \<Rightarrow> 'd \<times> trie \<Rightarrow> (bytes \<Rightarrow> bytes option) \<Rightarrow> bool" where
  "trie_holds E L s m \<longleftrightarrow> coherent E s \<and>
     (\<exists>ot. tr_root (snd s) = ohash E ot \<and> tm_mpt (2 * L) ot \<and> pred_option (stored E s) ot \<and>
           m = (\<lambda>k. if length k = L then tm_get ot (byte_key k) else None))"

lemma trie_holdsE:
  assumes "trie_holds E L s m"
  obtains ot where "coherent E s" "tr_root (snd s) = ohash E ot" "tm_mpt (2 * L) ot"
    "pred_option (stored E s) ot" "m = (\<lambda>k. if length k = L then tm_get ot (byte_key k) else None)"
  using assms unfolding trie_holds_def by blast

lemma trie_holds_grows:
  assumes "trie_holds E L s m" "grows E s s'"
  shows "trie_holds E L s' m"
proof -
  obtain ot where ot: "coherent E s" "tr_root (snd s) = ohash E ot" "tm_mpt (2 * L) ot"
    "pred_option (stored E s) ot" "m = (\<lambda>k. if length k = L then tm_get ot (byte_key k) else None)"
    using assms(1) by (rule trie_holdsE)
  moreover have "pred_option (stored E s') ot" using ot(4) assms(2) by (auto simp: pred_option_def grows_stored)
  moreover have "tr_root (snd s') = ohash E ot" "coherent E s'" using assms(2) ot(2) by (simp_all add: grows_def)
  ultimately show ?thesis unfolding trie_holds_def by blast
qed

lemma trie_holds_new: "coherent E (d, trie_new) \<Longrightarrow> trie_holds E L (d, trie_new) Map.empty"
  unfolding trie_holds_def by (auto intro!: exI [of _ None] simp: trie_new_def)

lemma trie_get_holds:
  assumes E: "trie_env_ok E" and h: "trie_holds E L s m" and k: "length k = L"
  obtains s' where "trie_get E k s = (Inr (m k), s')" "grows E s s'"
proof -
  obtain ot where ot: "coherent E s" "tr_root (snd s) = ohash E ot" "tm_mpt (2 * L) ot"
    "pred_option (stored E s) ot" "m = (\<lambda>k. if length k = L then tm_get ot (byte_key k) else None)"
    using h by (rule trie_holdsE)
  obtain d t where s: "s = (d, t)" by (cases s)
  show thesis
  proof (cases ot)
    case None
    then show thesis using ot k s by (intro that [of s]) (simp_all add: trie_get_def)
  next
    case (Some T)
    then have "yields E (get_at E (Suc (2 * L)) (thash E T) (ns_from_bytes k)) s (t_get T (byte_key k)) (\<lambda>_. True)"
      unfolding byte_key_def using ot k mpt_wf by (intro get_at_refines [OF E]) auto
    then obtain s' where "get_at E (Suc (2 * L)) (thash E T) (ns_from_bytes k) s = (Inr (t_get T (byte_key k)), s')"
      "grows E s s'" by (auto simp: yields_def)
    then show thesis
      using Some ot k s thash_nonzero [OF E, of T]
      by (intro that [of s']) (auto simp: trie_get_def Let_def)
  qed
qed

lemma stored_root [simp]:
  "stored E (d, t\<lparr>tr_root := r\<rparr>) T = stored E (d, t) T"
  "coherent E (d, t\<lparr>tr_root := r\<rparr>) = coherent E (d, t)"
proof -
  have "avail E (d, t\<lparr>tr_root := r\<rparr>) = avail E (d, t)" by (simp add: avail_def fun_eq_iff)
  then show "stored E (d, t\<lparr>tr_root := r\<rparr>) T = stored E (d, t) T"
    by (induction T) (auto simp: pred_option_def)
  show "coherent E (d, t\<lparr>tr_root := r\<rparr>) = coherent E (d, t)" by (simp add: coherent_def)
qed

lemma key_map_upd:
  assumes "length k = L" "\<And>k'. key_of (2 * L) k' \<Longrightarrow> tm_get ot' k' = (if k' = byte_key k then v else tm_get ot k')"
  shows "(\<lambda>k'. if length k' = L then tm_get ot' (byte_key k') else None) =
         (\<lambda>k'. if length k' = L then tm_get ot (byte_key k') else None)(k := v)"
proof
  fix k'
  have "length k' = L \<Longrightarrow> key_of (2 * L) (byte_key k')" using key_of_byte_key [of k'] by auto
  with assms show "(if length k' = L then tm_get ot' (byte_key k') else None) =
      ((\<lambda>k'. if length k' = L then tm_get ot (byte_key k') else None)(k := v)) k'"
    by (cases "length k' = L") auto
qed

lemma trie_insert_holds:
  assumes E: "trie_env_ok E" and h: "trie_holds E L s m" and k: "length k = L"
  obtains s' where "trie_insert E k v s = (Inr (), s')" "trie_holds E L s' (m(k \<mapsto> v))" "fst s' = fst s"
proof -
  obtain ot where ot: "coherent E s" "tr_root (snd s) = ohash E ot" "tm_mpt (2 * L) ot"
    "pred_option (stored E s) ot" "m = (\<lambda>k. if length k = L then tm_get ot (byte_key k) else None)"
    using h by (rule trie_holdsE)
  have key: "key_of (2 * L) (byte_key k)" using key_of_byte_key [of k] k by simp
  define T' where "T' = (case ot of None \<Rightarrow> PLeaf (byte_key k) v | Some T \<Rightarrow> t_insert T (byte_key k) v)"
  have "yields E (insert_at E (Suc (2 * L)) (ohash E ot) (ns_from_bytes k) v) s (thash E T') (\<lambda>s'. stored E s' T')"
  proof (cases ot)
    case None
    then show ?thesis
      using insert_at_zero [OF E ot(1), of "ns_from_bytes k"] by (simp add: T'_def byte_key_def)
  next
    case (Some T)
    then show ?thesis
      using insert_at_refines [OF E ot(1), of T "ns_from_bytes k" "Suc (2 * L)" v] ot k mpt_wf
      by (simp add: T'_def byte_key_def)
  qed
  then obtain d' t' where s': "insert_at E (Suc (2 * L)) (ohash E ot) (ns_from_bytes k) v s = (Inr (thash E T'), (d', t'))"
    "grows E s (d', t')" "stored E (d', t') T'" by (auto simp: yields_def)
  have "mpt (2 * L) T'" using ot(3) key by (auto simp: T'_def mpt_insert key_of_def split: option.splits)
  moreover have "tm_get (Some T') k' = (if k' = byte_key k then Some v else tm_get ot k')" if "key_of (2 * L) k'" for k'
    using ot(3) key that by (auto simp: T'_def t_get_insert split: option.splits)
  then have "m(k \<mapsto> v) = (\<lambda>k'. if length k' = L then tm_get (Some T') (byte_key k') else None)"
    using key_map_upd [OF k, of "Some T'" "Some v" ot] ot(5) by simp
  ultimately have "trie_holds E L (d', t'\<lparr>tr_root := thash E T'\<rparr>) (m(k \<mapsto> v))"
    unfolding trie_holds_def using s' grows_coherent [OF s'(2)] by (intro conjI exI [of _ "Some T'"]) auto
  moreover have "trie_insert E k v s = (Inr (), (d', t'\<lparr>tr_root := thash E T'\<rparr>))"
    using s'(1) ot(2) k by (cases s) (simp add: trie_insert_def Let_def)
  ultimately show thesis using that s'(2) by (simp add: grows_def)
qed

lemma trie_delete_holds:
  assumes E: "trie_env_ok E" and h: "trie_holds E L s m" and k: "length k = L"
  obtains s' where "trie_delete E k s = (Inr (m k \<noteq> None), s')" "trie_holds E L s' (m(k := None))" "fst s' = fst s"
proof -
  obtain ot where ot: "coherent E s" "tr_root (snd s) = ohash E ot" "tm_mpt (2 * L) ot"
    "pred_option (stored E s) ot" "m = (\<lambda>k. if length k = L then tm_get ot (byte_key k) else None)"
    using h by (rule trie_holdsE)
  have key: "key_of (2 * L) (byte_key k)" using key_of_byte_key [of k] k by simp
  show thesis
  proof (cases ot)
    case None
    then have m: "m = (\<lambda>_. None)" using ot(5) by auto
    show thesis
      using None ot(2) h m by (intro that [of s]) (auto simp: trie_delete_def split: prod.splits)
  next
    case (Some T)
    let ?r = "t_delete T (byte_key k)"
    have mk: "m k = t_get T (byte_key k)" using Some ot(5) k by simp
    have "yields E (delete_at E (Suc (2 * L)) (thash E T) (ns_from_bytes k)) s (map_option (ohash E) ?r)
        (\<lambda>s'. opt_stored E s' ?r)"
      unfolding byte_key_def using Some ot k mpt_wf by (intro delete_at_refines [OF E]) auto
    then obtain d' t' where s': "delete_at E (Suc (2 * L)) (thash E T) (ns_from_bytes k) s =
        (Inr (map_option (ohash E) ?r), (d', t'))" "grows E s (d', t')" "opt_stored E (d', t') ?r"
      by (auto simp: yields_def)
    have run: "trie_delete E k s = (case ?r of None \<Rightarrow> (Inr False, (d', t'))
        | Some r \<Rightarrow> (Inr True, (d', t'\<lparr>tr_root := ohash E r\<rparr>)))"
      using s'(1) Some ot(2) k thash_nonzero [OF E, of T]
      by (cases s) (auto simp: trie_delete_def Let_def split: option.splits)
    show thesis
    proof (cases ?r)
      case None
      then have "m k = None" using t_delete_None [of "2 * L" T "byte_key k"] mk ot(3) Some key by simp
      then show thesis
        using that run None trie_holds_grows [OF h s'(2)] s'(2) by (simp add: grows_def fun_upd_idem)
    next
      case r: (Some r)
      have "tm_mpt (2 * L) r" "\<And>k'. key_of (2 * L) k' \<Longrightarrow> tm_get r k' = (if k' = byte_key k then None else tm_get ot k')"
        using t_delete_Some [of "2 * L" T "byte_key k" r] ot(3) Some r key by auto
      moreover have "m k \<noteq> None" using t_delete_None [of "2 * L" T "byte_key k"] mk ot(3) Some key r by simp
      ultimately have "trie_holds E L (d', t'\<lparr>tr_root := ohash E r\<rparr>) (m(k := None))"
        unfolding trie_holds_def using s'(3) r grows_coherent [OF s'(2)] key_map_upd [OF k, of r None ot] ot(5)
        by (intro conjI exI [of _ r]) (auto simp: pred_option_def)
      then show thesis
        using that run r s'(2) \<open>m k \<noteq> None\<close> by (simp add: grows_def)
    qed
  qed
qed

section \<open>Commit\<close>

lemma fold_state_puts:
  assumes "distinct (map fst xs)"
  shows "fold apply_batch_op (map (\<lambda>(h, n). BatchPut STATE h (f n)) xs) m =
         m(STATE := m STATE ++ (\<lambda>h. map_option f (map_of xs h)))"
  using assms
proof (induction xs arbitrary: m)
  case (Cons x xs)
  obtain h n where x: "x = (h, n)" by (cases x)
  have "map_of xs h = None" using Cons.prems x by (simp add: map_of_eq_None_iff)
  with Cons x show ?case by (auto simp: fun_eq_iff map_add_def split: option.splits)
qed (simp add: map_add_def)

lemma fold_cache_puts:
  assumes E: "trie_env_ok E" and "\<And>h n. (h, n) \<in> set xs \<Longrightarrow> P h n" "\<And>h n. map_of c h = Some n \<Longrightarrow> P h n"
  shows "map_of (fold (\<lambda>(h, n) c. node_cache_put E c h n) xs c) h = Some n \<Longrightarrow> P h n"
  using assms(2,3)
proof (induction xs arbitrary: c)
  case (Cons x xs)
  obtain h' n' where x: "x = (h', n')" by (cases x)
  have "P k v" if put: "map_of (node_cache_put E c h' n') k = Some v" for k v
  proof -
    have "((map_of c)(h' \<mapsto> n')) k = Some v"
      using env_okD(8) [OF E] put by (rule map_le_SomeD)
    then show ?thesis using Cons.prems x by (cases "k = h'") auto
  qed
  then show ?case using Cons.IH [of "node_cache_put E c h' n'"] Cons.prems x by auto
qed simp

lemma dirty_order_map:
  assumes "trie_env_ok E" "distinct (map fst xs)"
  shows "distinct (map fst (dirty_order E xs))" "map_of (dirty_order E xs) = map_of xs"
proof -
  have ms: "mset (dirty_order E xs) = mset xs" using assms(1) by (rule env_okD)
  then have "mset (map fst (dirty_order E xs)) = mset (map fst xs)" by simp
  then show d: "distinct (map fst (dirty_order E xs))" using assms(2) by (metis mset_eq_imp_distinct_iff)
  have "set (dirty_order E xs) = set xs" using ms by (rule mset_eq_setD)
  then have "map_of (dirty_order E xs) k = Some v \<longleftrightarrow> map_of xs k = Some v" for k v
    using d assms(2) by simp
  then show "map_of (dirty_order E xs) = map_of xs" by (metis option.exhaust ext)
qed

lemma trie_commit_runs:
  assumes E: "trie_env_ok E" and co: "coherent E (d, t)"
  obtains d' t' where "trie_commit E (d, t) = (Inr (tr_root t), (d', t'))" "tr_root t' = tr_root t"
    "tr_dirty t' = []" "coherent E (d', t')"
    "\<And>c. kv E d' c = (if c = STATE then kv E d STATE ++ (\<lambda>h. map_option (node_to_bytes E) (map_of (tr_dirty t) h))
                      else kv E d c)"
proof -
  let ?xs = "dirty_order E (tr_dirty t)"
  have dt: "distinct (map fst (tr_dirty t))" using co by (simp add: coherent_def)
  note order = dirty_order_map [OF E dt]
  let ?batch = "map (\<lambda>(h, n). BatchPut STATE h (node_to_bytes E n)) ?xs"
  obtain d' where d': "rk_write E d ?batch = (Inr (), d')" "kv E d' = fold apply_batch_op ?batch (kv E d)"
    using rocks_okD(4) [OF env_okD(1) [OF E]] by metis
  define t' where "t' = t\<lparr>tr_dirty := [], tr_cache := fold (\<lambda>(h, n) c. node_cache_put E c h n) ?xs (tr_cache t)\<rparr>"
  have kv': "kv E d' = (kv E d)(STATE := kv E d STATE ++ (\<lambda>h. map_option (node_to_bytes E) (map_of (tr_dirty t) h)))"
    using d'(2) fold_state_puts [OF order(1)] order(2) by simp
  have good: "wf_node n \<and> node_hash E n = h" if "(h, n) \<in> set ?xs" for h n
    using that co order by (metis coherent_def map_of_is_SomeI snd_conv)
  have "wf_node n \<and> node_hash E n = h" if "map_of (tr_cache t') h = Some n" for h n
    using fold_cache_puts [OF E, of ?xs "\<lambda>h n. wf_node n \<and> node_hash E n = h" "tr_cache t" h n] good co that
    by (simp add: t'_def coherent_def)
  moreover have "\<exists>n. b = node_to_bytes E n \<and> wf_node n \<and> node_hash E n = h" if "kv E d' STATE h = Some b" for h b
    using that co unfolding kv' by (auto simp: coherent_def map_add_def split: option.splits)
  ultimately have "coherent E (d', t')" by (simp add: coherent_def t'_def)
  then show thesis
    using d'(1) kv' by (intro that [of d' t']) (simp_all add: trie_commit_def t'_def Let_def)
qed

text \<open>After a commit, a trie opened at the returned root holds the same map.\<close>

lemma trie_commit_holds:
  assumes E: "trie_env_ok E" and h: "trie_holds E L (d, t) m"
  obtains d' t' where "trie_commit E (d, t) = (Inr (tr_root t), (d', t'))" "trie_holds E L (d', t') m"
    "tr_root t' = tr_root t" "tr_dirty t' = []" "trie_holds E L (d', trie_with_root (tr_root t)) m"
    "\<And>c. c \<noteq> STATE \<Longrightarrow> kv E d' c = kv E d c"
proof -
  obtain ot where ot: "coherent E (d, t)" "tr_root t = ohash E ot" "tm_mpt (2 * L) ot"
    "pred_option (stored E (d, t)) ot" "m = (\<lambda>k. if length k = L then tm_get ot (byte_key k) else None)"
    using h by (auto elim: trie_holdsE)
  obtain d' t' where r: "trie_commit E (d, t) = (Inr (tr_root t), (d', t'))" "tr_root t' = tr_root t"
    "tr_dirty t' = []" "coherent E (d', t')"
    "\<And>c. kv E d' c = (if c = STATE then kv E d STATE ++ (\<lambda>h. map_option (node_to_bytes E) (map_of (tr_dirty t) h))
                      else kv E d c)"
    using trie_commit_runs [OF E ot(1)] by metis
  have av: "avail E (d', u) h n" if "avail E (d, t) h n" "wf_node n" "node_hash E n = h" for h n u
  proof (cases "map_of (tr_dirty t) h")
    case None
    then show ?thesis using that(1) r(5) [of STATE] by (auto simp: avail_def map_add_def)
  next
    case (Some n')
    then have "n' = n" using ot(1) that node_hash_inj [OF E, of n' n] by (auto simp: coherent_def)
    with Some show ?thesis using r(5) [of STATE] by (simp add: avail_def map_add_def)
  qed
  have st: "stored E (d', u) T" if "stored E (d, t) T" "wf_tree T" for T u
    using that by (induction T) (auto intro!: av simp: pred_option_def thash_def wf_tnode)
  have ot': "pred_option (stored E (d', u)) ot" for u
    using ot(3,4) st mpt_wf by (auto simp: pred_option_def tm_mpt_def)
  have "coherent E (d', trie_with_root (tr_root t))"
    using r(4) by (simp add: coherent_def trie_with_root_def trie_new_def)
  then have "trie_holds E L (d', trie_with_root (tr_root t)) m"
    unfolding trie_holds_def using ot ot' by (auto simp: trie_with_root_def)
  moreover have "trie_holds E L (d', t') m"
    unfolding trie_holds_def using ot ot' r by auto
  ultimately show thesis using r that by simp
qed

section \<open>The root identifies the map\<close>

lemma thash_eq_tnode:
  "trie_env_ok E \<Longrightarrow> wf_tree t \<Longrightarrow> wf_tree t' \<Longrightarrow> thash E t = thash E t' \<Longrightarrow> tnode E t' = tnode E t"
  unfolding thash_def by (metis node_hash_inj wf_tnode)

lemma thash_inj:
  assumes E: "trie_env_ok E"
  shows "wf_tree t \<Longrightarrow> wf_tree t' \<Longrightarrow> thash E t = thash E t' \<Longrightarrow> t = t'"
proof (induction t arbitrary: t' rule: wf_tree.induct)
  case (1 k v)
  then have "tnode E t' = NLeaf k v"
    using thash_eq_tnode [OF E, of "PLeaf k v" t'] by simp
  then show ?case by (cases t') auto
next
  case (2 k c)
  then have "tnode E t' = tnode E (PExt k c)"
    using thash_eq_tnode [OF E, of "PExt k c" t'] by blast
  with 2 show ?case by (cases t') (auto simp: thash_def)
next
  case (3 cs bv)
  then have "tnode E t' = tnode E (PBranch cs bv)"
    using thash_eq_tnode [OF E, of "PBranch cs bv" t'] by blast
  then obtain cs' where t': "t' = PBranch cs' bv" and eq: "hashes E cs = hashes E cs'"
    by (cases t') (auto simp: thash_def [abs_def])
  have "cs ! i = cs' ! i" if i: "i < 16" for i
  proof -
    have "map_option (thash E) (cs ! i) = map_option (thash E) (cs' ! i)"
      using eq i 3(2,3) t' by (metis nth_map wf_tree.simps(3))
    moreover have "wf_tree c'" if "cs' ! i = Some c'" for c'
      using that 3(3) t' i by (metis nth_mem option.pred_inject(2) wf_tree.simps(3))
    moreover have "wf_tree c" "Some c \<in> set cs" if "cs ! i = Some c" for c
      using that 3(2) i by (metis nth_mem option.pred_inject(2) wf_tree.simps(3))+
    ultimately show ?thesis using 3(1) by (cases "cs ! i"; cases "cs' ! i") auto
  qed
  then show ?case using 3(2,3) t' by (auto intro: nth_equalityI)
qed

lemma root_eq_map_eq:
  assumes E: "trie_env_ok E" and h: "trie_holds E L s m" and h': "trie_holds E L s' m'"
  shows "tr_root (snd s) = tr_root (snd s') \<longleftrightarrow> m = m'"
proof -
  obtain ot where ot: "tr_root (snd s) = ohash E ot" "tm_mpt (2 * L) ot"
    "m = (\<lambda>k. if length k = L then tm_get ot (byte_key k) else None)"
    using h by (rule trie_holdsE)
  obtain ot' where ot': "tr_root (snd s') = ohash E ot'" "tm_mpt (2 * L) ot'"
    "m' = (\<lambda>k. if length k = L then tm_get ot' (byte_key k) else None)"
    using h' by (rule trie_holdsE)
  have "ot = ot'" if "ohash E ot = ohash E ot'"
    using that thash_nonzero [OF E] thash_inj [OF E] ot(2) ot'(2) mpt_wf
    by (cases ot; cases ot') (auto, metis+)
  moreover have "ot = ot'" if "m = m'"
  proof -
    have get: "tm_get ot k = tm_get ot' k" if k: "key_of (2 * L) k" for k
    proof -
      obtain b where "length b = L" "byte_key b = k" using k by (rule byte_key_surj)
      then show ?thesis using \<open>m = m'\<close> ot(3) ot'(3) by (metis (full_types))
    qed
    then show ?thesis
      using ot(2) ot'(2) mpt_unique [of "2 * L"] mpt_key_exists [of "2 * L"]
      by (cases ot; cases ot') (auto simp: same_map_def, fastforce+)
  qed
  ultimately show ?thesis using ot ot' by auto
qed

section \<open>The trie provides the store interface\<close>

interpretation trie_store: keyed_store "\<lambda>s m. trie_env_ok E \<and> trie_holds E L s m" "\<lambda>k. length k = L"
  "trie_get E" "trie_insert E" "trie_delete E" for E :: "('d, 'z) trie_env_scheme" and L
proof (unfold_locales; elim conjE)
  fix s :: "'d \<times> trie" and m and k :: bytes
  assume E: "trie_env_ok E" and h: "trie_holds E L s m" and k: "length k = L"
  show "\<exists>s'. trie_get E k s = (Inr (m k), s') \<and> trie_env_ok E \<and> trie_holds E L s' m"
    using trie_get_holds [OF E h k] trie_holds_grows [OF h] E by metis
  show "\<exists>s'. trie_insert E k v s = (Inr (), s') \<and> trie_env_ok E \<and> trie_holds E L s' (m(k \<mapsto> v))" for v
    using trie_insert_holds [OF E h k] E by metis
  show "\<exists>s'. trie_delete E k s = (Inr (m k \<noteq> None), s') \<and> trie_env_ok E \<and> trie_holds E L s' (m(k := None))"
    using trie_delete_holds [OF E h k] E by metis
qed

end
