(* ===== verification/Sample_Env.thy ===== *)
theory Sample_Env
  imports Trie_Refine
begin

text \<open>
  A concrete environment in which every hypothesis about the external code holds: association
  lists as column families, a self-delimiting node encoding, an injective stand-in for BLAKE3,
  and a node cache of capacity one. It shows that the hypotheses can be met together, and the
  concrete runs of the development are evaluated in it.
\<close>

section \<open>A store of association lists\<close>

type_synonym alist_db = "cf \<Rightarrow> (bytes \<times> bytes) list"

fun alist_op :: "batch_op \<Rightarrow> alist_db \<Rightarrow> alist_db" where
  "alist_op (BatchPut c k v) d = d(c := AList.update k v (d c))"
| "alist_op (BatchDelete c k) d = d(c := AList.delete k (d c))"

definition sample_rocks :: "alist_db rocks" where
  "sample_rocks = \<lparr>
     rk_get = (\<lambda>d c k. Inr (map_of (d c) k)),
     rk_put = (\<lambda>d c k v. (Inr (), alist_op (BatchPut c k v) d)),
     rk_delete = (\<lambda>d c k. (Inr (), alist_op (BatchDelete c k) d)),
     rk_write = (\<lambda>d ops. (Inr (), fold alist_op ops d)),
     rk_iter_from = (\<lambda>d c k. map Inr (filter (\<lambda>x. k \<le> fst x) (sort_key fst (AList.clearjunk (d c)))))\<rparr>"

lemma kv_alist: "rk_get R = (\<lambda>d c k. Inr (map_of (d c) k)) \<Longrightarrow> kv R d c = map_of (d c)"
  by (simp add: kv_def fun_eq_iff)

lemma alist_op_map: "(\<lambda>c. map_of (alist_op x d c)) = apply_batch_op x (\<lambda>c. map_of (d c))"
  by (cases x) (auto simp: fun_eq_iff update_conv' delete_conv')

lemma alist_fold_map: "(\<lambda>c. map_of (fold alist_op xs d c)) = fold apply_batch_op xs (\<lambda>c. map_of (d c))"
  by (induction xs arbitrary: d) (simp_all add: alist_op_map)

lemma sorted_iter:
  "sorted_wrt (<) (map fst (filter (\<lambda>x. k \<le> fst x) (sort_key fst (AList.clearjunk xs))))"
  for xs :: "('a::linorder \<times> 'b) list"
proof -
  have "sorted (map fst (sort_key fst (AList.clearjunk xs)))" by simp
  moreover have "distinct (map fst (sort_key fst (AList.clearjunk xs)))"
  proof -
    have "mset (map fst (sort_key fst (AList.clearjunk xs))) = mset (map fst (AList.clearjunk xs))" by simp
    then show ?thesis by (metis distinct_clearjunk mset_eq_imp_distinct_iff)
  qed
  ultimately have "sorted_wrt (<) (map fst (sort_key fst (AList.clearjunk xs)))"
    by (simp add: strict_sorted_iff)
  then show ?thesis by (simp add: sorted_wrt_map sorted_wrt_filter)
qed

lemma rocks_ok_alist:
  assumes "rk_get R = (\<lambda>d c k. Inr (map_of (d c) k))"
    "rk_put R = (\<lambda>d c k v. (Inr (), alist_op (BatchPut c k v) d))"
    "rk_delete R = (\<lambda>d c k. (Inr (), alist_op (BatchDelete c k) d))"
    "rk_write R = (\<lambda>d ops. (Inr (), fold alist_op ops d))"
    "rk_iter_from R = (\<lambda>d c k. map Inr (filter (\<lambda>x. k \<le> fst x) (sort_key fst (AList.clearjunk (d c)))))"
  shows "rocks_ok R"
proof -
  have kvm: "kv R d = (\<lambda>c. map_of (d c))" for d using kv_alist [OF assms(1)] by (simp add: fun_eq_iff)
  have iter: "(x, v) \<in> set (AList.clearjunk (d c)) \<longleftrightarrow> map_of (d c) x = Some v" for d :: alist_db and c x v
    by (metis distinct_clearjunk map_of_clearjunk map_of_eq_Some_iff)
  show ?thesis
    unfolding rocks_ok_def kvm assms
    using alist_op_map alist_fold_map sorted_iter by (auto simp: iter simp del: alist_op.simps)
qed

section \<open>A self-delimiting encoding\<close>

definition enc_bytes :: "bytes \<Rightarrow> bytes" where
  "enc_bytes bs = concat (map (\<lambda>x. [1, x]) bs) @ [0]"

fun dec_bytes :: "bytes \<Rightarrow> (bytes \<times> bytes) option" where
  "dec_bytes [] = None"
| "dec_bytes [b] = (if b = 0 then Some ([], []) else None)"
| "dec_bytes (b # x # r) = (if b = 0 then Some ([], x # r)
                           else map_option (\<lambda>(bs, r'). (x # bs, r')) (dec_bytes r))"

lemma dec_enc_bytes [simp]: "dec_bytes (enc_bytes bs @ r) = Some (bs, r)"
  by (induction bs) (cases r; simp add: enc_bytes_def)+

definition enc_opt :: "bytes option \<Rightarrow> bytes" where
  "enc_opt v = (case v of None \<Rightarrow> [0] | Some bs \<Rightarrow> 1 # enc_bytes bs)"

definition dec_opt :: "bytes \<Rightarrow> (bytes option \<times> bytes) option" where
  "dec_opt bs = (case bs of [] \<Rightarrow> None
     | b # r \<Rightarrow> if b = 0 then Some (None, r) else map_option (\<lambda>(v, r'). (Some v, r')) (dec_bytes r))"

lemma dec_enc_opt [simp]: "dec_opt (enc_opt v @ r) = Some (v, r)"
  by (cases v) (simp_all add: enc_opt_def dec_opt_def)

fun dec_opts :: "nat \<Rightarrow> bytes \<Rightarrow> (bytes option list \<times> bytes) option" where
  "dec_opts 0 bs = Some ([], bs)"
| "dec_opts (Suc n) bs = Option.bind (dec_opt bs) (\<lambda>(v, r). map_option (\<lambda>(vs, r'). (v # vs, r')) (dec_opts n r))"

lemma dec_enc_opts [simp]: "dec_opts (length vs) (concat (map enc_opt vs) @ r) = Some (vs, r)"
  by (induction vs) simp_all

lemma dec_opts_length: "dec_opts n bs = Some (vs, r) \<Longrightarrow> length vs = n"
  by (induction n arbitrary: bs vs r) (auto simp: bind_eq_Some_conv)

fun sample_node_bytes :: "trie_node \<Rightarrow> bytes" where
  "sample_node_bytes NEmpty = [0]"
| "sample_node_bytes (NLeaf k v) = 1 # enc_bytes k @ enc_bytes v"
| "sample_node_bytes (NExtension k h) = 2 # enc_bytes k @ enc_bytes h"
| "sample_node_bytes (NBranch cs v) = 3 # concat (map enc_opt cs) @ enc_opt v"

definition sample_node_parse :: "bytes \<Rightarrow> string + trie_node" where
  "sample_node_parse bs = (case bs of [] \<Rightarrow> Inl ''empty''
     | b # r \<Rightarrow>
       (case (if b = 0 then Some NEmpty
              else if b = 3 then Option.bind (dec_opts 16 r) (\<lambda>(cs, r1).
                     map_option (\<lambda>(v, r2). NBranch cs v) (dec_opt r1))
              else Option.bind (dec_bytes r) (\<lambda>(k, r1).
                     map_option (\<lambda>(v, r2). if b = 1 then NLeaf k v else NExtension k v) (dec_bytes r1))) of
          None \<Rightarrow> Inl ''bad node'' | Some n \<Rightarrow> Inr n))"

lemma sample_node_roundtrip: "wf_node n \<Longrightarrow> sample_node_parse (sample_node_bytes n) = Inr n"
proof (cases n)
  case (NBranch cs v)
  assume "wf_node n"
  then show ?thesis
    using NBranch dec_enc_opts [of cs "enc_opt v"] dec_enc_opt [of v "[]"]
    by (simp add: sample_node_parse_def)
qed (use dec_enc_bytes [where r = "[]"] in \<open>simp_all add: sample_node_parse_def\<close>)

lemma sample_node_parse_wf: "sample_node_parse bs = Inr n \<Longrightarrow> wf_node n"
  by (auto simp: sample_node_parse_def bind_eq_Some_conv dest!: dec_opts_length
      split: list.splits if_splits option.splits)

section \<open>The environment\<close>

definition sample_trie_env :: "alist_db trie_env" where
  "sample_trie_env = rocks.extend sample_rocks \<lparr>
     blake3_hash = (\<lambda>b. 1 # b),
     node_to_bytes = sample_node_bytes,
     node_from_bytes = sample_node_parse,
     node_cache_get = (\<lambda>c k. (map_of c k, c)),
     node_cache_put = (\<lambda>c k v. [(k, v)]),
     dirty_order = rev\<rparr>"

lemma sample_fields [simp]:
  "rk_get (sample_trie_env) = (\<lambda>d c k. Inr (map_of (d c) k))"
  "rk_put (sample_trie_env) = (\<lambda>d c k v. (Inr (), alist_op (BatchPut c k v) d))"
  "rk_delete (sample_trie_env) = (\<lambda>d c k. (Inr (), alist_op (BatchDelete c k) d))"
  "rk_write (sample_trie_env) = (\<lambda>d ops. (Inr (), fold alist_op ops d))"
  "rk_iter_from (sample_trie_env) = (\<lambda>d c k. map Inr (filter (\<lambda>x. k \<le> fst x) (sort_key fst (AList.clearjunk (d c)))))"
  "blake3_hash sample_trie_env = (\<lambda>b. 1 # b)"
  "node_to_bytes sample_trie_env = sample_node_bytes"
  "node_from_bytes sample_trie_env = sample_node_parse"
  "node_cache_get sample_trie_env = (\<lambda>c k. (map_of c k, c))"
  "node_cache_put sample_trie_env = (\<lambda>c k v. [(k, v)])"
  "dirty_order sample_trie_env = rev"
  by (simp_all add: sample_trie_env_def sample_rocks_def rocks.defs)

lemma trie_env_ok_cong:
  assumes "rk_get E = rk_get sample_trie_env" "rk_put E = rk_put sample_trie_env"
    "rk_delete E = rk_delete sample_trie_env" "rk_write E = rk_write sample_trie_env"
    "rk_iter_from E = rk_iter_from sample_trie_env"
    "blake3_hash E = blake3_hash sample_trie_env" "node_to_bytes E = node_to_bytes sample_trie_env"
    "node_from_bytes E = node_from_bytes sample_trie_env" "node_cache_get E = node_cache_get sample_trie_env"
    "node_cache_put E = node_cache_put sample_trie_env" "dirty_order E = dirty_order sample_trie_env"
  shows "trie_env_ok E"
  unfolding trie_env_ok_def
proof (intro conjI allI impI)
  show "rocks_ok E" using assms by (intro rocks_ok_alist) simp_all
  show "lru_ok id (node_cache_get E) (node_cache_put E)" using assms by (simp add: lru_ok_def map_le_def)
qed (use assms sample_node_roundtrip sample_node_parse_wf in \<open>auto simp: inj_def hash_ZERO_def numeral_eq_Suc\<close>)

lemma sample_trie_env_ok: "trie_env_ok sample_trie_env"
  by (rule trie_env_ok_cong) simp_all

definition empty_db :: alist_db where
  "empty_db = (\<lambda>c. [])"

lemma coherent_empty: "kv E empty_db STATE = Map.empty \<Longrightarrow> coherent E (empty_db, trie_new)"
  by (simp add: coherent_def trie_new_def)

lemma kv_sample: "kv sample_trie_env d c = map_of (d c)"
  by (simp add: kv_def fun_eq_iff)

lemma coherent_sample: "coherent sample_trie_env (empty_db, trie_new)"
  by (rule coherent_empty) (simp add: kv_sample empty_db_def)

end
