(* ===== verification/Merkle_Proof.thy ===== *)
theory Merkle_Proof
  imports Trie_Map Sample_Env
begin

text \<open>
  Merkle proofs (\<open>qfc-trie/src/proof.rs\<close>, and \<open>get_proof\<close>, \<open>collect_proof\<close> of \<open>trie.rs\<close>).
  A proof lists the serialized nodes on the path of a key. Verification follows the hashes from
  a root. It accepts every proof the trie builds, and whatever it accepts against the root of a
  trie states the value that trie holds, whoever made the proof.
\<close>

section \<open>The proof and its verification\<close>

record merkle_proof =
  mp_key :: bytes
  mp_value :: "bytes option"
  mp_nodes :: "bytes list"

text \<open>\<open>verify_path\<close>, with the nodes from \<open>node_index\<close> on as its last argument.\<close>

fun verify_path :: "('d, 'z) trie_env_scheme \<Rightarrow> bytes option \<Rightarrow> hash \<Rightarrow> nibble_slice \<Rightarrow> bytes list \<Rightarrow>
    (unit, trie_error, bool) op" where
  "verify_path E pv expected key [] = op_ret False"
| "verify_path E pv expected key (b # nodes) =
     (case node_from_bytes E b of
        Inl e \<Rightarrow> op_fail (Err (Serialization e))
      | Inr node \<Rightarrow>
        if node_hash E node \<noteq> expected then op_ret False
        else (case node of
          NEmpty \<Rightarrow> op_ret (pv = None)
        | NLeaf leaf_key value \<Rightarrow>
            op_bind (op_expect (ns_to_nibbles key)) (\<lambda>ks.
            op_bind (op_expect (ns_to_nibbles (ns_from_nibbles leaf_key))) (\<lambda>lks.
              if ks = lks then op_ret (pv = Some value) else op_ret (pv = None)))
        | NExtension ext_key child \<Rightarrow>
            let ext_nibbles = ns_from_nibbles ext_key in
            op_bind (op_expect (ns_starts_with key ext_nibbles)) (\<lambda>starts.
              if starts then
                op_bind (op_expect (ns_offset key (ns_len ext_nibbles))) (\<lambda>remaining.
                  verify_path E pv child remaining nodes)
              else op_ret (pv = None))
        | NBranch children branch_value \<Rightarrow>
            if ns_is_empty key then op_ret (pv = branch_value)
            else
              op_bind (op_expect (ns_at key 0)) (\<lambda>nibble.
              op_bind (op_expect (index_opt children (unat nibble))) (\<lambda>child. case child of
                Some child_hash \<Rightarrow>
                  op_bind (op_expect (ns_offset key 1)) (\<lambda>remaining.
                    verify_path E pv child_hash remaining nodes)
              | None \<Rightarrow> op_ret (pv = None)))))"

definition merkle_verify :: "('d, 'z) trie_env_scheme \<Rightarrow> merkle_proof \<Rightarrow> hash \<Rightarrow> trie_error fault + bool" where
  "merkle_verify E p root =
     (if root = hash_ZERO then Inr (mp_value p = None)
      else if mp_nodes p = [] then Inr False
      else fst (verify_path E (mp_value p) root (ns_from_bytes (mp_key p)) (mp_nodes p) ()))"

section \<open>Building a proof\<close>

text \<open>The builder is the list of node encodings added so far.\<close>

fun collect_proof :: "('d, 'z) trie_env_scheme \<Rightarrow> nat \<Rightarrow> hash \<Rightarrow> nibble_slice \<Rightarrow> bytes list \<Rightarrow>
    ('d, bytes option \<times> bytes list) trie_op" where
  "collect_proof E 0 h key builder = op_fail OutOfFuel"
| "collect_proof E (Suc fuel) h key builder =
     (if h = hash_ZERO then op_ret (None, builder)
      else op_bind (get_node E h) (\<lambda>node.
        let builder = builder @ [node_to_bytes E node] in
        case node of
          NEmpty \<Rightarrow> op_ret (None, builder)
        | NLeaf leaf_key value \<Rightarrow>
            op_bind (op_expect (ns_to_nibbles key)) (\<lambda>ks.
            op_bind (op_expect (ns_to_nibbles (ns_from_nibbles leaf_key))) (\<lambda>lks.
              if ks = lks then op_ret (Some value, builder) else op_ret (None, builder)))
        | NExtension ext_key child \<Rightarrow>
            let ext_nibbles = ns_from_nibbles ext_key in
            op_bind (op_expect (ns_starts_with key ext_nibbles)) (\<lambda>starts.
              if starts then
                op_bind (op_expect (ns_offset key (ns_len ext_nibbles))) (\<lambda>remaining.
                  collect_proof E fuel child remaining builder)
              else op_ret (None, builder))
        | NBranch children value \<Rightarrow>
            if ns_is_empty key then op_ret (value, builder)
            else
              op_bind (op_expect (ns_at key 0)) (\<lambda>index.
              op_bind (op_expect (index_opt children (unat index))) (\<lambda>child. case child of
                Some child_hash \<Rightarrow>
                  op_bind (op_expect (ns_offset key 1)) (\<lambda>remaining.
                    collect_proof E fuel child_hash remaining builder)
              | None \<Rightarrow> op_ret (None, builder)))))"

definition trie_get_proof :: "('d, 'z) trie_env_scheme \<Rightarrow> bytes \<Rightarrow> ('d, merkle_proof) trie_op" where
  "trie_get_proof E key = (\<lambda>(d, t).
     let nibbles = ns_from_bytes key in
     op_bind (collect_proof E (Suc (ns_len nibbles)) (tr_root t) nibbles [])
       (\<lambda>(value, nodes). op_ret \<lparr>mp_key = key, mp_value = value, mp_nodes = nodes\<rparr>) (d, t))"

section \<open>Soundness\<close>

lemma verify_path_sound:
  assumes E: "trie_env_ok E"
  shows "wf_tree t \<Longrightarrow> ns_wf key \<Longrightarrow> fst (verify_path E pv (thash E t) key nodes ()) = Inr True \<Longrightarrow>
         pv = t_get t (nibs key)"
proof (induction nodes arbitrary: t key)
  case Nil
  then show ?case by simp
next
  case (Cons b nodes)
  obtain n where n: "node_from_bytes E b = Inr n" "node_hash E n = thash E t"
    using Cons.prems(3) by (auto split: sum.splits if_splits)
  then have n_eq: "n = tnode E t"
    using node_hash_inj [OF E env_okD(5) [OF E n(1)] wf_tnode [OF Cons.prems(1), of E]] by (simp add: thash_def)
  have ver: "fst (verify_path E pv (thash E t) key (b # nodes) ()) = Inr True" by (rule Cons.prems(3))
  show ?case
  proof (cases t)
    case (PLeaf lk v)
    then show ?thesis using ver n n_eq Cons.prems by (auto split: if_splits)
  next
    case (PExt ek c)
    then show ?thesis
      using ver n n_eq Cons.prems Cons.IH [of c "ns_drop key (length ek)"] lcp_le(1) [of "nibs key" ek]
      by (auto simp: Let_def thash_def [symmetric] split: if_splits)
  next
    case (PBranch cs bv)
    show ?thesis
    proof (cases "nibs key = []")
      case True
      then show ?thesis using PBranch ver n n_eq Cons.prems by auto
    next
      case False
      then obtain x k where xk: "nibs key = x # k" "ns_at key 0 = Some x" "unat x < 16"
        "nibs (ns_drop key 1) = k" "ns_len key = Suc (length k)"
        "index_opt (hashes E cs) (unat x) = Some (map_option (thash E) (cs ! unat x))"
        using branch_child Cons.prems(1,2) PBranch by blast
      have "wf_tree c" if "cs ! unat x = Some c" for c
        using that Cons.prems(1) PBranch xk(3) by (metis nth_mem option.pred_inject(2) wf_tree.simps(3))
      then show ?thesis
        using PBranch ver n n_eq Cons.prems Cons.IH [of _ "ns_drop key 1"] xk False
        by (auto simp: thash_def [symmetric] branch_tnode [symmetric] split: option.splits)
    qed
  qed
qed

section \<open>Completeness\<close>

text \<open>The node encodings on the path of a key.\<close>

fun proof_path :: "('d, 'z) trie_env_scheme \<Rightarrow> ptree \<Rightarrow> bytes \<Rightarrow> bytes list" where
  "proof_path E (PLeaf lk v) k = [node_to_bytes E (tnode E (PLeaf lk v))]"
| "proof_path E (PExt ek c) k = node_to_bytes E (tnode E (PExt ek c)) #
     (if lcp k ek = length ek then proof_path E c (drop (length ek) k) else [])"
| "proof_path E (PBranch cs bv) [] = [node_to_bytes E (tnode E (PBranch cs bv))]"
| "proof_path E (PBranch cs bv) (x # k) = node_to_bytes E (tnode E (PBranch cs bv)) #
     (case cs ! unat x of None \<Rightarrow> [] | Some c \<Rightarrow> proof_path E c k)"

lemma verify_path_complete:
  assumes E: "trie_env_ok E"
  shows "wf_tree t \<Longrightarrow> ns_wf key \<Longrightarrow> nibs key = k \<Longrightarrow>
         verify_path E (t_get t k) (thash E t) key (proof_path E t k) () = (Inr True, ())"
proof (induction t k arbitrary: key rule: t_get.induct)
  case (1 lk v k)
  then show ?case using env_okD(4) [OF E, of "tnode E (PLeaf lk v)"] by (simp add: thash_def)
next
  case (2 ek c k)
  have "node_from_bytes E (node_to_bytes E (tnode E (PExt ek c))) = Inr (tnode E (PExt ek c))"
    by (rule env_okD(4) [OF E]) simp
  then show ?case
    using 2 lcp_le(1) [of "nibs key" ek] by (auto simp: Let_def thash_def)
next
  case (3 cs bv)
  have "node_from_bytes E (node_to_bytes E (tnode E (PBranch cs bv))) = Inr (tnode E (PBranch cs bv))"
    by (rule env_okD(4) [OF E]) (use 3 in simp)
  then show ?case using 3 by (simp add: thash_def)
next
  case (4 cs bv x k)
  have node: "node_from_bytes E (node_to_bytes E (tnode E (PBranch cs bv))) = Inr (tnode E (PBranch cs bv))"
    by (rule env_okD(4) [OF E]) (use 4 in simp)
  obtain xk: "ns_at key 0 = Some x" "unat x < 16" "nibs (ns_drop key 1) = k" "ns_len key = Suc (length k)"
    "index_opt (hashes E cs) (unat x) = Some (map_option (thash E) (cs ! unat x))"
    using branch_child [of cs bv key E] 4(2-4) by (metis list.distinct(1) list.inject)
  have "wf_tree c" if "cs ! unat x = Some c" for c
    using that 4(2) xk(2) by (metis nth_mem option.pred_inject(2) wf_tree.simps(3))
  then show ?case
    using 4 node xk by (auto simp: thash_def [abs_def] branch_tnode [symmetric] split: option.splits)
qed

lemma collect_proof_refines:
  assumes "trie_env_ok E" "coherent E s" "wf_tree t" "stored E s t" "ns_wf key" "ns_len key < fuel"
  shows "yields E (collect_proof E fuel (thash E t) key bld) s
           (t_get t (nibs key), bld @ proof_path E t (nibs key)) (\<lambda>_. True)"
  using assms(2-)
proof (induction fuel arbitrary: t key s bld)
  case 0
  then show ?case by simp
next
  case (Suc fuel)
  note E = assms(1)
  note node = yields_get_tree [OF E Suc.prems(1-3)]
  show ?case
  proof (cases t)
    case (PLeaf lk v)
    show ?thesis
      by (simp only: collect_proof.simps thash_nonzero [OF E] if_False, rule yields_bind [OF node])
         (use PLeaf Suc.prems in \<open>auto intro!: yields_ret simp: Let_def\<close>)
  next
    case (PExt ek c)
    have step: "yields E (collect_proof E fuel (thash E c) (ns_drop key (length ek)) b) s'
        (t_get c (drop (length ek) (nibs key)), b @ proof_path E c (drop (length ek) (nibs key))) (\<lambda>_. True)"
      if "grows E s s'" "lcp (nibs key) ek = length ek" for s' b
    proof -
      have "length ek \<le> ns_len key" using that(2) lcp_le(1) [of "nibs key" ek] by simp
      moreover have "ns_len key - length ek < fuel"
        using Suc.prems(2,5) PExt calculation by (cases ek) auto
      ultimately show ?thesis
        using Suc.IH [of s' c "ns_drop key (length ek)"] Suc.prems PExt that
        by (auto simp: grows_coherent grows_stored)
    qed
    show ?thesis
      by (simp only: collect_proof.simps thash_nonzero [OF E] if_False, rule yields_bind [OF node])
         (use PExt Suc.prems step [where b = "bld @ [node_to_bytes E (tnode E t)]"] lcp_le(1) [of "nibs key" ek] in
           \<open>auto intro!: yields_ret yields_Pair simp: Let_def thash_def\<close>)
  next
    case (PBranch cs bv)
    show ?thesis
    proof (cases "nibs key = []")
      case True
      show ?thesis
        by (simp only: collect_proof.simps thash_nonzero [OF E] if_False, rule yields_bind [OF node])
           (use PBranch Suc.prems True in \<open>auto intro!: yields_ret simp: Let_def\<close>)
    next
      case False
      then obtain x k where xk: "nibs key = x # k" "ns_at key 0 = Some x" "unat x < 16"
        "nibs (ns_drop key 1) = k" "ns_len key = Suc (length k)"
        "index_opt (hashes E cs) (unat x) = Some (map_option (thash E) (cs ! unat x))"
        using branch_child Suc.prems(2,4) PBranch by blast
      have step: "yields E (collect_proof E fuel (thash E c) (ns_drop key 1) b) s'
          (t_get c k, b @ proof_path E c k) (\<lambda>_. True)"
        if "grows E s s'" "cs ! unat x = Some c" for s' c b
        using Suc.IH [of s' c "ns_drop key 1"] Suc.prems PBranch that xk stored_child [of E s cs bv]
        by (auto simp: grows_coherent grows_stored)
      show ?thesis
        by (simp only: collect_proof.simps thash_nonzero [OF E] if_False, rule yields_bind [OF node])
           (use PBranch Suc.prems step [where b = "bld @ [node_to_bytes E (tnode E t)]"] xk False in
             \<open>auto intro!: yields_ret yields_Pair simp: Let_def thash_def [abs_def] split: option.splits\<close>)
    qed
  qed
qed

declare collect_proof.simps [simp del] verify_path.simps [simp del]

end
