(* ===== verification/Trie_Values.thy ===== *)
theory Trie_Values
  imports Trie_Map
begin

text \<open>
  Enumeration of the values of a trie (\<open>values\<close>, \<open>collect_values\<close> of \<open>trie.rs\<close>): with fuel above
  the key length the walk returns every stored value exactly once.
\<close>

section \<open>Entries of a tree\<close>

fun t_entries :: "ptree \<Rightarrow> (bytes \<times> bytes) list" where
  "t_entries (PLeaf k v) = [(k, v)]"
| "t_entries (PExt ek c) = map (\<lambda>(k, v). (ek @ k, v)) (t_entries c)"
| "t_entries (PBranch cs bv) =
     (case bv of None \<Rightarrow> [] | Some v \<Rightarrow> [([], v)]) @
     concat (map (\<lambda>(i, es). map (\<lambda>(k, v). (of_nat i # k, v)) es)
       (enumerate 0 (map (\<lambda>c. case c of None \<Rightarrow> [] | Some t \<Rightarrow> t_entries t) cs)))"

definition t_values :: "ptree \<Rightarrow> bytes list" where
  "t_values t = map snd (t_entries t)"

lemma snd_map_prepend: "map snd (map (\<lambda>(k, v). (f k, v)) es) = map snd es"
  by (simp add: comp_def case_prod_unfold)

lemma t_values_simps:
  "t_values (PLeaf k v) = [v]"
  "t_values (PExt ek c) = t_values c"
  "t_values (PBranch cs bv) = (case bv of None \<Rightarrow> [] | Some v \<Rightarrow> [v]) @
     concat (map (\<lambda>c. case c of None \<Rightarrow> [] | Some t \<Rightarrow> t_values t) cs)"
proof -
  show "t_values (PExt ek c) = t_values c" by (simp add: t_values_def case_prod_unfold)
  let ?f = "\<lambda>c. case c of None \<Rightarrow> [] | Some t \<Rightarrow> t_entries t"
  have "map snd (concat (map (\<lambda>(i, es). map (\<lambda>(k, v). (of_nat i # k :: bytes, v)) es) (enumerate n (map ?f cs)))) =
      concat (map (\<lambda>c. case c of None \<Rightarrow> [] | Some t \<Rightarrow> t_values t) cs)" for n
    by (induction cs arbitrary: n) (auto simp: snd_map_prepend t_values_def split: option.splits)
  then show "t_values (PBranch cs bv) = (case bv of None \<Rightarrow> [] | Some v \<Rightarrow> [v]) @
     concat (map (\<lambda>c. case c of None \<Rightarrow> [] | Some t \<Rightarrow> t_values t) cs)"
    by (auto simp: t_values_def split: option.splits)
qed (simp add: t_values_def)

lemma set_concat_enumerate:
  "x \<in> set (concat (map (\<lambda>(i, es). g i es) (enumerate 0 ess))) \<longleftrightarrow> (\<exists>i < length ess. x \<in> set (g i (ess ! i)))"
proof -
  have "x \<in> set (concat (map (\<lambda>(i, es). g i es) (enumerate 0 ess))) \<longleftrightarrow>
      (\<exists>p \<in> set (enumerate 0 ess). x \<in> set (g (fst p) (snd p)))" by (auto simp: case_prod_unfold)
  then show ?thesis by (auto simp: in_set_enumerate_eq Bex_def)
qed

lemma branch_entries_iff:
  assumes "length cs = 16"
  shows "(k, v) \<in> set (t_entries (PBranch cs None)) \<longleftrightarrow>
    (\<exists>i k' c. i < 16 \<and> k = of_nat i # k' \<and> cs ! i = Some c \<and> (k', v) \<in> set (t_entries c))"
proof -
  have "(k, v) \<in> set (t_entries (PBranch cs None)) \<longleftrightarrow>
    (\<exists>i < 16. (k, v) \<in> set (map (\<lambda>(k, v). (of_nat i # k, v)) (case cs ! i of None \<Rightarrow> [] | Some t \<Rightarrow> t_entries t)))"
    unfolding t_entries.simps option.case append_Nil set_concat_enumerate
    using assms by (intro ex_cong1 conj_cong) simp_all
  also have "\<dots> \<longleftrightarrow> (\<exists>i < 16. \<exists>k' c. k = of_nat i # k' \<and> cs ! i = Some c \<and> (k', v) \<in> set (t_entries c))"
    by (intro ex_cong1 conj_cong refl) (auto simp: image_iff split: option.splits, metis)
  finally show ?thesis by blast
qed

lemma t_entries_get:
  "mpt n t \<Longrightarrow> (k, v) \<in> set (t_entries t) \<longleftrightarrow> key_of n k \<and> t_get t k = Some v"
proof (induction n t arbitrary: k rule: mpt.induct)
  case (1 n lk lv)
  then show ?case by (auto simp: key_of_def)
next
  case (2 n ek c)
  have "key_of n k \<Longrightarrow> lcp k ek = length ek \<Longrightarrow> k = ek @ drop (length ek) k"
    unfolding lcp_prefix by (metis append_take_drop_id)
  moreover have "lcp (ek @ k') ek = length ek" for k' unfolding lcp_prefix by simp
  moreover have "key_of (n - length ek) k' \<longleftrightarrow> key_of n (ek @ k')" for k'
    using 2(2) by (auto simp: key_of_def)
  ultimately show ?case using 2 by (auto simp: image_iff split: if_splits) force+
next
  case (3 n cs bv)
  have child: "(k', v) \<in> set (t_entries c) \<longleftrightarrow> key_of (n - 1) k' \<and> t_get c k' = Some v"
    if "i < 16" "cs ! i = Some c" for i c k'
  proof -
    have "Some c \<in> set cs" "mpt (n - 1) c"
      using that 3(2) by (metis mpt.simps(3) nth_mem option.pred_inject(2))+
    then show ?thesis using 3(1) [of "Some c" c k'] by simp
  qed
  have bv: "bv = None" "length cs = 16" "0 < n" using 3(2) by auto
  show ?case
  proof
    assume "(k, v) \<in> set (t_entries (PBranch cs bv))"
    then obtain i k' c where "i < 16" "k = of_nat i # k'" "cs ! i = Some c" "(k', v) \<in> set (t_entries c)"
      using branch_entries_iff [OF bv(2)] bv(1) by blast
    then show "key_of n k \<and> t_get (PBranch cs bv) k = Some v"
      using child [of i c k'] bv by (auto simp: key_of_def is_nibble_of_nat)
  next
    assume k: "key_of n k \<and> t_get (PBranch cs bv) k = Some v"
    then obtain x k' where x: "k = x # k'" using bv(3) by (cases k) (auto simp: key_of_def)
    then obtain c where c: "cs ! unat x = Some c" "t_get c k' = Some v" using k by (auto split: option.splits)
    have "unat x < 16" "key_of (n - 1) k'" "x = of_nat (unat x)" using k x by (auto simp: key_of_def unat_nibble)
    then show "(k, v) \<in> set (t_entries (PBranch cs bv))"
      using child [OF _ c(1), of k'] c x branch_entries_iff [OF bv(2), of k v] bv(1) by metis
  qed
qed

lemma distinct_prefixed:
  "distinct (map fst es) \<Longrightarrow> distinct (map fst (map (\<lambda>(k, v). (p @ k, v)) es))"
  by (induction es) (auto simp: image_iff)

lemma distinct_enum:
  assumes "\<And>es. es \<in> set ess \<Longrightarrow> distinct (map fst es)" "n + length ess \<le> 16"
  shows "distinct (map fst (concat (map (\<lambda>(i, es). map (\<lambda>(k, v). (of_nat i # k :: bytes, v)) es) (enumerate n ess))))"
  using assms
proof (induction ess arbitrary: n)
  case (Cons es ess)
  have "distinct (map fst (map (\<lambda>(k, v). (of_nat n # k :: bytes, v)) es))"
    using distinct_prefixed [of es "[of_nat n]"] Cons.prems by simp
  moreover have "of_nat n \<noteq> (of_nat i :: u8)" if "Suc n \<le> i" "i < 16" for i
    using that is_nibble_of_nat(2) [of n] is_nibble_of_nat(2) [of i] by (metis le_trans less_irrefl not_less nat_le_linear Suc_le_lessD less_trans)
  ultimately show ?case
    using Cons.IH [of "Suc n"] Cons.prems
    by (auto simp: in_set_enumerate_eq image_iff) fastforce
qed simp

lemma distinct_entries: "mpt n t \<Longrightarrow> distinct (map fst (t_entries t))"
proof (induction n t rule: mpt.induct)
  case (2 n ek c)
  then show ?case using distinct_prefixed [of "t_entries c" ek] by simp
next
  case (3 n cs bv)
  then have bv: "bv = None" "length cs = 16" by auto
  have "distinct (map fst es)" if "es \<in> set (map (\<lambda>c. case c of None \<Rightarrow> [] | Some t \<Rightarrow> t_entries t) cs)" for es
    using that 3 by (fastforce split: option.splits)
  then show ?case
    using distinct_enum [of "map (\<lambda>c. case c of None \<Rightarrow> [] | Some t \<Rightarrow> t_entries t) cs" 0] bv by simp
qed simp

section \<open>The walk over the nodes\<close>

lemma op_fold_yields:
  assumes "\<And>s' x acc. grows E s s' \<Longrightarrow> x \<in> set xs \<Longrightarrow> yields E (f (h x) acc) s' (acc @ g x) (\<lambda>_. True)" "coherent E s"
  shows "yields E (op_fold f (map h xs) acc) s (acc @ concat (map g xs)) (\<lambda>_. True)"
  using assms
proof (induction xs arbitrary: s acc)
  case Nil
  then show ?case by (simp add: yields_Pair)
next
  case (Cons x xs)
  have "yields E (f (h x) acc) s (acc @ g x) (\<lambda>_. True)" using Cons.prems by simp
  then have "yields E (op_bind (f (h x) acc) (op_fold f (map h xs))) s ((acc @ g x) @ concat (map g xs)) (\<lambda>_. True)"
  proof (rule yields_bind)
    fix s'
    assume s': "grows E s s'" "coherent E s'"
    show "yields E (op_fold f (map h xs) (acc @ g x)) s' ((acc @ g x) @ concat (map g xs)) (\<lambda>_. True)"
      by (rule Cons.IH [OF Cons.prems(1) s'(2)]) (simp_all add: grows_trans [OF s'(1)])
  qed
  then show ?case by simp
qed

definition some_list :: "'a option list \<Rightarrow> 'a list" where
  "some_list cs = concat (map (\<lambda>c. case c of None \<Rightarrow> [] | Some x \<Rightarrow> [x]) cs)"

lemma some_list_hashes:
  "concat (map (\<lambda>c. case c of None \<Rightarrow> [] | Some h \<Rightarrow> [h]) (hashes E cs)) = map (thash E) (some_list cs)"
  by (induction cs) (auto simp: some_list_def split: option.splits)

lemma some_list_values:
  "concat (map t_values (some_list cs)) = concat (map (\<lambda>c. case c of None \<Rightarrow> [] | Some t \<Rightarrow> t_values t) cs)"
  by (induction cs) (auto simp: some_list_def split: option.splits)

lemma set_some_list: "x \<in> set (some_list cs) \<longleftrightarrow> Some x \<in> set cs"
  by (induction cs) (auto simp: some_list_def split: option.splits)

lemma collect_values_refines:
  assumes "trie_env_ok E" "coherent E s" "mpt n t" "stored E s t" "n < fuel"
  shows "yields E (collect_values E fuel (thash E t) vs) s (vs @ t_values t) (\<lambda>_. True)"
  using assms(2-)
proof (induction fuel arbitrary: t n s vs)
  case 0
  then show ?case by simp
next
  case (Suc fuel)
  note E = assms(1)
  note node = yields_get_tree [OF E Suc.prems(1) mpt_wf [OF Suc.prems(2)] Suc.prems(3)]
  show ?case
  proof (cases t)
    case (PLeaf k v)
    show ?thesis
      by (simp only: collect_values.simps thash_nonzero [OF E] if_False, rule yields_bind [OF node])
         (use PLeaf in \<open>simp add: yields_ret t_values_simps\<close>)
  next
    case (PExt ek c)
    have "yields E (collect_values E fuel (thash E c) vs) s' (vs @ t_values c) (\<lambda>_. True)" if "grows E s s'" for s'
      using Suc.IH [of s' "n - length ek" c] Suc.prems PExt that by (cases ek) (auto simp: grows_coherent grows_stored)
    then show ?thesis
      by (simp only: collect_values.simps thash_nonzero [OF E] if_False, intro yields_bind [OF node])
         (use PExt in \<open>simp add: t_values_simps thash_def [symmetric]\<close>)
  next
    case (PBranch cs bv)
    have bv: "bv = None" using Suc.prems PBranch by simp
    have "yields E (collect_values E fuel (thash E c) acc) s' (acc @ t_values c) (\<lambda>_. True)"
      if "grows E s s'" "c \<in> set (some_list cs)" for s' c acc
      using Suc.IH [of s' "n - 1" c] Suc.prems PBranch that
      by (fastforce simp: grows_coherent grows_stored set_some_list)
    then have "yields E (op_fold (collect_values E fuel) (map (thash E) (some_list cs)) vs) s'
        (vs @ concat (map t_values (some_list cs))) (\<lambda>_. True)" if "grows E s s'" for s'
      using that grows_trans [OF that] by (intro op_fold_yields) (simp_all add: grows_coherent)
    then show ?thesis
      by (simp only: collect_values.simps thash_nonzero [OF E] if_False, intro yields_bind [OF node])
         (use PBranch bv some_list_hashes [of E cs] in
           \<open>simp add: t_values_simps some_list_values thash_def [abs_def]\<close>)
  qed
qed

lemma trie_values_holds:
  assumes E: "trie_env_ok E" and h: "trie_holds E L s m" and f: "2 * L < fuel"
  obtains s' ks where "trie_values E fuel s = (Inr (map (\<lambda>k. the (m k)) ks), s')" "grows E s s'"
    "distinct ks" "set ks = dom m"
proof -
  obtain ot where ot: "coherent E s" "tr_root (snd s) = ohash E ot" "tm_mpt (2 * L) ot"
    "pred_option (stored E s) ot" "m = (\<lambda>k. if length k = L then tm_get ot (byte_key k) else None)"
    using h by (rule trie_holdsE)
  obtain d t where s: "s = (d, t)" by (cases s)
  show thesis
  proof (cases ot)
    case None
    obtain f' where "fuel = Suc f'" using f by (cases fuel) auto
    then show thesis
      using None ot s by (intro that [of "[]" s]) (auto simp: trie_values_def dom_def)
  next
    case (Some T)
    then have T: "mpt (2 * L) T" "stored E s T" using ot by auto
    obtain s' where s': "collect_values E fuel (thash E T) [] s = (Inr (t_values T), s')" "grows E s s'"
      using collect_values_refines [OF E ot(1) T f, of "[]"] by (auto simp: yields_def)
    define ks where "ks = map (\<lambda>(k, v). inv byte_key k) (t_entries T)"
    have inv: "inv byte_key (byte_key k) = k" for k by (rule inv_f_f) (simp add: inj_def)
    have ent: "\<exists>b. length b = L \<and> k = byte_key b \<and> m b = Some v" if "(k, v) \<in> set (t_entries T)" for k v
      using that t_entries_get [OF T(1)] byte_key_surj [of L k] ot(5) Some by (metis tm_simps(2))
    have "t_values T = map (\<lambda>k. the (m k)) ks"
      unfolding t_values_def ks_def map_map comp_def
      by (rule map_cong) (use ent inv in \<open>force+\<close>)
    moreover have "distinct ks"
    proof -
      have "map byte_key ks = map fst (t_entries T)"
        unfolding ks_def map_map comp_def by (rule map_cong) (use ent inv in \<open>force+\<close>)
      then show ?thesis using distinct_entries [OF T(1)] by (metis distinct_map)
    qed
    moreover have "set ks = dom m"
    proof (intro set_eqI iffI)
      fix k assume "k \<in> set ks"
      then show "k \<in> dom m" unfolding ks_def using ent inv by force
    next
      fix k assume "k \<in> dom m"
      then obtain v where v: "length k = L" "t_get T (byte_key k) = Some v"
        using ot(5) Some by (auto split: if_splits)
      then have "(byte_key k, v) \<in> set (t_entries T)"
        using t_entries_get [OF T(1)] key_of_byte_key [of k] by simp
      then have "(\<lambda>(k, v). inv byte_key k) (byte_key k, v) \<in> set ks"
        unfolding ks_def set_map by (rule imageI)
      then show "k \<in> set ks" by (simp add: inv)
    qed
    ultimately show thesis
      using s' Some ot(2) s by (intro that [of ks s']) (simp_all add: trie_values_def)
  qed
qed

end
