(* ===== verification/Trie_Properties.thy ===== *)
theory Trie_Properties
  imports Merkle_Proof Trie_Values
begin

text \<open>
  The properties of the trie: map behaviour of lookup, insertion and deletion, a root hash that
  depends on the contents alone, durability of a commit, complete enumeration, sound and
  complete Merkle proofs, and what insertion does when one key is a prefix of another.
\<close>

section \<open>Map behaviour\<close>



text \<open>C14: deletion reports whether the key was present, removes it and keeps every other key.\<close>

theorem trie_delete_get:
  assumes "trie_env_ok E" "trie_holds E L s m" "length k = L" "length k' = L"
  shows "\<exists>s1 s2. trie_delete E k s = (Inr (m k \<noteq> None), s1) \<and>
           trie_get E k' s1 = (Inr (if k' = k then None else m k'), s2) \<and> trie_holds E L s2 (m(k := None))"
proof -
  obtain s1 where s1: "trie_delete E k s = (Inr (m k \<noteq> None), s1)" "trie_holds E L s1 (m(k := None))"
    using trie_delete_holds [OF assms(1-3)] by metis
  obtain s2 where "trie_get E k' s1 = (Inr ((m(k := None)) k'), s2)" "trie_holds E L s2 (m(k := None))"
    using trie_get_holds [OF assms(1) s1(2) assms(4)] trie_holds_grows [OF s1(2)] by metis
  with s1 show ?thesis by (simp only: fun_upd_apply) blast
qed

theorem trie_delete_get_witness:
  "\<exists>s1 s2. trie_delete sample_trie_env [0x12] (empty_db, trie_new) =
       (Inr ((Map.empty :: bytes \<Rightarrow> bytes option) [0x12] \<noteq> None), s1) \<and>
     trie_get sample_trie_env [0x34] s1 =
       (Inr (if [0x34] = [0x12 :: u8] then None else Map.empty [0x34]), s2) \<and>
     trie_holds sample_trie_env 1 s2 (Map.empty([0x12] := None))"
  by (rule trie_delete_get [OF sample_trie_env_ok trie_holds_new [OF coherent_sample]]) simp_all

section \<open>The root hash\<close>



text \<open>C15: a commit returns the root, and a trie opened at that root in the database it leaves
  answers every lookup as before the commit.\<close>

theorem trie_commit_durable:
  assumes "trie_env_ok E" "trie_holds E L (d, t) m" "length k = L"
  shows "\<exists>d' t' s'. trie_commit E (d, t) = (Inr (tr_root t), (d', t')) \<and> tr_dirty t' = [] \<and>
           trie_get E k (d', trie_with_root (tr_root t)) = (Inr (m k), s') \<and>
           (\<forall>c. c \<noteq> STATE \<longrightarrow> kv E d' c = kv E d c)"
proof -
  obtain d' t' where d': "trie_commit E (d, t) = (Inr (tr_root t), (d', t'))" "tr_dirty t' = []"
    "trie_holds E L (d', trie_with_root (tr_root t)) m" "\<And>c. c \<noteq> STATE \<Longrightarrow> kv E d' c = kv E d c"
    using trie_commit_holds [OF assms(1,2)] by metis
  show ?thesis using d' trie_get_holds [OF assms(1) d'(3) assms(3)] by metis
qed

theorem trie_commit_durable_witness:
  "\<exists>d' t' s'. trie_commit sample_trie_env (empty_db, trie_new) = (Inr (tr_root trie_new), (d', t')) \<and>
     tr_dirty t' = [] \<and>
     trie_get sample_trie_env [5] (d', trie_with_root (tr_root trie_new)) =
       (Inr ((Map.empty :: bytes \<Rightarrow> bytes option) [5]), s') \<and>
     (\<forall>c. c \<noteq> STATE \<longrightarrow> kv sample_trie_env d' c = kv sample_trie_env empty_db c)"
  by (rule trie_commit_durable [OF sample_trie_env_ok trie_holds_new [OF coherent_sample, of 1]]) simp

section \<open>Enumeration\<close>

text \<open>C24: with fuel above the nibble length of the keys, enumeration returns the value of every
  stored key exactly once and nothing else.\<close>

theorem trie_values_complete:
  assumes "trie_env_ok E" "trie_holds E L s m" "2 * L < fuel"
  shows "\<exists>s' ks. trie_values E fuel s = (Inr (map (\<lambda>k. the (m k)) ks), s') \<and> distinct ks \<and> set ks = dom m"
  using trie_values_holds [OF assms] by metis

theorem trie_values_complete_witness:
  "\<exists>s' ks. trie_values sample_trie_env 41 (empty_db, trie_new) =
      (Inr (map (\<lambda>k. the ((Map.empty :: bytes \<Rightarrow> bytes option) k)) ks), s') \<and> distinct ks \<and>
      set ks = dom (Map.empty :: bytes \<Rightarrow> bytes option)"
  by (rule trie_values_complete [OF sample_trie_env_ok trie_holds_new [OF coherent_sample], of 20]) simp

section \<open>Merkle proofs\<close>

text \<open>C3: whatever proof verification accepts against the root of a trie, from whatever source,
  states the value (or the absence) that the trie holds under the key.\<close>

theorem merkle_verify_sound:
  assumes E: "trie_env_ok E" and h: "trie_holds E L s m" and k: "length (mp_key p) = L"
    and v: "merkle_verify E p (tr_root (snd s)) = Inr True"
  shows "mp_value p = m (mp_key p)"
proof -
  obtain ot where ot: "tr_root (snd s) = ohash E ot" "tm_mpt (2 * L) ot"
    "m = (\<lambda>k. if length k = L then tm_get ot (byte_key k) else None)"
    using h by (rule trie_holdsE)
  show ?thesis
  proof (cases ot)
    case None
    then show ?thesis using v ot by (simp add: merkle_verify_def)
  next
    case (Some T)
    then have "fst (verify_path E (mp_value p) (thash E T) (ns_from_bytes (mp_key p)) (mp_nodes p) ()) = Inr True"
      using v ot thash_nonzero [OF E, of T] by (simp add: merkle_verify_def split: if_splits)
    then have "mp_value p = t_get T (byte_key (mp_key p))"
      unfolding byte_key_def using Some ot mpt_wf by (intro verify_path_sound [OF E]) auto
    then show ?thesis using Some ot k by simp
  qed
qed

theorem merkle_verify_sound_witness:
  "mp_value \<lparr>mp_key = [9], mp_value = None, mp_nodes = []\<rparr> =
   (Map.empty :: bytes \<Rightarrow> bytes option) (mp_key \<lparr>mp_key = [9], mp_value = None, mp_nodes = []\<rparr>)"
  by (rule merkle_verify_sound [OF sample_trie_env_ok trie_holds_new [OF coherent_sample, of 1]])
     (simp_all add: merkle_verify_def trie_new_def)

text \<open>C23: the trie builds a proof for every key, present or absent, with the value it holds, and
  verification accepts it.\<close>

theorem merkle_proof_complete:
  assumes E: "trie_env_ok E" and h: "trie_holds E L s m" and k: "length k = L"
  shows "\<exists>p s'. trie_get_proof E k s = (Inr p, s') \<and> mp_key p = k \<and> mp_value p = m k \<and>
                merkle_verify E p (tr_root (snd s)) = Inr True"
proof -
  obtain ot where ot: "coherent E s" "tr_root (snd s) = ohash E ot" "tm_mpt (2 * L) ot"
    "pred_option (stored E s) ot" "m = (\<lambda>k. if length k = L then tm_get ot (byte_key k) else None)"
    using h by (rule trie_holdsE)
  obtain d t where s: "s = (d, t)" by (cases s)
  show ?thesis
  proof (cases ot)
    case None
    then show ?thesis using ot s by (simp add: trie_get_proof_def merkle_verify_def Let_def collect_proof.simps)
  next
    case (Some T)
    have wf: "wf_tree T" "stored E s T" using Some ot mpt_wf by auto
    then have "yields E (collect_proof E (Suc (2 * L)) (thash E T) (ns_from_bytes k) []) s
        (t_get T (byte_key k), proof_path E T (byte_key k)) (\<lambda>_. True)"
      using collect_proof_refines [OF E ot(1) wf, of "ns_from_bytes k" "Suc (2 * L)" "[]"] k
      by (simp add: byte_key_def)
    then obtain s' where "trie_get_proof E k s =
        (Inr \<lparr>mp_key = k, mp_value = m k, mp_nodes = proof_path E T (byte_key k)\<rparr>, s')"
      using Some ot k s by (auto simp: yields_def trie_get_proof_def Let_def)
    moreover have "proof_path E T (byte_key k) \<noteq> []"
      by (cases T; cases "byte_key k") auto
    moreover have "verify_path E (t_get T (byte_key k)) (thash E T) (ns_from_bytes k) (proof_path E T (byte_key k)) () =
        (Inr True, ())"
      using wf(1) by (intro verify_path_complete [OF E]) (auto simp: byte_key_def)
    ultimately show ?thesis
      using Some ot k s thash_nonzero [OF E, of T] by (simp add: merkle_verify_def)
  qed
qed

theorem merkle_proof_complete_witness:
  "\<exists>p s'. trie_get_proof sample_trie_env [9] (empty_db, trie_new) = (Inr p, s') \<and> mp_key p = [9] \<and>
     mp_value p = (Map.empty :: bytes \<Rightarrow> bytes option) [9] \<and>
     merkle_verify sample_trie_env p (tr_root (snd (empty_db, trie_new))) = Inr True"
  by (rule merkle_proof_complete [OF sample_trie_env_ok trie_holds_new [OF coherent_sample, of 1]]) simp

section \<open>Keys of different lengths\<close>

lemma insert_one:
  assumes E: "trie_env_ok E" and co: "coherent E (d, trie_new)"
  obtains s where "trie_insert E k v (d, trie_new) = (Inr (), s)" "coherent E s"
    "tr_root (snd s) = thash E (PLeaf (byte_key k) v)" "stored E s (PLeaf (byte_key k) v)"
proof -
  obtain s where s: "insert_at E (Suc (2 * length k)) hash_ZERO (ns_from_bytes k) v (d, trie_new) =
      (Inr (thash E (PLeaf (byte_key k) v)), s)" "grows E (d, trie_new) s" "stored E s (PLeaf (byte_key k) v)"
    using insert_at_zero [OF E co, of "ns_from_bytes k" "2 * length k" v] by (auto simp: yields_def byte_key_def)
  obtain d' t' where "s = (d', t')" by (cases s)
  with s show thesis
    by (intro that [of "(d', t'\<lparr>tr_root := thash E (PLeaf (byte_key k) v)\<rparr>)"])
       (auto simp: trie_insert_def trie_new_def Let_def grows_coherent simp del: stored.simps)
qed

lemma byte_key_append: "byte_key (k @ l) = byte_key k @ byte_key l"
  by (simp add: byte_key_def nibs_from_bytes)

lemma insert_under_prefix:
  assumes E: "trie_env_ok E" and co: "coherent E s" "tr_root (snd s) = thash E T" "stored E s T" "wf_tree T"
  obtains s' where "trie_insert E k v s = (Inr (), s')" "coherent E s'"
    "tr_root (snd s') = thash E (t_insert T (byte_key k) v)" "stored E s' (t_insert T (byte_key k) v)"
proof -
  obtain d' t' where s': "insert_at E (Suc (2 * length k)) (thash E T) (ns_from_bytes k) v s =
      (Inr (thash E (t_insert T (byte_key k) v)), (d', t'))" "grows E s (d', t')"
    "stored E (d', t') (t_insert T (byte_key k) v)"
    using insert_at_refines [OF E co(1,4,3), of "ns_from_bytes k" "Suc (2 * length k)" v]
    by (auto simp: yields_def byte_key_def)
  show thesis
    by (rule that [of "(d', t'\<lparr>tr_root := thash E (t_insert T (byte_key k) v)\<rparr>)"])
       (use s' co in \<open>auto simp: trie_insert_def Let_def grows_coherent split: prod.splits\<close>)
qed

text \<open>C36: insertion below a key that is a proper prefix of the new key drops the old value: after
  inserting \<open>k\<close> and then a longer key that starts with \<open>k\<close> into an empty trie, \<open>k\<close> is gone.\<close>

theorem trie_insert_drops_prefix_key:
  assumes E: "trie_env_ok E" and co: "coherent E (d, trie_new)" and ext: "ext \<noteq> []"
  shows "\<exists>s1 s2 s3. trie_insert E k v (d, trie_new) = (Inr (), s1) \<and>
           trie_insert E (k @ ext) v' s1 = (Inr (), s2) \<and> trie_get E k s2 = (Inr None, s3)"
proof -
  let ?T = "PLeaf (byte_key k) v" and ?T' = "t_insert (PLeaf (byte_key k) v) (byte_key (k @ ext)) v'"
  obtain s1 where s1: "trie_insert E k v (d, trie_new) = (Inr (), s1)" "coherent E s1"
    "tr_root (snd s1) = thash E ?T" "stored E s1 ?T" using insert_one [OF E co] by metis
  have wf: "wf_tree ?T" "nibble_list (byte_key l)" for l by (simp_all add: byte_key_def)
  obtain s2 where s2: "trie_insert E (k @ ext) v' s1 = (Inr (), s2)" "coherent E s2"
    "tr_root (snd s2) = thash E ?T'" "stored E s2 ?T'"
    using insert_under_prefix [OF E s1(2-4) wf(1)] by metis
  have "lcp (byte_key (k @ ext)) (byte_key k) = length (byte_key k)"
    unfolding lcp_prefix by (simp add: byte_key_append)
  moreover have "byte_key ext \<noteq> []" using ext by (cases ext) (auto simp: byte_key_def nibs_from_bytes byte_nibbles_def)
  ultimately have "t_get ?T' (byte_key k) = None"
    by (auto simp: Let_def t_get_pext byte_key_append lcp_prefix)
  moreover obtain s3 where "get_at E (Suc (2 * length k)) (thash E ?T') (ns_from_bytes k) s2 =
      (Inr (t_get ?T' (byte_key k)), s3)"
    using get_at_refines [OF E s2(2) wf_insert [OF wf] s2(4), of "ns_from_bytes k" "Suc (2 * length k)"]
    by (auto simp: yields_def byte_key_def)
  ultimately have "trie_get E k s2 = (Inr None, s3)"
    using s2(3) thash_nonzero [OF E] by (cases s2) (simp add: trie_get_def Let_def)
  with s1 s2 show ?thesis by blast
qed

theorem trie_insert_drops_prefix_key_witness:
  "\<exists>s1 s2 s3. trie_insert sample_trie_env [1] [7] (empty_db, trie_new) = (Inr (), s1) \<and>
     trie_insert sample_trie_env ([1] @ [2]) [8] s1 = (Inr (), s2) \<and> trie_get sample_trie_env [1] s2 = (Inr None, s3)"
  by (rule trie_insert_drops_prefix_key [OF sample_trie_env_ok coherent_sample]) simp

end
