(* ===== verification/Accounts.thy ===== *)
theory Accounts
  imports Storage
begin

text \<open>
  Accounts and pending undelegations (\<open>account.rs\<close> and the delegation part of \<open>validator.rs\<close> in
  \<open>qfc-types\<close>). The borsh codecs of the two account formats are parameters of \<open>account_from_bytes\<close>;
  the fallback from the current to the legacy format is modelled.
\<close>

section \<open>Accounts\<close>

datatype account_type = EOA | Contract | Validator

definition account_type_from_u8 :: "u8 \<Rightarrow> account_type" where
  "account_type_from_u8 v =
     (if v = 0 then EOA else if v = 1 then Contract else if v = 2 then Validator else EOA)"

record account =
  account_type :: account_type
  balance :: u256
  nonce :: u64
  code_hash :: "hash option"
  storage_root :: "hash option"
  stake :: "u256 option"
  contribution_score :: "u64 option"
  delegated_to :: "address option"
  delegated_amount :: "u256 option"
  storage_deposit :: u128
  last_active_epoch :: u64
  storage_slot_count :: u64
  is_dormant :: bool

record legacy_account =
  l_account_type :: account_type
  l_balance :: u256
  l_nonce :: u64
  l_code_hash :: "hash option"
  l_storage_root :: "hash option"
  l_stake :: "u256 option"
  l_contribution_score :: "u64 option"
  l_delegated_to :: "address option"
  l_delegated_amount :: "u256 option"

definition new_eoa_with_balance :: "u256 \<Rightarrow> account" where
  "new_eoa_with_balance b = \<lparr>
     account_type = EOA, balance = b, nonce = 0, code_hash = None, storage_root = None,
     stake = None, contribution_score = None, delegated_to = None, delegated_amount = None,
     storage_deposit = 0, last_active_epoch = 0, storage_slot_count = 0, is_dormant = False\<rparr>"

definition new_eoa :: account where
  "new_eoa = \<lparr>
     account_type = EOA, balance = 0, nonce = 0, code_hash = None, storage_root = None,
     stake = None, contribution_score = None, delegated_to = None, delegated_amount = None,
     storage_deposit = 0, last_active_epoch = 0, storage_slot_count = 0, is_dormant = False\<rparr>"

definition new_contract :: "hash \<Rightarrow> account" where
  "new_contract h = \<lparr>
     account_type = Contract, balance = 0, nonce = 1, code_hash = Some h, storage_root = None,
     stake = None, contribution_score = None, delegated_to = None, delegated_amount = None,
     storage_deposit = 0, last_active_epoch = 0, storage_slot_count = 0, is_dormant = False\<rparr>"

definition new_validator :: "u256 \<Rightarrow> account" where
  "new_validator s = \<lparr>
     account_type = Validator, balance = 0, nonce = 0, code_hash = None, storage_root = None,
     stake = Some s, contribution_score = Some 0, delegated_to = None, delegated_amount = None,
     storage_deposit = 0, last_active_epoch = 0, storage_slot_count = 0, is_dormant = False\<rparr>"

definition is_eoa :: "account \<Rightarrow> bool" where
  "is_eoa a \<longleftrightarrow> account_type a = EOA"

definition is_contract :: "account \<Rightarrow> bool" where
  "is_contract a \<longleftrightarrow> account_type a = Contract"

definition is_validator :: "account \<Rightarrow> bool" where
  "is_validator a \<longleftrightarrow> account_type a = Validator"

definition has_code :: "account \<Rightarrow> bool" where
  "has_code a \<longleftrightarrow> code_hash a \<noteq> None"

definition acc_is_empty :: "account \<Rightarrow> bool" where
  "acc_is_empty a \<longleftrightarrow> u256_is_zero (balance a) \<and> nonce a = 0 \<and> code_hash a = None"

definition acc_get_stake :: "account \<Rightarrow> u256" where
  "acc_get_stake a = (case stake a of None \<Rightarrow> 0 | Some s \<Rightarrow> s)"

definition acc_get_contribution_score :: "account \<Rightarrow> u64" where
  "acc_get_contribution_score a = (case contribution_score a of None \<Rightarrow> 0 | Some s \<Rightarrow> s)"

definition acc_add_balance :: "u256 \<Rightarrow> account \<Rightarrow> account" where
  "acc_add_balance v a = a\<lparr>balance := u256_saturating_add (balance a) v\<rparr>"

text \<open>The methods that return \<open>false\<close> leave the account as it was; \<open>None\<close> is \<open>false\<close> here. The
  operator \<open>-\<close> behind the test cannot underflow.\<close>

definition acc_sub_balance :: "u256 \<Rightarrow> account \<Rightarrow> account option" where
  "acc_sub_balance v a = (if balance a \<ge> v then Some (a\<lparr>balance := balance a - v\<rparr>) else None)"

definition acc_increment_nonce :: "account \<Rightarrow> account" where
  "acc_increment_nonce a = a\<lparr>nonce := w_sat_add (nonce a) 1\<rparr>"

definition acc_set_storage_root :: "hash \<Rightarrow> account \<Rightarrow> account" where
  "acc_set_storage_root r a = a\<lparr>storage_root := Some r\<rparr>"

definition acc_set_stake :: "u256 \<Rightarrow> account \<Rightarrow> account" where
  "acc_set_stake s a =
     (let a = a\<lparr>stake := Some s\<rparr> in
      if account_type a = EOA then a\<lparr>account_type := Validator\<rparr> else a)"

definition acc_set_contribution_score :: "u64 \<Rightarrow> account \<Rightarrow> account" where
  "acc_set_contribution_score s a = a\<lparr>contribution_score := Some s\<rparr>"

definition acc_get_delegated_amount :: "account \<Rightarrow> u256" where
  "acc_get_delegated_amount a = (case delegated_amount a of None \<Rightarrow> 0 | Some v \<Rightarrow> v)"

definition acc_has_delegation :: "account \<Rightarrow> bool" where
  "acc_has_delegation a \<longleftrightarrow> delegated_to a \<noteq> None \<and>
     (case delegated_amount a of None \<Rightarrow> False | Some v \<Rightarrow> \<not> u256_is_zero v)"

definition acc_set_delegation :: "address \<Rightarrow> u256 \<Rightarrow> account \<Rightarrow> account" where
  "acc_set_delegation validator amount a =
     a\<lparr>delegated_to := Some validator, delegated_amount := Some amount\<rparr>"

definition acc_clear_delegation :: "account \<Rightarrow> account" where
  "acc_clear_delegation a = a\<lparr>delegated_to := None, delegated_amount := None\<rparr>"

definition acc_add_delegated_amount :: "u256 \<Rightarrow> account \<Rightarrow> account" where
  "acc_add_delegated_amount v a =
     a\<lparr>delegated_amount := Some (u256_saturating_add (acc_get_delegated_amount a) v)\<rparr>"

definition acc_sub_delegated_amount :: "u256 \<Rightarrow> account \<Rightarrow> account option" where
  "acc_sub_delegated_amount v a =
     (let current = acc_get_delegated_amount a in
      if current \<ge> v then
        let new_amount = current - v in
        Some (if u256_is_zero new_amount then acc_clear_delegation a
              else a\<lparr>delegated_amount := Some new_amount\<rparr>)
      else None)"

definition account_of_legacy :: "legacy_account \<Rightarrow> account" where
  "account_of_legacy l = \<lparr>
     account_type = l_account_type l, balance = l_balance l, nonce = l_nonce l,
     code_hash = l_code_hash l, storage_root = l_storage_root l, stake = l_stake l,
     contribution_score = l_contribution_score l, delegated_to = l_delegated_to l,
     delegated_amount = l_delegated_amount l,
     storage_deposit = 0, last_active_epoch = 0, storage_slot_count = 0, is_dormant = False\<rparr>"

definition account_from_bytes ::
    "(bytes \<Rightarrow> string + account) \<Rightarrow> (bytes \<Rightarrow> string + legacy_account) \<Rightarrow> bytes \<Rightarrow> string + account" where
  "account_from_bytes parse parse_legacy bs =
     (case parse bs of
        Inr a \<Rightarrow> Inr a
      | Inl _ \<Rightarrow> (case parse_legacy bs of Inl e \<Rightarrow> Inl e | Inr l \<Rightarrow> Inr (account_of_legacy l)))"

section \<open>Undelegations\<close>

record undelegation =
  u_delegator :: address
  u_validator :: address
  u_amount :: u256
  u_unlock_at :: u64

definition undelegation_is_unlocked :: "undelegation \<Rightarrow> u64 \<Rightarrow> bool" where
  "undelegation_is_unlocked u current_time \<longleftrightarrow> current_time \<ge> u_unlock_at u"

definition undelegation_storage_key :: "address \<Rightarrow> address \<Rightarrow> u64 \<Rightarrow> bytes" where
  "undelegation_storage_key delegator validator unlock_at =
     address_as_bytes delegator @ address_as_bytes validator @ be_bytes 8 (unat unlock_at)"

definition delegation_storage_key :: "address \<Rightarrow> address \<Rightarrow> bytes" where
  "delegation_storage_key delegator validator = address_as_bytes delegator @ address_as_bytes validator"

section \<open>Facts\<close>

text \<open>What an account holds in total, in wei: its balance, its stake and what it delegated.\<close>

definition acc_wealth :: "account \<Rightarrow> nat" where
  "acc_wealth a = unat (balance a) + unat (acc_get_stake a) + unat (acc_get_delegated_amount a)"

lemma unat_sub_le: "b \<le> (a :: 'a::len word) \<Longrightarrow> unat (a - b) = unat a - unat b"
  by (simp add: unat_sub)

lemma acc_sub_balance_Some:
  "acc_sub_balance v a = Some b \<longleftrightarrow> v \<le> balance a \<and> b = a\<lparr>balance := balance a - v\<rparr>"
  by (auto simp: acc_sub_balance_def)

lemma wealth_sub_balance: "acc_sub_balance v a = Some b \<Longrightarrow> acc_wealth b + unat v = acc_wealth a"
  by (auto simp: acc_sub_balance_Some acc_wealth_def acc_get_stake_def acc_get_delegated_amount_def
      unat_sub_le word_le_nat_alt)

lemma wealth_add_balance:
  "unat (balance a) + unat v < 2 ^ 256 \<Longrightarrow> acc_wealth (acc_add_balance v a) = acc_wealth a + unat v"
  by (simp add: acc_wealth_def acc_add_balance_def acc_get_stake_def acc_get_delegated_amount_def
      u256_saturating_add_exact)

lemma undelegation_key_inject:
  "undelegation_storage_key d v u = undelegation_storage_key d' v' u' \<longleftrightarrow> d = d' \<and> v = v' \<and> u = u'"
proof
  assume "undelegation_storage_key d v u = undelegation_storage_key d' v' u'"
  then have "d = d'" "v = v'" "be_bytes 8 (unat u) = be_bytes 8 (unat u')"
    by (simp_all add: undelegation_storage_key_def)
  moreover from this(3) have "unat u = unat u'"
    by (rule be_bytes_inject) (use unat_u64_bound [of u] unat_u64_bound [of u'] in simp_all)
  ultimately show "d = d' \<and> v = v' \<and> u = u'" by (simp add: word_unat_eq_iff)
qed simp

end
