(* ===== verification/State_DB.thy ===== *)
theory State_DB
  imports Accounts Merkle_Proof
begin

text \<open>
  The state database of \<open>qfc-state\<close> (\<open>state_db.rs\<close>): accounts in a trie keyed by address, behind
  an LRU cache; contract storage in one trie per account; code and pending undelegations in
  column families. The borsh codecs, the LRU caches and the iteration order of a \<open>HashMap\<close> are
  parameters (\<open>state_env\<close>). Locks are dropped, since every method runs to its end before the
  next one starts, and so is the sampling of hot accounts, which only counts accesses. An error
  carries the value its message is formatted from.
\<close>

section \<open>State\<close>

type_synonym account_cache = "(address \<times> account) list"
type_synonym slots = "u256 \<Rightarrow> u256 option"
type_synonym storage_cache = "(address \<times> slots) list"
type_synonym code_cache = "(hash \<times> bytes) list"

record 'd state_env = "'d trie_env" +
  account_to_bytes :: "account \<Rightarrow> bytes"
  account_parse :: "bytes \<Rightarrow> string + account"
  legacy_account_parse :: "bytes \<Rightarrow> string + legacy_account"
  undelegation_to_bytes :: "undelegation \<Rightarrow> bytes"
  undelegation_from_bytes :: "bytes \<Rightarrow> string + undelegation"
  account_cache_get :: "account_cache \<Rightarrow> address \<Rightarrow> account option \<times> account_cache"
  account_cache_put :: "account_cache \<Rightarrow> address \<Rightarrow> account \<Rightarrow> account_cache"
  storage_cache_get :: "storage_cache \<Rightarrow> address \<Rightarrow> slots option \<times> storage_cache"
  storage_cache_put :: "storage_cache \<Rightarrow> address \<Rightarrow> slots \<Rightarrow> storage_cache"
  code_cache_get :: "code_cache \<Rightarrow> hash \<Rightarrow> bytes option \<times> code_cache"
  code_cache_put :: "code_cache \<Rightarrow> hash \<Rightarrow> bytes \<Rightarrow> code_cache"
  accounts_order :: "account_cache \<Rightarrow> account_cache"
  storage_order :: "storage_cache \<Rightarrow> storage_cache"

record 'd state_db =
  sdb_db :: 'd
  sdb_trie :: trie
  sdb_accounts :: account_cache
  sdb_storage :: storage_cache
  sdb_code :: code_cache
  sdb_root :: hash

datatype state_error =
    AccountNotFound string
  | InsufficientBalance u256 u256
  | InvalidNonce u64 u64
  | StStorage string
  | StProof trie_error
  | StTrie trie_error
  | StSerialization string

type_synonym ('d, 'a) state_op = "('d state_db, state_error, 'a) op"

definition state_new :: "'d \<Rightarrow> 'd state_db" where
  "state_new d = \<lparr>sdb_db = d, sdb_trie = trie_new, sdb_accounts = [], sdb_storage = [],
     sdb_code = [], sdb_root = hash_ZERO\<rparr>"

definition state_with_root :: "'d \<Rightarrow> hash \<Rightarrow> 'd state_db" where
  "state_with_root d root = \<lparr>sdb_db = d, sdb_trie = trie_with_root root, sdb_accounts = [],
     sdb_storage = [], sdb_code = [], sdb_root = root\<rparr>"

definition state_set_root :: "hash \<Rightarrow> 'd state_db \<Rightarrow> 'd state_db" where
  "state_set_root root st = st\<lparr>sdb_trie := trie_with_root root, sdb_root := root,
     sdb_accounts := [], sdb_storage := []\<rparr>"

section \<open>Calls into the trie and the database\<close>

definition on_trie :: "('d, 'a) trie_op \<Rightarrow> ('d, 'a) state_op" where
  "on_trie f = (\<lambda>st. case f (sdb_db st, sdb_trie st) of (r, (d, t)) \<Rightarrow>
     (map_sum (map_fault StTrie) id r, st\<lparr>sdb_db := d, sdb_trie := t\<rparr>))"

text \<open>A trie opened at a root for one sequence of calls and then dropped.\<close>

definition on_trie_at :: "hash \<Rightarrow> ('d, 'a) trie_op \<Rightarrow> ('d, 'a) state_op" where
  "on_trie_at root f = (\<lambda>st. case f (sdb_db st, trie_with_root root) of (r, (d, t)) \<Rightarrow>
     (map_sum (map_fault StTrie) id r, st\<lparr>sdb_db := d\<rparr>))"

definition on_db :: "('d, string, 'a) op \<Rightarrow> ('d, 'a) state_op" where
  "on_db f = (\<lambda>st. case f (sdb_db st) of (r, d) \<Rightarrow>
     (map_sum (map_fault StStorage) id r, st\<lparr>sdb_db := d\<rparr>))"

definition parse_account :: "('d, 'z) state_env_scheme \<Rightarrow> bytes \<Rightarrow> string + account" where
  "parse_account E = account_from_bytes (account_parse E) (legacy_account_parse E)"

section \<open>Accounts\<close>

definition get_account :: "('d, 'z) state_env_scheme \<Rightarrow> address \<Rightarrow> ('d, account) state_op" where
  "get_account E a = (\<lambda>st.
     case account_cache_get E (sdb_accounts st) a of
       (Some acc, c) \<Rightarrow> (Inr acc, st\<lparr>sdb_accounts := c\<rparr>)
     | (None, c) \<Rightarrow>
       op_bind (on_trie (trie_get E (address_as_bytes a))) (\<lambda>r. case r of
         Some bs \<Rightarrow>
           (case parse_account E bs of
              Inl e \<Rightarrow> op_fail (Err (StSerialization e))
            | Inr acc \<Rightarrow> (\<lambda>st. (Inr acc, st\<lparr>sdb_accounts := account_cache_put E (sdb_accounts st) a acc\<rparr>)))
       | None \<Rightarrow> op_ret new_eoa) (st\<lparr>sdb_accounts := c\<rparr>))"

definition set_account :: "('d, 'z) state_env_scheme \<Rightarrow> address \<Rightarrow> account \<Rightarrow> ('d, unit) state_op" where
  "set_account E a acc = (\<lambda>st.
     on_trie (trie_insert E (address_as_bytes a) (account_to_bytes E acc))
       (st\<lparr>sdb_accounts := account_cache_put E (sdb_accounts st) a acc\<rparr>))"

text \<open>Most setters read the account, change the copy and write it back.\<close>

definition modify_account :: "('d, 'z) state_env_scheme \<Rightarrow> address \<Rightarrow> (account \<Rightarrow> account) \<Rightarrow>
    ('d, unit) state_op" where
  "modify_account E a f = op_bind (get_account E a) (\<lambda>acc. set_account E a (f acc))"

definition read_account :: "('d, 'z) state_env_scheme \<Rightarrow> address \<Rightarrow> (account \<Rightarrow> 'a) \<Rightarrow> ('d, 'a) state_op" where
  "read_account E a f = op_bind (get_account E a) (\<lambda>acc. op_ret (f acc))"

definition account_exists :: "('d, 'z) state_env_scheme \<Rightarrow> address \<Rightarrow> ('d, bool) state_op" where
  "account_exists E a = read_account E a (\<lambda>acc. \<not> acc_is_empty acc)"

definition get_balance :: "('d, 'z) state_env_scheme \<Rightarrow> address \<Rightarrow> ('d, u256) state_op" where
  "get_balance E a = read_account E a balance"

definition set_balance :: "('d, 'z) state_env_scheme \<Rightarrow> address \<Rightarrow> u256 \<Rightarrow> ('d, unit) state_op" where
  "set_balance E a v = modify_account E a (\<lambda>acc. acc\<lparr>balance := v\<rparr>)"

definition add_balance :: "('d, 'z) state_env_scheme \<Rightarrow> address \<Rightarrow> u256 \<Rightarrow> ('d, unit) state_op" where
  "add_balance E a v = modify_account E a (acc_add_balance v)"

definition sub_balance :: "('d, 'z) state_env_scheme \<Rightarrow> address \<Rightarrow> u256 \<Rightarrow> ('d, unit) state_op" where
  "sub_balance E a v = op_bind (get_account E a) (\<lambda>acc. case acc_sub_balance v acc of
     None \<Rightarrow> op_fail (Err (InsufficientBalance v (balance acc)))
   | Some acc' \<Rightarrow> set_account E a acc')"

definition state_transfer :: "('d, 'z) state_env_scheme \<Rightarrow> address \<Rightarrow> address \<Rightarrow> u256 \<Rightarrow> ('d, unit) state_op" where
  "state_transfer E src dst amount =
     (if u256_is_zero amount then op_ret ()
      else op_bind (get_account E src) (\<lambda>from_account.
        if balance from_account < amount
        then op_fail (Err (InsufficientBalance amount (balance from_account)))
        else op_bind (sub_balance E src amount) (\<lambda>_. add_balance E dst amount)))"

definition get_nonce :: "('d, 'z) state_env_scheme \<Rightarrow> address \<Rightarrow> ('d, u64) state_op" where
  "get_nonce E a = read_account E a nonce"

definition set_nonce :: "('d, 'z) state_env_scheme \<Rightarrow> address \<Rightarrow> u64 \<Rightarrow> ('d, unit) state_op" where
  "set_nonce E a n = modify_account E a (\<lambda>acc. acc\<lparr>nonce := n\<rparr>)"

definition increment_nonce :: "('d, 'z) state_env_scheme \<Rightarrow> address \<Rightarrow> ('d, u64) state_op" where
  "increment_nonce E a = op_bind (get_account E a) (\<lambda>acc.
     let acc' = acc_increment_nonce acc in
     op_bind (set_account E a acc') (\<lambda>_. op_ret (nonce acc')))"

section \<open>Code\<close>

definition get_code :: "('d, 'z) state_env_scheme \<Rightarrow> address \<Rightarrow> ('d, bytes) state_op" where
  "get_code E a = op_bind (get_account E a) (\<lambda>acc. case code_hash acc of
     None \<Rightarrow> op_ret []
   | Some h \<Rightarrow> (\<lambda>st. case code_cache_get E (sdb_code st) h of
       (Some code, c) \<Rightarrow> (Inr code, st\<lparr>sdb_code := c\<rparr>)
     | (None, c) \<Rightarrow>
         op_bind (on_db (db_get E CODE h)) (\<lambda>r. case r of
           Some code \<Rightarrow> (\<lambda>st. (Inr code, st\<lparr>sdb_code := code_cache_put E (sdb_code st) h code\<rparr>))
         | None \<Rightarrow> op_ret []) (st\<lparr>sdb_code := c\<rparr>)))"

definition set_code :: "('d, 'z) state_env_scheme \<Rightarrow> address \<Rightarrow> bytes \<Rightarrow> ('d, hash) state_op" where
  "set_code E a code =
     (let h = blake3_hash E code in
      op_bind (on_db (db_put E CODE h code)) (\<lambda>_ st.
        op_bind (modify_account E a (\<lambda>acc. acc\<lparr>code_hash := Some h\<rparr>)) (\<lambda>_. op_ret h)
          (st\<lparr>sdb_code := code_cache_put E (sdb_code st) h code\<rparr>)))"

definition get_code_hash :: "('d, 'z) state_env_scheme \<Rightarrow> address \<Rightarrow> ('d, hash option) state_op" where
  "get_code_hash E a = read_account E a code_hash"

section \<open>Contract storage\<close>

text \<open>\<open>get_mut\<close> and an insertion into the entry, or a new entry.\<close>

definition cache_slot :: "('d, 'z) state_env_scheme \<Rightarrow> address \<Rightarrow> u256 \<Rightarrow> u256 \<Rightarrow> ('d, unit) state_op" where
  "cache_slot E a slot v = (\<lambda>st.
     (Inr (), st\<lparr>sdb_storage :=
        (case storage_cache_get E (sdb_storage st) a of
           (Some slots, c) \<Rightarrow> AList.update a (slots(slot \<mapsto> v)) c
         | (None, c) \<Rightarrow> storage_cache_put E c a (Map.empty(slot \<mapsto> v)))\<rparr>))"

definition root_or_zero :: "hash option \<Rightarrow> hash" where
  "root_or_zero r = (case r of None \<Rightarrow> hash_ZERO | Some h \<Rightarrow> h)"

definition load_storage :: "('d, 'z) state_env_scheme \<Rightarrow> address \<Rightarrow> u256 \<Rightarrow> ('d, u256) state_op" where
  "load_storage E a slot =
     op_bind (get_account E a) (\<lambda>acc.
       let root = root_or_zero (storage_root acc) in
       if root = hash_ZERO then op_ret 0
       else op_bind (on_trie_at root (trie_get E (u256_to_be_bytes slot))) (\<lambda>r. case r of
         Some bs \<Rightarrow>
           if length bs = 32 then
             (let v = u256_from_be_bytes bs in op_bind (cache_slot E a slot v) (\<lambda>_. op_ret v))
           else op_ret 0
       | None \<Rightarrow> op_ret 0))"

definition get_storage :: "('d, 'z) state_env_scheme \<Rightarrow> address \<Rightarrow> u256 \<Rightarrow> ('d, u256) state_op" where
  "get_storage E a slot = (\<lambda>st.
     let (r, c) = storage_cache_get E (sdb_storage st) a;
         st = st\<lparr>sdb_storage := c\<rparr> in
     case Option.bind r (\<lambda>slots. slots slot) of
       Some v \<Rightarrow> (Inr v, st)
     | None \<Rightarrow> load_storage E a slot st)"

definition write_slot :: "('d, 'z) state_env_scheme \<Rightarrow> u256 \<Rightarrow> u256 \<Rightarrow> ('d, hash) trie_op" where
  "write_slot E slot v =
     (let key = u256_to_be_bytes slot in
      op_bind (if u256_is_zero v then op_bind (trie_delete E key) (\<lambda>_. op_ret ())
               else trie_insert E key (u256_to_be_bytes v)) (\<lambda>_. trie_commit E))"

definition set_storage :: "('d, 'z) state_env_scheme \<Rightarrow> address \<Rightarrow> u256 \<Rightarrow> u256 \<Rightarrow> ('d, unit) state_op" where
  "set_storage E a slot v =
     op_bind (cache_slot E a slot v) (\<lambda>_.
     op_bind (get_account E a) (\<lambda>acc.
       op_bind (on_trie_at (root_or_zero (storage_root acc)) (write_slot E slot v)) (\<lambda>new_root.
         modify_account E a (\<lambda>acc. acc\<lparr>storage_root := (if new_root = hash_ZERO then None else Some new_root)\<rparr>))))"

section \<open>Stake, contribution and delegation\<close>

definition get_stake :: "('d, 'z) state_env_scheme \<Rightarrow> address \<Rightarrow> ('d, u256) state_op" where
  "get_stake E a = read_account E a acc_get_stake"

definition get_account_proof :: "('d, 'z) state_env_scheme \<Rightarrow> address \<Rightarrow>
    ('d, merkle_proof \<times> account) state_op" where
  "get_account_proof E a = op_bind
     (\<lambda>st. case trie_get_proof E (address_as_bytes a) (sdb_db st, sdb_trie st) of (r, (d, t)) \<Rightarrow>
        (map_sum (map_fault StProof) id r, st\<lparr>sdb_db := d, sdb_trie := t\<rparr>)) (\<lambda>prf.
     read_account E a (Pair prf))"

definition set_stake :: "('d, 'z) state_env_scheme \<Rightarrow> address \<Rightarrow> u256 \<Rightarrow> ('d, unit) state_op" where
  "set_stake E a s = modify_account E a (acc_set_stake s)"

definition get_contribution_score :: "('d, 'z) state_env_scheme \<Rightarrow> address \<Rightarrow> ('d, u64) state_op" where
  "get_contribution_score E a = read_account E a acc_get_contribution_score"

definition set_contribution_score :: "('d, 'z) state_env_scheme \<Rightarrow> address \<Rightarrow> u64 \<Rightarrow> ('d, unit) state_op" where
  "set_contribution_score E a s = modify_account E a (acc_set_contribution_score s)"

definition get_delegation :: "('d, 'z) state_env_scheme \<Rightarrow> address \<Rightarrow> ('d, address option \<times> u256) state_op" where
  "get_delegation E a = read_account E a (\<lambda>acc. (delegated_to acc, acc_get_delegated_amount acc))"

definition get_delegation_amount :: "('d, 'z) state_env_scheme \<Rightarrow> address \<Rightarrow> address \<Rightarrow> ('d, u256) state_op" where
  "get_delegation_amount E a validator = read_account E a (\<lambda>acc. case delegated_to acc of
     Some v \<Rightarrow> if v = validator then acc_get_delegated_amount acc else 0
   | None \<Rightarrow> 0)"

definition set_delegation :: "('d, 'z) state_env_scheme \<Rightarrow> address \<Rightarrow> address \<Rightarrow> u256 \<Rightarrow> ('d, unit) state_op" where
  "set_delegation E a validator amount = modify_account E a (acc_set_delegation validator amount)"

definition clear_delegation :: "('d, 'z) state_env_scheme \<Rightarrow> address \<Rightarrow> ('d, unit) state_op" where
  "clear_delegation E a = modify_account E a acc_clear_delegation"

definition add_delegation_amount :: "('d, 'z) state_env_scheme \<Rightarrow> address \<Rightarrow> u256 \<Rightarrow> ('d, unit) state_op" where
  "add_delegation_amount E a amount = modify_account E a (acc_add_delegated_amount amount)"

definition sub_delegation_amount :: "('d, 'z) state_env_scheme \<Rightarrow> address \<Rightarrow> u256 \<Rightarrow> ('d, bool) state_op" where
  "sub_delegation_amount E a amount = op_bind (get_account E a) (\<lambda>acc.
     case acc_sub_delegated_amount amount acc of
       Some acc' \<Rightarrow> op_bind (set_account E a acc') (\<lambda>_. op_ret True)
     | None \<Rightarrow> op_ret False)"

definition state_has_delegation :: "('d, 'z) state_env_scheme \<Rightarrow> address \<Rightarrow> ('d, bool) state_op" where
  "state_has_delegation E a = read_account E a acc_has_delegation"

definition get_direct_stake :: "('d, 'z) state_env_scheme \<Rightarrow> address \<Rightarrow> ('d, u256) state_op" where
  "get_direct_stake E a = get_stake E a"

text \<open>The keys of the account trie are 20 bytes, so that no path has more than 41 nodes.\<close>

definition account_trie_fuel :: nat where
  "account_trie_fuel = 41"

definition fold_accounts :: "('d, 'z) state_env_scheme \<Rightarrow> (account \<Rightarrow> u256 \<Rightarrow> u256) \<Rightarrow> ('d, u256) state_op" where
  "fold_accounts E f =
     op_bind (on_trie (trie_values E account_trie_fuel)) (\<lambda>vs.
       op_fold (\<lambda>bs total. case parse_account E bs of
           Inl e \<Rightarrow> op_fail (Err (StSerialization e))
         | Inr acc \<Rightarrow> op_ret (f acc total)) vs 0)"

definition get_total_delegated_to :: "('d, 'z) state_env_scheme \<Rightarrow> address \<Rightarrow> ('d, u256) state_op" where
  "get_total_delegated_to E validator = fold_accounts E (\<lambda>acc total.
     if delegated_to acc = Some validator
     then u256_saturating_add total (acc_get_delegated_amount acc) else total)"

definition get_total_stake :: "('d, 'z) state_env_scheme \<Rightarrow> ('d, u256) state_op" where
  "get_total_stake E = fold_accounts E (\<lambda>acc total.
     u256_saturating_add (u256_saturating_add total (acc_get_stake acc)) (acc_get_delegated_amount acc))"

section \<open>Undelegations\<close>

definition store_undelegation :: "('d, 'z) state_env_scheme \<Rightarrow> undelegation \<Rightarrow> ('d, unit) state_op" where
  "store_undelegation E u = on_db (db_put E UNDELEGATIONS
     (undelegation_storage_key (u_delegator u) (u_validator u) (u_unlock_at u))
     (undelegation_to_bytes E u))"

definition parsed_undelegations :: "('d, 'z) state_env_scheme \<Rightarrow> (bytes \<times> bytes) list \<Rightarrow> undelegation list" where
  "parsed_undelegations E xs =
     List.map_filter (\<lambda>(k, v). case undelegation_from_bytes E v of Inl e \<Rightarrow> None | Inr u \<Rightarrow> Some u) xs"

definition starts_with :: "bytes \<Rightarrow> bytes \<Rightarrow> bool" where
  "starts_with k p \<longleftrightarrow> take (length p) k = p"

definition get_undelegations :: "('d, 'z) state_env_scheme \<Rightarrow> address \<Rightarrow> ('d, undelegation list) state_op" where
  "get_undelegations E a =
     (let p = address_as_bytes a in
      op_bind (on_db (db_iter_from E UNDELEGATIONS p)) (\<lambda>xs.
        op_ret (parsed_undelegations E (takeWhile (\<lambda>(k, v). starts_with k p) xs))))"

definition get_mature_undelegations :: "('d, 'z) state_env_scheme \<Rightarrow> u64 \<Rightarrow> ('d, undelegation list) state_op" where
  "get_mature_undelegations E current_time =
     op_bind (on_db (db_iter E UNDELEGATIONS)) (\<lambda>xs.
       op_ret (filter (\<lambda>u. undelegation_is_unlocked u current_time) (parsed_undelegations E xs)))"

definition delete_undelegation :: "('d, 'z) state_env_scheme \<Rightarrow> address \<Rightarrow> address \<Rightarrow> u64 \<Rightarrow> ('d, unit) state_op" where
  "delete_undelegation E delegator validator unlock_at =
     on_db (db_delete E UNDELEGATIONS (undelegation_storage_key delegator validator unlock_at))"

section \<open>Commit, snapshot and revert\<close>

definition state_commit :: "('d, 'z) state_env_scheme \<Rightarrow> ('d, hash) state_op" where
  "state_commit E = op_bind (on_trie (trie_commit E)) (\<lambda>new_root st. (Inr new_root, st\<lparr>sdb_root := new_root\<rparr>))"

definition clear_cache :: "'d state_db \<Rightarrow> 'd state_db" where
  "clear_cache st = st\<lparr>sdb_accounts := [], sdb_storage := []\<rparr>"

record state_snapshot =
  snap_root :: hash
  snap_accounts :: account_cache
  snap_storage :: storage_cache

definition snapshot :: "'d state_db \<Rightarrow> state_snapshot" where
  "snapshot st = \<lparr>snap_root = sdb_root st, snap_accounts = sdb_accounts st, snap_storage = sdb_storage st\<rparr>"

definition rebuild_cache :: "('c list \<Rightarrow> 'k \<Rightarrow> 'v \<Rightarrow> 'c list) \<Rightarrow> ('k \<times> 'v) list \<Rightarrow> 'c list" where
  "rebuild_cache put xs = foldl (\<lambda>c (k, v). put c k v) [] xs"

definition revert :: "('d, 'z) state_env_scheme \<Rightarrow> state_snapshot \<Rightarrow> 'd state_db \<Rightarrow> 'd state_db" where
  "revert E sn st = st\<lparr>
     sdb_root := snap_root sn,
     sdb_accounts := rebuild_cache (account_cache_put E) (accounts_order E (snap_accounts sn)),
     sdb_storage := rebuild_cache (storage_cache_put E) (storage_order E (snap_storage sn)),
     sdb_trie := trie_with_root (snap_root sn)\<rparr>"

text \<open>\<open>Clone\<close> iterates the caches themselves, from the most recently used entry on.\<close>

definition state_clone :: "('d, 'z) state_env_scheme \<Rightarrow> 'd state_db \<Rightarrow> 'd state_db" where
  "state_clone E st = \<lparr>
     sdb_db = sdb_db st,
     sdb_trie = trie_with_root (sdb_root st),
     sdb_accounts = rebuild_cache (account_cache_put E) (sdb_accounts st),
     sdb_storage = rebuild_cache (storage_cache_put E) (sdb_storage st),
     sdb_code = rebuild_cache (code_cache_put E) (sdb_code st),
     sdb_root = sdb_root st\<rparr>"

end
