(* ===== verification/Crypto.thy ===== *)
theory Crypto
  imports Storage
begin

text \<open>
  \<open>qfc-crypto\<close>: hashing of several items, the Merkle root of a list of hashes, addresses derived
  from keys and contracts, signature checks and the VRF built from signatures. BLAKE3 is the
  parameter \<open>H\<close>, on which feeding items one after the other is hashing their concatenation;
  Ed25519 is the record \<open>ed25519\<close>.
\<close>

section \<open>Hashing\<close>

definition blake3_hash_many :: "(bytes \<Rightarrow> hash) \<Rightarrow> bytes list \<Rightarrow> hash" where
  "blake3_hash_many H items = H (concat items)"

definition domain_hash :: "(bytes \<Rightarrow> hash) \<Rightarrow> bytes \<Rightarrow> bytes \<Rightarrow> hash" where
  "domain_hash H domain dat = H (domain @ [0] @ dat)"

text \<open>One round of the \<open>while\<close> loop, over the chunks of two.\<close>

fun merkle_level :: "(bytes \<Rightarrow> hash) \<Rightarrow> hash list \<Rightarrow> hash list" where
  "merkle_level H [] = []"
| "merkle_level H [a] = [blake3_hash_many H [a, a]]"
| "merkle_level H (a # b # r) = blake3_hash_many H [a, b] # merkle_level H r"

lemma length_merkle_level [simp]: "length (merkle_level H xs) = (length xs + 1) div 2"
  by (induction H xs rule: merkle_level.induct) simp_all

function merkle_loop :: "(bytes \<Rightarrow> hash) \<Rightarrow> hash list \<Rightarrow> hash" where
  "merkle_loop H level = (if length level > 1 then merkle_loop H (merkle_level H level) else level ! 0)"
  by pat_completeness auto
termination
  by (relation "measure (\<lambda>(H, level). length level)") auto

declare merkle_loop.simps [simp del]

definition merkle_root :: "(bytes \<Rightarrow> hash) \<Rightarrow> hash list \<Rightarrow> hash" where
  "merkle_root H hashes =
     (if hashes = [] then hash_ZERO
      else if length hashes = 1 then hashes ! 0
      else merkle_loop H hashes)"

section \<open>Addresses\<close>

definition address_new :: "bytes \<Rightarrow> address" where
  "address_new bs = of_nat (be_nat bs)"

definition address_of_hash :: "hash \<Rightarrow> address" where
  "address_of_hash h = address_new (take 20 (drop 12 h))"

definition address_from_public_key :: "(bytes \<Rightarrow> hash) \<Rightarrow> bytes \<Rightarrow> address" where
  "address_from_public_key H pk = address_of_hash (H pk)"

definition contract_address :: "(bytes \<Rightarrow> hash) \<Rightarrow> address \<Rightarrow> u64 \<Rightarrow> address" where
  "contract_address H deployer n =
     address_of_hash (H ([0xff] @ address_as_bytes deployer @ rev (be_bytes 8 (unat n))))"

definition create2_address :: "(bytes \<Rightarrow> hash) \<Rightarrow> address \<Rightarrow> bytes \<Rightarrow> hash \<Rightarrow> address" where
  "create2_address H deployer salt init_code_hash =
     address_of_hash (H ([0xff] @ address_as_bytes deployer @ salt @ init_code_hash))"

definition is_valid_address :: "address \<Rightarrow> bool" where
  "is_valid_address a \<longleftrightarrow> a \<noteq> 0"

section \<open>Signatures and the VRF\<close>

datatype crypto_error = CrInvalidSignature | InvalidPublicKey | InvalidSecretKey | InvalidVrfProof
  | VerificationFailed | KeyGenerationFailed string | SerializationError string

record ed25519 =
  ed_key_valid :: "bytes \<Rightarrow> bool"
  ed_verify :: "bytes \<Rightarrow> bytes \<Rightarrow> bytes \<Rightarrow> bool"

definition verify_signature :: "'z ed25519_scheme \<Rightarrow> bytes \<Rightarrow> bytes \<Rightarrow> bytes \<Rightarrow> crypto_error + unit" where
  "verify_signature ed pk message sig =
     (if \<not> ed_key_valid ed pk then Inl InvalidPublicKey
      else if ed_verify ed pk message sig then Inr () else Inl VerificationFailed)"

definition verify_hash_signature :: "'z ed25519_scheme \<Rightarrow> bytes \<Rightarrow> hash \<Rightarrow> bytes \<Rightarrow> crypto_error + unit" where
  "verify_hash_signature ed pk h sig = verify_signature ed pk h sig"

definition is_valid_hash_signature :: "'z ed25519_scheme \<Rightarrow> bytes \<Rightarrow> hash \<Rightarrow> bytes \<Rightarrow> bool" where
  "is_valid_hash_signature ed pk h sig \<longleftrightarrow> verify_hash_signature ed pk h sig = Inr ()"

record vrf_proof =
  vrf_output :: bytes
  vrf_sig :: bytes

definition vrf_prove :: "(bytes \<Rightarrow> hash) \<Rightarrow> (bytes \<Rightarrow> bytes) \<Rightarrow> bytes \<Rightarrow> vrf_proof" where
  "vrf_prove H sign input = (let s = sign input in \<lparr>vrf_output = H s, vrf_sig = s\<rparr>)"

definition vrf_verify :: "(bytes \<Rightarrow> hash) \<Rightarrow> 'z ed25519_scheme \<Rightarrow> bytes \<Rightarrow> bytes \<Rightarrow> vrf_proof \<Rightarrow> crypto_error + bytes" where
  "vrf_verify H ed pk input p =
     (case verify_signature ed pk input (vrf_sig p) of
        Inl e \<Rightarrow> Inl e
      | Inr _ \<Rightarrow> if H (vrf_sig p) \<noteq> vrf_output p then Inl InvalidVrfProof else Inr (vrf_output p))"

section \<open>Properties\<close>

lemma merkle_level_append_last:
  "odd (length xs) \<Longrightarrow> merkle_level H (xs @ [last xs]) = merkle_level H xs"
  by (induction H xs rule: merkle_level.induct) (auto simp: blake3_hash_many_def)



text \<open>a VRF proof made with a key is accepted for the input it was made for, and whatever proof
  is accepted, the output is the hash of a valid signature of the input.\<close>

theorem vrf_verify_iff:
  "(ed_key_valid ed pk \<and> ed_verify ed pk input (sign input) \<longrightarrow>
      vrf_verify H ed pk input (vrf_prove H sign input) = Inr (H (sign input))) \<and>
   (vrf_verify H ed pk input p = Inr out \<longleftrightarrow>
      ed_key_valid ed pk \<and> ed_verify ed pk input (vrf_sig p) \<and> out = H (vrf_sig p) \<and> vrf_output p = out)"
  by (auto simp: vrf_verify_def vrf_prove_def verify_signature_def Let_def split: if_splits)

theorem vrf_verify_iff_witness:
  "vrf_verify (\<lambda>b. 7 # b) \<lparr>ed_key_valid = (\<lambda>k. True), ed_verify = (\<lambda>k m s. s = k @ m)\<rparr> [1] [2]
     (vrf_prove (\<lambda>b. 7 # b) (\<lambda>m. [1] @ m) [2]) = Inr [7, 1, 2]"
  using vrf_verify_iff [of "\<lparr>ed_key_valid = (\<lambda>k. True), ed_verify = (\<lambda>k m s. s = k @ m)\<rparr>" "[1]" "[2]"
      "\<lambda>m. [1] @ m" "\<lambda>b. 7 # b" "\<lparr>vrf_output = [], vrf_sig = []\<rparr>" "[]"] by simp

end
