(* ===== verification/Receipts.thy ===== *)
theory Receipts
  imports Crypto
begin

text \<open>
  Receipts, logs and the Bloom filter over logs (\<open>receipt.rs\<close> in \<open>qfc-types\<close>). A filter is 256
  bytes; BLAKE3 is the parameter \<open>H\<close>. A digest is 32 bytes in the program; a byte past the end of
  a shorter digest counts as zero here.
\<close>

unbundle bit_operations_syntax

section \<open>Bloom filter\<close>

type_synonym bloom = "u8 list"

definition bloom_ZERO :: bloom where
  "bloom_ZERO = replicate 256 0"

definition digest_byte :: "hash \<Rightarrow> nat \<Rightarrow> u8" where
  "digest_byte h i = (if i < length h then h ! i else 0)"

definition bloom_bit_index :: "hash \<Rightarrow> nat \<Rightarrow> nat" where
  "bloom_bit_index h i =
     unat (((push_bit 8 (ucast (digest_byte h (i * 2))) :: u64) OR ucast (digest_byte h (i * 2 + 1))) AND 2047)"

definition bloom_set :: "nat \<Rightarrow> bloom \<Rightarrow> bloom" where
  "bloom_set bit_index b =
     (let byte_index = bit_index div 8; bit_position = bit_index mod 8 in
      b[byte_index := (b ! byte_index) OR push_bit bit_position 1])"

definition bloom_accrue :: "(bytes \<Rightarrow> hash) \<Rightarrow> bytes \<Rightarrow> bloom \<Rightarrow> bloom" where
  "bloom_accrue H dat b = fold (\<lambda>i. bloom_set (bloom_bit_index (H dat) i)) [0, 1, 2] b"

definition bloom_contains :: "(bytes \<Rightarrow> hash) \<Rightarrow> bytes \<Rightarrow> bloom \<Rightarrow> bool" where
  "bloom_contains H dat b = list_all (\<lambda>i.
     let bit_index = bloom_bit_index (H dat) i in
     (b ! (bit_index div 8)) AND push_bit (bit_index mod 8) 1 \<noteq> 0) [0, 1, 2]"

definition accrue_bloom :: "bloom \<Rightarrow> bloom \<Rightarrow> bloom" where
  "accrue_bloom other b = map (\<lambda>i. (b ! i) OR (other ! i)) [0..<256]"

definition bloom_is_empty :: "bloom \<Rightarrow> bool" where
  "bloom_is_empty b = list_all (\<lambda>x. x = 0) b"

section \<open>Logs and receipts\<close>

record log =
  log_address :: address
  log_topics :: "hash list"
  log_data :: bytes

definition log_bloom :: "(bytes \<Rightarrow> hash) \<Rightarrow> log \<Rightarrow> bloom" where
  "log_bloom H l = fold (\<lambda>t. bloom_accrue H t) (log_topics l)
     (bloom_accrue H (address_as_bytes (log_address l)) bloom_ZERO)"

definition create_bloom :: "(bytes \<Rightarrow> hash) \<Rightarrow> log list \<Rightarrow> bloom" where
  "create_bloom H logs = fold (\<lambda>l. accrue_bloom (log_bloom H l)) logs bloom_ZERO"

text \<open>The message of a failure is the error it is formatted from.\<close>

datatype 'e receipt_status = RSuccess | RFailure 'e | ROutOfGas | RReverted

definition status_is_success :: "'e receipt_status \<Rightarrow> bool" where
  "status_is_success s = (case s of RSuccess \<Rightarrow> True | _ \<Rightarrow> False)"

definition status_code :: "'e receipt_status \<Rightarrow> u8" where
  "status_code s = (if status_is_success s then 1 else 0)"

record 'e receipt =
  r_tx_hash :: hash
  r_tx_index :: u32
  r_status :: "'e receipt_status"
  r_cumulative_gas_used :: u64
  r_gas_used :: u64
  r_logs :: "log list"
  r_logs_bloom :: bloom
  r_contract_address :: "address option"

definition receipt_success :: "hash \<Rightarrow> u32 \<Rightarrow> u64 \<Rightarrow> u64 \<Rightarrow> 'e receipt" where
  "receipt_success h i gas cum = \<lparr>r_tx_hash = h, r_tx_index = i, r_status = RSuccess,
     r_cumulative_gas_used = cum, r_gas_used = gas, r_logs = [], r_logs_bloom = bloom_ZERO,
     r_contract_address = None\<rparr>"

definition receipt_failure :: "hash \<Rightarrow> u32 \<Rightarrow> u64 \<Rightarrow> u64 \<Rightarrow> 'e \<Rightarrow> 'e receipt" where
  "receipt_failure h i gas cum e = \<lparr>r_tx_hash = h, r_tx_index = i, r_status = RFailure e,
     r_cumulative_gas_used = cum, r_gas_used = gas, r_logs = [], r_logs_bloom = bloom_ZERO,
     r_contract_address = None\<rparr>"

definition receipt_add_log :: "(bytes \<Rightarrow> hash) \<Rightarrow> log \<Rightarrow> 'e receipt \<Rightarrow> 'e receipt" where
  "receipt_add_log H l r = r\<lparr>r_logs_bloom := accrue_bloom (log_bloom H l) (r_logs_bloom r), r_logs := r_logs r @ [l]\<rparr>"

definition receipt_compute_bloom :: "(bytes \<Rightarrow> hash) \<Rightarrow> 'e receipt \<Rightarrow> 'e receipt" where
  "receipt_compute_bloom H r = r\<lparr>r_logs_bloom := fold (\<lambda>l. accrue_bloom (log_bloom H l)) (r_logs r) bloom_ZERO\<rparr>"

section \<open>The filter has no false negatives\<close>

definition bloom_le :: "bloom \<Rightarrow> bloom \<Rightarrow> bool" where
  "bloom_le b b' \<longleftrightarrow> length b = 256 \<and> length b' = 256 \<and>
     (\<forall>i < 256. \<forall>n. bit (b ! i) n \<longrightarrow> bit (b' ! i) n)"

lemma bloom_le_refl: "length b = 256 \<Longrightarrow> bloom_le b b"
  by (simp add: bloom_le_def)

lemma bloom_le_trans: "bloom_le a b \<Longrightarrow> bloom_le b c \<Longrightarrow> bloom_le a c"
  by (simp add: bloom_le_def)

lemma bloom_bit_index_bound: "bloom_bit_index h i < 2048"
proof -
  have "unat (x AND 2047 :: u64) \<le> unat (2047 :: u64)" for x
    by (metis word_and_le1 word_le_nat_alt)
  then show ?thesis unfolding bloom_bit_index_def by (simp add: le_imp_less_Suc [of _ 2047, simplified])
qed

lemma bloom_contains_iff:
  "bloom_contains H x b \<longleftrightarrow> (\<forall>i\<in>{0,1,2}. bit (b ! (bloom_bit_index (H x) i div 8)) (bloom_bit_index (H x) i mod 8))"
  by (simp add: bloom_contains_def Let_def bit_iff_and_push_bit_not_eq_0)

lemma bloom_contains_mono:
  assumes "bloom_le b b'" "bloom_contains H x b"
  shows "bloom_contains H x b'"
proof -
  have "bloom_bit_index (H x) i div 8 < 256" for i
    using bloom_bit_index_bound [of "H x" i] by (simp add: less_mult_imp_div_less)
  then show ?thesis using assms unfolding bloom_contains_iff bloom_le_def by blast
qed

lemma bloom_set_le:
  assumes "length b = 256" "k < 2048"
  shows "bloom_le b (bloom_set k b)" "bit (bloom_set k b ! (k div 8)) (k mod 8)"
  using assms by (auto simp: bloom_le_def bloom_set_def Let_def nth_list_update bit_simps)

lemma bloom_accrue_le:
  assumes "length b = 256"
  shows "bloom_le b (bloom_accrue H x b)" "bloom_contains H x (bloom_accrue H x b)"
proof -
  define k where "k = bloom_bit_index (H x)"
  have k: "k i < 2048" "k i div 8 < 256" for i
    using bloom_bit_index_bound [of "H x" i] by (simp_all add: k_def less_mult_imp_div_less)
  define b0 where "b0 = bloom_set (k 0) b"
  define b1 where "b1 = bloom_set (k 1) b0"
  define b2 where "b2 = bloom_set (k 2) b1"
  have b2: "bloom_accrue H x b = b2" by (simp add: bloom_accrue_def b0_def b1_def b2_def k_def)
  have 0: "bloom_le b b0" "bit (b0 ! (k 0 div 8)) (k 0 mod 8)"
    using bloom_set_le [OF assms k(1)] by (simp_all add: b0_def)
  have 1: "bloom_le b0 b1" "bit (b1 ! (k 1 div 8)) (k 1 mod 8)"
    using bloom_set_le [of b0 "k 1"] k 0 by (simp_all add: b1_def bloom_le_def)
  have 2: "bloom_le b1 b2" "bit (b2 ! (k 2 div 8)) (k 2 mod 8)"
    using bloom_set_le [of b1 "k 2"] k 1 by (simp_all add: b2_def bloom_le_def)
  show "bloom_le b (bloom_accrue H x b)" unfolding b2 using 0 1 2 bloom_le_trans by blast
  have "bit (b2 ! (k i div 8)) (k i mod 8)" if "i \<in> {0, 1, 2}" for i
    using that 0 1 2 k(2) by (auto simp: bloom_le_def)
  then show "bloom_contains H x (bloom_accrue H x b)" unfolding bloom_contains_iff b2 k_def by blast
qed

lemma accrue_bloom_le:
  assumes "length b = 256" "length o' = 256"
  shows "bloom_le b (accrue_bloom o' b)" "bloom_le o' (accrue_bloom o' b)"
  using assms by (simp_all add: bloom_le_def accrue_bloom_def bit_simps)

lemma fold_accrue:
  assumes "length b = 256"
  shows "bloom_le b (fold (\<lambda>t. bloom_accrue H t) ts b) \<and>
         (\<forall>t \<in> set ts. bloom_contains H t (fold (\<lambda>t. bloom_accrue H t) ts b))"
  using assms
proof (induction ts arbitrary: b)
  case (Cons t ts)
  note acc = bloom_accrue_le [OF Cons.prems, of H t]
  have "length (bloom_accrue H t b) = 256" using acc(1) by (simp add: bloom_le_def)
  note ih = Cons.IH [OF this]
  have "bloom_contains H t (fold (\<lambda>t. bloom_accrue H t) ts (bloom_accrue H t b))"
    using ih [THEN conjunct1] acc(2) by (rule bloom_contains_mono)
  then show ?case using ih bloom_le_trans [OF acc(1) ih [THEN conjunct1]] by simp
qed (simp add: bloom_le_refl)

lemma log_bloom_contains:
  "length (log_bloom H l) = 256"
  "bloom_contains H (address_as_bytes (log_address l)) (log_bloom H l)"
  "t \<in> set (log_topics l) \<Longrightarrow> bloom_contains H t (log_bloom H l)"
proof -
  let ?a = "address_as_bytes (log_address l)"
  have z: "length bloom_ZERO = 256" by (simp add: bloom_ZERO_def)
  note acc = bloom_accrue_le [OF z, of H ?a]
  then have len: "length (bloom_accrue H ?a bloom_ZERO) = 256" by (simp add: bloom_le_def)
  note f = fold_accrue [OF len, of H "log_topics l"]
  show "length (log_bloom H l) = 256" using f by (simp add: log_bloom_def bloom_le_def)
  show "bloom_contains H ?a (log_bloom H l)"
    unfolding log_bloom_def using f acc(2) bloom_contains_mono by blast
  show "t \<in> set (log_topics l) \<Longrightarrow> bloom_contains H t (log_bloom H l)"
    using f by (simp add: log_bloom_def)
qed

lemma fold_logs_le:
  assumes "length b = 256"
  shows "bloom_le b (fold (\<lambda>l. accrue_bloom (log_bloom H l)) logs b) \<and>
         (\<forall>l \<in> set logs. bloom_le (log_bloom H l) (fold (\<lambda>l. accrue_bloom (log_bloom H l)) logs b))"
  using assms
proof (induction logs arbitrary: b)
  case (Cons l logs)
  note acc = accrue_bloom_le [OF Cons.prems log_bloom_contains(1) [of H l]]
  have "length (accrue_bloom (log_bloom H l) b) = 256" using acc(1) by (simp add: bloom_le_def)
  note ih = Cons.IH [OF this]
  then show ?case using acc bloom_le_trans by auto
qed (simp add: bloom_le_refl)

text \<open>C38: the Bloom filter of a list of logs has no false negatives: it contains the address and
  every topic of every log in the list.\<close>

theorem create_bloom_complete:
  assumes "l \<in> set logs" "x = address_as_bytes (log_address l) \<or> x \<in> set (log_topics l)"
  shows "bloom_contains H x (create_bloom H logs)"
proof -
  have "bloom_le (log_bloom H l) (create_bloom H logs)"
    using fold_logs_le [of bloom_ZERO H logs] assms(1) by (simp add: create_bloom_def bloom_ZERO_def)
  moreover have "bloom_contains H x (log_bloom H l)" using assms(2) log_bloom_contains by blast
  ultimately show ?thesis by (rule bloom_contains_mono)
qed

theorem create_bloom_complete_witness:
  "bloom_contains (\<lambda>b. 7 # b) [1, 2] (create_bloom (\<lambda>b. 7 # b)
     [\<lparr>log_address = 5, log_topics = [[9], [1, 2]], log_data = []\<rparr>])"
  by (rule create_bloom_complete [of "\<lparr>log_address = 5, log_topics = [[9], [1, 2]], log_data = []\<rparr>"]) simp_all

end
