(* ===== verification/Transactions.thy ===== *)
theory Transactions
  imports Storage
begin

text \<open>
  Transactions (\<open>transaction.rs\<close> in \<open>qfc-types\<close>): the record, its constructors, the gas it is
  charged before execution and its maximal cost. \<open>u64\<close> additions wrap, as they do in the release
  build; the \<open>U256\<close> operators panic, so \<open>gas_cost\<close> and \<open>total_cost\<close> are optional.
\<close>

section \<open>Transactions\<close>

datatype tx_type = Transfer | ContractCreate | ContractCall | Stake | Unstake | ValidatorRegister
  | ValidatorExit | Delegate | Undelegate | ClaimDelegationRewards | InferenceTask

definition tx_type_from_u8 :: "u8 \<Rightarrow> tx_type" where
  "tx_type_from_u8 v =
     (if v = 0 then Transfer else if v = 1 then ContractCreate else if v = 2 then ContractCall
      else if v = 3 then Stake else if v = 4 then Unstake else if v = 5 then ValidatorRegister
      else if v = 6 then ValidatorExit else if v = 7 then Delegate else if v = 8 then Undelegate
      else if v = 9 then ClaimDelegationRewards else if v = 10 then InferenceTask else Transfer)"

record transaction =
  tx_type :: tx_type
  tx_chain_id :: u64
  tx_nonce :: u64
  tx_to :: "address option"
  tx_value :: u256
  tx_data :: bytes
  tx_gas_limit :: u64
  tx_gas_price :: u256
  tx_public_key :: bytes
  tx_signature :: bytes

definition DEFAULT_CHAIN_ID :: u64 where "DEFAULT_CHAIN_ID = 9000"
definition MIN_GAS_PRICE :: u64 where "MIN_GAS_PRICE = 1000000000"
definition PUBLIC_KEY_ZERO :: bytes where "PUBLIC_KEY_ZERO = replicate 32 0"
definition SIGNATURE_ZERO :: bytes where "SIGNATURE_ZERO = replicate 64 0"

definition tx_default :: transaction where
  "tx_default = \<lparr>tx_type = Transfer, tx_chain_id = DEFAULT_CHAIN_ID, tx_nonce = 0, tx_to = None,
     tx_value = 0, tx_data = [], tx_gas_limit = MINIMUM_GAS,
     tx_gas_price = u256_from_u64 MIN_GAS_PRICE,
     tx_public_key = PUBLIC_KEY_ZERO, tx_signature = SIGNATURE_ZERO\<rparr>"

definition tx_transfer :: "address \<Rightarrow> u256 \<Rightarrow> u64 \<Rightarrow> u256 \<Rightarrow> transaction" where
  "tx_transfer to v n gp = \<lparr>tx_type = Transfer, tx_chain_id = DEFAULT_CHAIN_ID, tx_nonce = n,
     tx_to = Some to, tx_value = v, tx_data = [], tx_gas_limit = TRANSFER_GAS, tx_gas_price = gp,
     tx_public_key = PUBLIC_KEY_ZERO, tx_signature = SIGNATURE_ZERO\<rparr>"

definition tx_contract_create :: "bytes \<Rightarrow> u256 \<Rightarrow> u64 \<Rightarrow> u64 \<Rightarrow> u256 \<Rightarrow> transaction" where
  "tx_contract_create code v n gl gp = \<lparr>tx_type = ContractCreate, tx_chain_id = DEFAULT_CHAIN_ID,
     tx_nonce = n, tx_to = None, tx_value = v, tx_data = code, tx_gas_limit = gl,
     tx_gas_price = gp, tx_public_key = PUBLIC_KEY_ZERO, tx_signature = SIGNATURE_ZERO\<rparr>"

definition tx_contract_call :: "address \<Rightarrow> bytes \<Rightarrow> u256 \<Rightarrow> u64 \<Rightarrow> u64 \<Rightarrow> u256 \<Rightarrow> transaction" where
  "tx_contract_call to dat v n gl gp = \<lparr>tx_type = ContractCall, tx_chain_id = DEFAULT_CHAIN_ID,
     tx_nonce = n, tx_to = Some to, tx_value = v, tx_data = dat, tx_gas_limit = gl,
     tx_gas_price = gp, tx_public_key = PUBLIC_KEY_ZERO, tx_signature = SIGNATURE_ZERO\<rparr>"

definition tx_stake :: "u256 \<Rightarrow> u64 \<Rightarrow> u256 \<Rightarrow> transaction" where
  "tx_stake amount n gp = \<lparr>tx_type = Stake, tx_chain_id = DEFAULT_CHAIN_ID, tx_nonce = n,
     tx_to = None, tx_value = amount, tx_data = [], tx_gas_limit = MINIMUM_GAS * 2,
     tx_gas_price = gp, tx_public_key = PUBLIC_KEY_ZERO, tx_signature = SIGNATURE_ZERO\<rparr>"

definition tx_unstake :: "u256 \<Rightarrow> u64 \<Rightarrow> u256 \<Rightarrow> transaction" where
  "tx_unstake amount n gp = \<lparr>tx_type = Unstake, tx_chain_id = DEFAULT_CHAIN_ID, tx_nonce = n,
     tx_to = None, tx_value = 0, tx_data = u256_to_be_bytes amount,
     tx_gas_limit = MINIMUM_GAS * 2, tx_gas_price = gp,
     tx_public_key = PUBLIC_KEY_ZERO, tx_signature = SIGNATURE_ZERO\<rparr>"

definition tx_delegate :: "address \<Rightarrow> u256 \<Rightarrow> u64 \<Rightarrow> u256 \<Rightarrow> transaction" where
  "tx_delegate validator amount n gp = \<lparr>tx_type = Delegate, tx_chain_id = DEFAULT_CHAIN_ID,
     tx_nonce = n, tx_to = Some validator, tx_value = amount, tx_data = [],
     tx_gas_limit = MINIMUM_GAS * 3, tx_gas_price = gp,
     tx_public_key = PUBLIC_KEY_ZERO, tx_signature = SIGNATURE_ZERO\<rparr>"

definition tx_undelegate :: "address \<Rightarrow> u256 \<Rightarrow> u64 \<Rightarrow> u256 \<Rightarrow> transaction" where
  "tx_undelegate validator amount n gp = \<lparr>tx_type = Undelegate, tx_chain_id = DEFAULT_CHAIN_ID,
     tx_nonce = n, tx_to = Some validator, tx_value = 0, tx_data = u256_to_be_bytes amount,
     tx_gas_limit = MINIMUM_GAS * 3, tx_gas_price = gp,
     tx_public_key = PUBLIC_KEY_ZERO, tx_signature = SIGNATURE_ZERO\<rparr>"

definition tx_claim_delegation_rewards :: "address option \<Rightarrow> u64 \<Rightarrow> u256 \<Rightarrow> transaction" where
  "tx_claim_delegation_rewards validator n gp = \<lparr>tx_type = ClaimDelegationRewards,
     tx_chain_id = DEFAULT_CHAIN_ID, tx_nonce = n, tx_to = validator, tx_value = 0, tx_data = [],
     tx_gas_limit = MINIMUM_GAS * 2, tx_gas_price = gp,
     tx_public_key = PUBLIC_KEY_ZERO, tx_signature = SIGNATURE_ZERO\<rparr>"

definition tx_inference_task :: "bytes \<Rightarrow> u256 \<Rightarrow> u64 \<Rightarrow> u64 \<Rightarrow> u256 \<Rightarrow> transaction" where
  "tx_inference_task dat v n gl gp = \<lparr>tx_type = InferenceTask, tx_chain_id = DEFAULT_CHAIN_ID,
     tx_nonce = n, tx_to = None, tx_value = v, tx_data = dat, tx_gas_limit = gl,
     tx_gas_price = gp, tx_public_key = PUBLIC_KEY_ZERO, tx_signature = SIGNATURE_ZERO\<rparr>"

definition tx_sign :: "bytes \<Rightarrow> bytes \<Rightarrow> transaction \<Rightarrow> transaction" where
  "tx_sign pk sig tx = tx\<lparr>tx_public_key := pk, tx_signature := sig\<rparr>"

definition tx_set_signature :: "bytes \<Rightarrow> transaction \<Rightarrow> transaction" where
  "tx_set_signature sig tx = tx\<lparr>tx_signature := sig\<rparr>"

text \<open>\<open>to_bytes_without_signature\<close> serializes this copy of the transaction; borsh is a parameter.\<close>

record unsigned_transaction =
  utx_type :: tx_type
  utx_chain_id :: u64
  utx_nonce :: u64
  utx_to :: "address option"
  utx_value :: u256
  utx_data :: bytes
  utx_gas_limit :: u64
  utx_gas_price :: u256
  utx_public_key :: bytes

definition unsigned_tx :: "transaction \<Rightarrow> unsigned_transaction" where
  "unsigned_tx tx = \<lparr>utx_type = tx_type tx, utx_chain_id = tx_chain_id tx, utx_nonce = tx_nonce tx,
     utx_to = tx_to tx, utx_value = tx_value tx, utx_data = tx_data tx,
     utx_gas_limit = tx_gas_limit tx, utx_gas_price = tx_gas_price tx,
     utx_public_key = tx_public_key tx\<rparr>"

record signed_transaction =
  stx_tx :: transaction
  stx_hash :: hash
  stx_sender :: address

section \<open>Costs\<close>

definition gas_cost :: "transaction \<Rightarrow> u256 option" where
  "gas_cost tx = u256_mul (tx_gas_price tx) (u256_from_u64 (tx_gas_limit tx))"

definition total_cost :: "transaction \<Rightarrow> u256 option" where
  "total_cost tx = Option.bind (gas_cost tx) (u256_add (tx_value tx))"

definition is_contract_create :: "transaction \<Rightarrow> bool" where
  "is_contract_create tx \<longleftrightarrow> tx_type tx = ContractCreate"

definition data_gas :: "transaction \<Rightarrow> u64" where
  "data_gas tx = foldl (\<lambda>gas byte. if byte = 0 then gas + GAS_PER_ZERO_BYTE else gas + GAS_PER_BYTE)
                       0 (tx_data tx)"

definition intrinsic_gas :: "transaction \<Rightarrow> u64" where
  "intrinsic_gas tx =
     (let base = if is_contract_create tx then CONTRACT_CREATE_GAS else TRANSFER_GAS
      in base + data_gas tx)"

section \<open>The charged gas\<close>

definition byte_gas :: "u8 \<Rightarrow> nat" where
  "byte_gas b = (if b = 0 then 4 else 16)"

lemma byte_gas_le: "byte_gas b \<le> 16"
  by (simp add: byte_gas_def)

lemma sum_byte_gas_le: "(\<Sum>b\<leftarrow>bs. byte_gas b) \<le> 16 * length bs"
proof (induction bs)
  case (Cons b bs)
  then show ?case using byte_gas_le [of b] by simp
qed simp

lemma unat_u64_add: "unat (a :: u64) + k < 2 ^ 64 \<Longrightarrow> unat (a + of_nat k) = unat a + k"
  by (simp add: unat_word_ariths unat_of_nat)

lemma data_gas_foldl:
  assumes "unat g + (\<Sum>b\<leftarrow>bs. byte_gas b) < 2 ^ 64"
  shows "unat (foldl (\<lambda>gas byte. if byte = 0 then gas + GAS_PER_ZERO_BYTE else gas + GAS_PER_BYTE) g bs) =
         unat g + (\<Sum>b\<leftarrow>bs. byte_gas b)"
  using assms
proof (induction bs arbitrary: g)
  case (Cons b bs)
  have "unat (g + (if b = 0 then GAS_PER_ZERO_BYTE else GAS_PER_BYTE)) = unat g + byte_gas b"
    using Cons.prems unat_u64_add [of g 4] unat_u64_add [of g 16]
    by (simp add: gas_constants byte_gas_def split: if_splits)
  with Cons show ?case by (simp add: if_distrib [of "\<lambda>x. g + x"] cong: if_cong)
qed simp

lemma unat_data_gas:
  "16 * length (tx_data tx) < 2 ^ 64 \<Longrightarrow> unat (data_gas tx) = (\<Sum>b\<leftarrow>tx_data tx. byte_gas b)"
  using data_gas_foldl [of 0 "tx_data tx"] sum_byte_gas_le [of "tx_data tx"] by (simp add: data_gas_def)

text \<open>for data of any length a block can carry, the intrinsic gas is exactly the base plus 4
  per zero byte and 16 per other byte, so it never wraps and is at least 21000.\<close>

theorem intrinsic_gas_exact:
  assumes "16 * length (tx_data tx) + 53000 < 2 ^ 64"
  shows "unat (intrinsic_gas tx) =
           (if tx_type tx = ContractCreate then 53000 else 21000) + (\<Sum>b\<leftarrow>tx_data tx. if b = 0 then 4 else 16)"
proof -
  have d: "unat (data_gas tx) = (\<Sum>b\<leftarrow>tx_data tx. byte_gas b)" using assms by (intro unat_data_gas) simp
  have "(\<Sum>b\<leftarrow>tx_data tx. byte_gas b) \<le> 16 * length (tx_data tx)" by (rule sum_byte_gas_le)
  then have "unat (data_gas tx) + 53000 < 2 ^ 64" using assms d by linarith
  then have "unat (intrinsic_gas tx) = (if tx_type tx = ContractCreate then 53000 else 21000) + unat (data_gas tx)"
    using unat_u64_add [of "data_gas tx" 53000] unat_u64_add [of "data_gas tx" 21000]
    by (simp add: intrinsic_gas_def is_contract_create_def gas_constants add.commute)
  then show ?thesis by (simp add: d byte_gas_def [abs_def])
qed

theorem intrinsic_gas_exact_witness:
  "unat (intrinsic_gas (tx_unstake 5 0 1)) =
     (if tx_type (tx_unstake 5 0 1) = ContractCreate then 53000 else 21000) +
     (\<Sum>b\<leftarrow>tx_data (tx_unstake 5 0 1). if b = 0 then 4 else 16)"
  by (rule intrinsic_gas_exact) (simp add: tx_unstake_def)

lemma gas_cost_Some: "gas_cost tx = Some c \<Longrightarrow> unat c = unat (tx_gas_price tx) * unat (tx_gas_limit tx)"
  by (auto simp: gas_cost_def dest: u256_mul_Some)

lemma total_cost_Some:
  "total_cost tx = Some c \<Longrightarrow> unat c = unat (tx_value tx) + unat (tx_gas_price tx) * unat (tx_gas_limit tx)"
  by (auto simp: total_cost_def bind_eq_Some_conv dest!: u256_add_Some gas_cost_Some)

end
