(* ===== verification/Evm.thy ===== *)
theory Evm
  imports State_DB Receipts Transactions
begin

text \<open>
  The EVM adapter of \<open>qfc-executor\<close> (\<open>evm.rs\<close>): how \<open>revm\<close> is configured, which state it reads and
  how its result is written back. \<open>revm\<close> itself, Keccak-256 and Ed25519 are parameters
  (\<open>exec_env\<close>). \<open>revm\<close> is given the three callbacks of \<open>DatabaseRef\<close>; they run on the state
  database and on the per-execution cache of block hashes.
\<close>

section \<open>The interface of revm\<close>

record account_info =
  ai_balance :: u256
  ai_nonce :: u64
  ai_code_hash :: hash
  ai_code :: "bytes option"

record evm_block_env =
  eb_number :: u64
  eb_timestamp :: u64
  eb_coinbase :: address
  eb_gas_limit :: u64
  eb_basefee :: u256
  eb_prevrandao :: "hash option"
  eb_chain_id :: u64

record evm_tx_env =
  et_caller :: address
  et_transact_to :: "address option"
  et_data :: bytes
  et_value :: u256
  et_gas_limit :: u64
  et_gas_price :: u256

datatype revm_output = OutCreate bytes "address option" | OutCall bytes

datatype revm_result =
    RevmSuccess u64 "log list" revm_output
  | RevmRevert u64 bytes
  | RevmHalt string u64

record revm_account =
  ra_touched :: bool
  ra_info :: account_info
  ra_storage :: "(u256 \<times> u256) list"

type_synonym 'd evm_state = "'d state_db \<times> (u64 \<times> hash) list"

datatype evm_error = EvmState state_error | EvmText string

record 'd exec_env = "'d state_env" +
  keccak256 :: "bytes \<Rightarrow> hash"
  KECCAK_EMPTY :: hash
  ed_env :: ed25519
  unsigned_tx_bytes :: "unsigned_transaction \<Rightarrow> bytes"
  revm_transact :: "(address \<Rightarrow> ('d evm_state, evm_error, account_info option) op) \<Rightarrow>
     (address \<Rightarrow> u256 \<Rightarrow> ('d evm_state, evm_error, u256) op) \<Rightarrow>
     (u256 \<Rightarrow> ('d evm_state, evm_error, hash) op) \<Rightarrow>
     evm_block_env \<Rightarrow> evm_tx_env \<Rightarrow> ('d evm_state, evm_error, revm_result \<times> (address \<times> revm_account) list) op"

section \<open>The executor of one EVM transaction\<close>

type_synonym block_hash_lookup = "hash \<Rightarrow> u64 \<Rightarrow> hash option"

record evm_executor =
  ev_chain_id :: u64
  ev_block_number :: u64
  ev_block_timestamp :: u64
  ev_block_coinbase :: address
  ev_block_gas_limit :: u64
  ev_parent_hash :: hash
  ev_block_hash_lookup :: "block_hash_lookup option"
  ev_activation_height :: u64

record evm_result =
  evr_success :: bool
  evr_gas_used :: u64
  evr_output :: bytes
  evr_contract_address :: "address option"
  evr_logs :: "log list"
  evr_error :: "string option"

definition fixes_active :: "evm_executor \<Rightarrow> bool" where
  "fixes_active ev \<longleftrightarrow> ev_block_number ev \<ge> ev_activation_height ev"

text \<open>A callback that runs on the state database.\<close>

definition on_sdb :: "('d, 'a) state_op \<Rightarrow> ('d evm_state, evm_error, 'a) op" where
  "on_sdb f = (\<lambda>(st, hc). case f st of (r, st') \<Rightarrow> (map_sum (map_fault EvmState) id r, (st', hc)))"

definition basic_ref :: "('d, 'z) exec_env_scheme \<Rightarrow> evm_executor \<Rightarrow> address \<Rightarrow>
    ('d evm_state, evm_error, account_info option) op" where
  "basic_ref E ev a =
     op_bind (on_sdb (get_balance E a)) (\<lambda>bal.
     op_bind (on_sdb (get_nonce E a)) (\<lambda>n.
     op_bind (on_sdb (get_code E a)) (\<lambda>code.
       if code = [] then
         op_ret (Some \<lparr>ai_balance = bal, ai_nonce = n, ai_code_hash = KECCAK_EMPTY E, ai_code = None\<rparr>)
       else
         (let h = if fixes_active ev then keccak256 E code else blake3_hash E code in
          op_ret (Some \<lparr>ai_balance = bal, ai_nonce = n, ai_code_hash = h, ai_code = Some code\<rparr>)))))"

definition storage_ref :: "('d, 'z) exec_env_scheme \<Rightarrow> address \<Rightarrow> u256 \<Rightarrow> ('d evm_state, evm_error, u256) op" where
  "storage_ref E a index = on_sdb (get_storage E a index)"

definition block_hash_ref :: "evm_executor \<Rightarrow> u256 \<Rightarrow> ('d evm_state, evm_error, hash) op" where
  "block_hash_ref ev number = (\<lambda>(st, hc).
     if \<not> fixes_active ev then (Inr hash_ZERO, (st, hc))
     else if unat number \<ge> 2 ^ 64 then (Inr hash_ZERO, (st, hc))
     else
       let wanted = (ucast number :: u64) in
       if wanted \<ge> ev_block_number ev \<or> ev_block_number ev - wanted > 256 then (Inr hash_ZERO, (st, hc))
       else case map_of hc wanted of
         Some h \<Rightarrow> (Inr h, (st, hc))
       | None \<Rightarrow>
         let resolved =
           (case Option.bind (ev_block_hash_lookup ev) (\<lambda>lookup. lookup (ev_parent_hash ev) wanted) of
              None \<Rightarrow> hash_ZERO | Some h \<Rightarrow> h)
         in (Inr resolved, (st, AList.update wanted resolved hc)))"

definition evm_block_env :: "('d, 'z) exec_env_scheme \<Rightarrow> evm_executor \<Rightarrow> evm_block_env" where
  "evm_block_env E ev = \<lparr>
     eb_number = ev_block_number ev,
     eb_timestamp = ev_block_timestamp ev div 1000,
     eb_coinbase = ev_block_coinbase ev,
     eb_gas_limit = ev_block_gas_limit ev,
     eb_basefee = 0,
     eb_prevrandao = (if fixes_active ev then Some (keccak256 E (ev_parent_hash ev)) else Some hash_ZERO),
     eb_chain_id = ev_chain_id ev\<rparr>"

definition evm_transact :: "('d, 'z) exec_env_scheme \<Rightarrow> evm_executor \<Rightarrow> evm_tx_env \<Rightarrow>
    ('d state_db, evm_error, revm_result \<times> (address \<times> revm_account) list) op" where
  "evm_transact E ev tx = (\<lambda>st.
     case revm_transact E (basic_ref E ev) (storage_ref E) (block_hash_ref ev) (evm_block_env E ev) tx (st, []) of
       (r, (st', hc)) \<Rightarrow> (r, st'))"

section \<open>Writing the result back\<close>

definition apply_account :: "('d, 'z) exec_env_scheme \<Rightarrow> address \<Rightarrow> revm_account \<Rightarrow> ('d, unit) state_op" where
  "apply_account E a acc =
     (if \<not> ra_touched acc then op_ret ()
      else
        op_bind (set_balance E a (ai_balance (ra_info acc))) (\<lambda>_.
        op_bind (set_nonce E a (ai_nonce (ra_info acc))) (\<lambda>_.
        op_bind (case ai_code (ra_info acc) of
                   Some code \<Rightarrow> if code \<noteq> [] then op_bind (set_code E a code) (\<lambda>_. op_ret ()) else op_ret ()
                 | None \<Rightarrow> op_ret ()) (\<lambda>_.
        op_fold (\<lambda>(slot, v) _. set_storage E a slot v) (ra_storage acc) ()))))"

definition apply_state_changes :: "('d, 'z) exec_env_scheme \<Rightarrow> (address \<times> revm_account) list \<Rightarrow> ('d, unit) state_op" where
  "apply_state_changes E changes = op_fold (\<lambda>(a, acc) _. apply_account E a acc) changes ()"

definition process_result :: "('d, 'z) exec_env_scheme \<Rightarrow> revm_result \<Rightarrow> (address \<times> revm_account) list \<Rightarrow>
    ('d, evm_result) state_op" where
  "process_result E r changes = (case r of
     RevmSuccess gas logs output \<Rightarrow>
       op_bind (apply_state_changes E changes) (\<lambda>_.
         let (output_data, contract_address) =
           (case output of OutCreate bs a \<Rightarrow> (bs, a) | OutCall bs \<Rightarrow> (bs, None))
         in op_ret \<lparr>evr_success = True, evr_gas_used = gas, evr_output = output_data,
              evr_contract_address = contract_address, evr_logs = logs, evr_error = None\<rparr>)
   | RevmRevert gas output \<Rightarrow>
       op_ret \<lparr>evr_success = False, evr_gas_used = gas, evr_output = output,
         evr_contract_address = None, evr_logs = [], evr_error = Some ''Execution reverted''\<rparr>
   | RevmHalt reason gas \<Rightarrow>
       op_ret \<lparr>evr_success = False, evr_gas_used = gas, evr_output = [],
         evr_contract_address = None, evr_logs = [], evr_error = Some (''Execution halted: '' @ reason)\<rparr>)"

definition process_result_no_state :: "revm_result \<Rightarrow> evm_result" where
  "process_result_no_state r = (case r of
     RevmSuccess gas logs output \<Rightarrow>
       \<lparr>evr_success = True, evr_gas_used = gas,
         evr_output = (case output of OutCreate bs a \<Rightarrow> bs | OutCall bs \<Rightarrow> bs),
         evr_contract_address = None, evr_logs = logs, evr_error = None\<rparr>
   | RevmRevert gas output \<Rightarrow>
       \<lparr>evr_success = False, evr_gas_used = gas, evr_output = output,
         evr_contract_address = None, evr_logs = [], evr_error = Some ''Execution reverted''\<rparr>
   | RevmHalt reason gas \<Rightarrow>
       \<lparr>evr_success = False, evr_gas_used = gas, evr_output = [],
         evr_contract_address = None, evr_logs = [], evr_error = Some (''Execution halted: '' @ reason)\<rparr>)"

section \<open>The window of BLOCKHASH\<close>

lemma neq_hash_ZERO: "length h \<noteq> 32 \<Longrightarrow> h \<noteq> hash_ZERO"
  by (auto simp: hash_ZERO_def)

text \<open>BLOCKHASH answers with a resolved hash only for the 256 blocks before the executing one,
  and only once the opcode fork is active; every other number reads zero.\<close>

theorem block_hash_window:
  assumes "fst (block_hash_ref ev number (st, [])) = Inr h" "h \<noteq> hash_ZERO"
  shows "fixes_active ev \<and> unat number < unat (ev_block_number ev) \<and>
         unat (ev_block_number ev) \<le> unat number + 256 \<and>
         Option.bind (ev_block_hash_lookup ev) (\<lambda>f. f (ev_parent_hash ev) (ucast number)) = Some h"
proof -
  let ?w = "ucast number :: u64"
  have a: "fixes_active ev" "unat number < 2 ^ 64" "?w < ev_block_number ev" "ev_block_number ev - ?w \<le> 256"
    "h = (case Option.bind (ev_block_hash_lookup ev) (\<lambda>f. f (ev_parent_hash ev) ?w) of None \<Rightarrow> hash_ZERO | Some h \<Rightarrow> h)"
    using assms by (auto simp: block_hash_ref_def Let_def not_le split: if_splits)
  have w: "unat ?w = unat number" using a(2) by (simp add: unsigned_ucast_eq take_bit_nat_eq_self_iff)
  have "unat (ev_block_number ev) - unat ?w \<le> 256"
    using a(4) unat_sub [OF less_imp_le [OF a(3)]] by (simp add: word_le_nat_alt)
  moreover have "unat ?w < unat (ev_block_number ev)" using a(3) by (simp add: word_less_nat_alt)
  ultimately show ?thesis using a(1,5) assms(2) w by (auto split: option.splits)
qed

definition sample_evm_executor :: evm_executor where
  "sample_evm_executor = \<lparr>ev_chain_id = 9000, ev_block_number = 20000, ev_block_timestamp = 5000,
     ev_block_coinbase = 7, ev_block_gas_limit = 30000000, ev_parent_hash = [1],
     ev_block_hash_lookup = Some (\<lambda>p n. Some (2 # p)), ev_activation_height = 13000\<rparr>"

theorem block_hash_window_witness:
  "fixes_active sample_evm_executor \<and> unat (19990 :: u256) < unat (ev_block_number sample_evm_executor) \<and>
   unat (ev_block_number sample_evm_executor) \<le> unat (19990 :: u256) + 256 \<and>
   Option.bind (ev_block_hash_lookup sample_evm_executor)
     (\<lambda>f. f (ev_parent_hash sample_evm_executor) (ucast (19990 :: u256))) = Some [2, 1]"
  by (rule block_hash_window [where st = "state_new ()"])
     (simp_all add: block_hash_ref_def fixes_active_def sample_evm_executor_def Let_def neq_hash_ZERO)

end
