(* ===== verification/Executor.thy ===== *)
theory Executor
  imports Evm
begin

text \<open>
  The transaction executor (\<open>executor.rs\<close> in \<open>qfc-executor\<close>): validation, gas accounting, one
  handler per transaction type, the maturing of undelegations and the execution of the
  transactions of a block. \<open>u64\<close> arithmetic wraps, as in the release build. A handler that
  returns an error is rolled back and charged; a panic is not caught.
\<close>

section \<open>Errors, results and the executor\<close>

datatype exec_error =
    InvalidSignature
  | InvalidChainId u64 u64
  | ExInvalidNonce u64 u64
  | ExInsufficientBalance u256 u256
  | GasTooLow u64 u64
  | OutOfGas
  | Reverted string
  | MissingRecipient
  | ContractError string
  | ExState state_error
  | StakeTooLow u256 u256
  | AlreadyValidator
  | NotValidator
  | Internal string
  | EvmError evm_error
  | DelegationTooLow u256 u256
  | AlreadyDelegated
  | InvalidValidator
  | NoDelegation
  | InsufficientDelegation u256 u256
  | ValidatorStakeTooHigh u64 u256 u256

text \<open>A message is a text or the error it is formatted from.\<close>

datatype exec_msg = MsgText string | MsgError exec_error

record execution_result =
  er_success :: bool
  er_gas_used :: u64
  er_logs :: "log list"
  er_contract_address :: "address option"
  er_output :: bytes
  er_error :: "exec_msg option"

definition result_success :: "u64 \<Rightarrow> execution_result" where
  "result_success gas = \<lparr>er_success = True, er_gas_used = gas, er_logs = [],
     er_contract_address = None, er_output = [], er_error = None\<rparr>"

definition result_success_with_contract :: "u64 \<Rightarrow> address \<Rightarrow> execution_result" where
  "result_success_with_contract gas a = \<lparr>er_success = True, er_gas_used = gas, er_logs = [],
     er_contract_address = Some a, er_output = [], er_error = None\<rparr>"

definition result_failure :: "u64 \<Rightarrow> exec_msg \<Rightarrow> execution_result" where
  "result_failure gas e = \<lparr>er_success = False, er_gas_used = gas, er_logs = [],
     er_contract_address = None, er_output = [], er_error = Some e\<rparr>"

record executor =
  ex_chain_id :: u64
  ex_block_number :: u64
  ex_block_timestamp :: u64
  ex_block_gas_limit :: u64
  ex_parent_hash :: hash
  ex_block_hash_lookup :: "block_hash_lookup option"
  ex_evm_opcode_activation_height :: u64

definition DEFAULT_BLOCK_GAS_LIMIT :: u64 where "DEFAULT_BLOCK_GAS_LIMIT = 30000000"
definition EVM_OPCODE_ACTIVATION_HEIGHT :: u64 where "EVM_OPCODE_ACTIVATION_HEIGHT = 13000"

definition executor_new :: "u64 \<Rightarrow> executor" where
  "executor_new chain_id = \<lparr>ex_chain_id = chain_id, ex_block_number = 0, ex_block_timestamp = 0,
     ex_block_gas_limit = DEFAULT_BLOCK_GAS_LIMIT, ex_parent_hash = hash_ZERO,
     ex_block_hash_lookup = None, ex_evm_opcode_activation_height = EVM_OPCODE_ACTIVATION_HEIGHT\<rparr>"

definition set_block_context :: "u64 \<Rightarrow> u64 \<Rightarrow> u64 \<Rightarrow> hash \<Rightarrow> executor \<Rightarrow> executor" where
  "set_block_context number timestamp gas_limit parent ex = ex\<lparr>ex_block_number := number,
     ex_block_timestamp := timestamp, ex_block_gas_limit := gas_limit, ex_parent_hash := parent\<rparr>"

definition set_block_hash_lookup :: "block_hash_lookup \<Rightarrow> executor \<Rightarrow> executor" where
  "set_block_hash_lookup lookup ex = ex\<lparr>ex_block_hash_lookup := Some lookup\<rparr>"

type_synonym ('d, 'a) exec_op = "('d state_db, exec_error, 'a) op"

text \<open>A call of the state database whose error is converted by \<open>?\<close>.\<close>

definition on_state :: "('s, state_error, 'a) op \<Rightarrow> ('s, exec_error, 'a) op" where
  "on_state f = (\<lambda>st. case f st of (r, st') \<Rightarrow> (map_sum (map_fault ExState) id r, st'))"

text \<open>A call whose \<open>Result\<close> is matched on: an error is a value, a panic still unwinds.\<close>

definition op_try :: "('s, 'e, 'a) op \<Rightarrow> ('s, 'f, 'e + 'a) op" where
  "op_try f = (\<lambda>s. case f s of
     (Inl (Err e), s') \<Rightarrow> (Inr (Inl e), s')
   | (Inl Panic, s') \<Rightarrow> (Inl Panic, s')
   | (Inl OutOfFuel, s') \<Rightarrow> (Inl OutOfFuel, s')
   | (Inr x, s') \<Rightarrow> (Inr (Inr x), s'))"

definition check :: "bool \<Rightarrow> exec_error \<Rightarrow> ('s, exec_error, unit) op" where
  "check ok e = (if ok then op_ret () else op_fail (Err e))"

section \<open>The stake cap\<close>

definition ensure_validator_stake_cap :: "('d, 'z) exec_env_scheme \<Rightarrow> address \<Rightarrow> u256 \<Rightarrow> ('d, unit) exec_op" where
  "ensure_validator_stake_cap E validator added_stake =
     (if u256_is_zero added_stake then op_ret ()
      else op_bind (on_state (get_total_stake E)) (\<lambda>current_total_stake.
        if u256_is_zero current_total_stake then op_ret ()
        else
          op_bind (on_state (get_stake E validator)) (\<lambda>own.
          op_bind (on_state (get_total_delegated_to E validator)) (\<lambda>delegated.
            let validator_total_after = u256_saturating_add (u256_saturating_add own delegated) added_stake;
                network_total_after = u256_saturating_add current_total_stake added_stake in
            op_bind (op_expect (max_validator_stake network_total_after)) (\<lambda>max_allowed.
              check (validator_total_after \<le> max_allowed)
                (ValidatorStakeTooHigh MAX_VALIDATOR_STAKE_PERCENT max_allowed validator_total_after))))))"

section \<open>Validation\<close>

definition tx_hash :: "('d, 'z) exec_env_scheme \<Rightarrow> transaction \<Rightarrow> hash" where
  "tx_hash E tx = blake3_hash E (unsigned_tx_bytes E (unsigned_tx tx))"

definition tx_sender :: "('d, 'z) exec_env_scheme \<Rightarrow> transaction \<Rightarrow> exec_error + address" where
  "tx_sender E tx =
     (if take 1 (tx_public_key tx) = [0xEE] then Inr (address_new (take 20 (drop 2 (tx_public_key tx))))
      else case verify_hash_signature (ed_env E) (tx_public_key tx) (tx_hash E tx) (tx_signature tx) of
        Inl e \<Rightarrow> Inl InvalidSignature
      | Inr _ \<Rightarrow> Inr (address_from_public_key (blake3_hash E) (tx_public_key tx)))"

definition validate_type :: "('d, 'z) exec_env_scheme \<Rightarrow> transaction \<Rightarrow> address \<Rightarrow> ('d, unit) exec_op" where
  "validate_type E tx sender = (case tx_type tx of
     Transfer \<Rightarrow> check (tx_to tx \<noteq> None) MissingRecipient
   | Stake \<Rightarrow>
       op_bind (on_state (get_stake E sender)) (\<lambda>current_stake.
         check (\<not> (u256_is_zero current_stake \<and> tx_value tx < u256_from_u128 MIN_VALIDATOR_STAKE))
           (StakeTooLow (u256_from_u128 MIN_VALIDATOR_STAKE) (tx_value tx)))
   | ValidatorRegister \<Rightarrow>
       check (\<not> tx_value tx < u256_from_u128 MIN_VALIDATOR_STAKE)
         (StakeTooLow (u256_from_u128 MIN_VALIDATOR_STAKE) (tx_value tx))
   | Delegate \<Rightarrow>
       (case tx_to tx of
          None \<Rightarrow> op_fail (Err MissingRecipient)
        | Some validator \<Rightarrow>
            op_bind (check (\<not> tx_value tx < u256_from_u128 MIN_DELEGATION)
              (DelegationTooLow (u256_from_u128 MIN_DELEGATION) (tx_value tx))) (\<lambda>_.
            op_bind (on_state (get_delegation E sender)) (\<lambda>(existing_validator, _).
            op_bind (check (\<not> (existing_validator \<noteq> None \<and> existing_validator \<noteq> Some validator)) AlreadyDelegated) (\<lambda>_.
            op_bind (on_state (get_stake E validator)) (\<lambda>s.
              check (\<not> u256_is_zero s) InvalidValidator)))))
   | _ \<Rightarrow> op_ret ())"

definition validate_transaction :: "('d, 'z) exec_env_scheme \<Rightarrow> executor \<Rightarrow> transaction \<Rightarrow>
    ('d, signed_transaction) exec_op" where
  "validate_transaction E ex tx =
     op_bind (check (tx_chain_id tx = ex_chain_id ex) (InvalidChainId (ex_chain_id ex) (tx_chain_id tx))) (\<lambda>_.
     op_bind (check (\<not> tx_gas_limit tx < intrinsic_gas tx) (GasTooLow (intrinsic_gas tx) (tx_gas_limit tx))) (\<lambda>_.
     case tx_sender E tx of
       Inl e \<Rightarrow> op_fail (Err e)
     | Inr sender \<Rightarrow>
       op_bind (on_state (get_balance E sender)) (\<lambda>sender_balance.
       op_bind (op_expect (total_cost tx)) (\<lambda>total.
       op_bind (check (\<not> sender_balance < total) (ExInsufficientBalance total sender_balance)) (\<lambda>_.
       op_bind (on_state (get_nonce E sender)) (\<lambda>expected_nonce.
       op_bind (check (tx_nonce tx = expected_nonce) (ExInvalidNonce expected_nonce (tx_nonce tx))) (\<lambda>_.
       op_bind (validate_type E tx sender) (\<lambda>_.
         op_ret \<lparr>stx_tx = tx, stx_hash = tx_hash E tx, stx_sender = sender\<rparr>))))))))"

section \<open>Handlers\<close>

definition execute_transfer :: "('d, 'z) exec_env_scheme \<Rightarrow> transaction \<Rightarrow> address \<Rightarrow> ('d, execution_result) exec_op" where
  "execute_transfer E tx sender = (case tx_to tx of
     None \<Rightarrow> op_fail (Err MissingRecipient)
   | Some to \<Rightarrow>
       op_bind (on_state (state_transfer E sender to (tx_value tx))) (\<lambda>_.
         op_ret (result_success TRANSFER_GAS)))"

definition evm_executor_of :: "executor \<Rightarrow> address \<Rightarrow> evm_executor" where
  "evm_executor_of ex producer = \<lparr>ev_chain_id = ex_chain_id ex, ev_block_number = ex_block_number ex,
     ev_block_timestamp = ex_block_timestamp ex, ev_block_coinbase = producer,
     ev_block_gas_limit = ex_block_gas_limit ex, ev_parent_hash = ex_parent_hash ex,
     ev_block_hash_lookup = ex_block_hash_lookup ex,
     ev_activation_height = ex_evm_opcode_activation_height ex\<rparr>"

text \<open>\<open>EvmExecutor::create\<close> and \<open>EvmExecutor::call\<close>: gas price and base fee are zero.\<close>

definition evm_run :: "('d, 'z) exec_env_scheme \<Rightarrow> evm_executor \<Rightarrow> address \<Rightarrow> address option \<Rightarrow> bytes \<Rightarrow> u256 \<Rightarrow> u64 \<Rightarrow>
    ('d, evm_result) exec_op" where
  "evm_run E ev sender to input v gas_limit =
     op_bind (\<lambda>st. case evm_transact E ev \<lparr>et_caller = sender, et_transact_to = to, et_data = input,
                     et_value = v, et_gas_limit = gas_limit, et_gas_price = 0\<rparr> st of
                (r, st') \<Rightarrow> (map_sum (map_fault EvmError) id r, st')) (\<lambda>(result, changes).
       on_state (process_result E result changes))"

definition execute_contract_create :: "('d, 'z) exec_env_scheme \<Rightarrow> executor \<Rightarrow> transaction \<Rightarrow> address \<Rightarrow> address \<Rightarrow>
    ('d, execution_result) exec_op" where
  "execute_contract_create E ex tx sender producer =
     op_bind (evm_run E (evm_executor_of ex producer) sender None (tx_data tx) (tx_value tx) (tx_gas_limit tx)) (\<lambda>r.
       op_ret
         (if evr_success r then
            let gas_used = max (evr_gas_used r) CONTRACT_CREATE_GAS in
            (case evr_contract_address r of
               Some a \<Rightarrow> (result_success_with_contract gas_used a)\<lparr>er_logs := evr_logs r\<rparr>
             | None \<Rightarrow> result_failure gas_used (MsgText ''Contract creation failed: no address''))
          else result_failure (evr_gas_used r)
            (MsgText (case evr_error r of None \<Rightarrow> ''Unknown error'' | Some e \<Rightarrow> e))))"

definition execute_contract_call :: "('d, 'z) exec_env_scheme \<Rightarrow> executor \<Rightarrow> transaction \<Rightarrow> address \<Rightarrow> address \<Rightarrow>
    ('d, execution_result) exec_op" where
  "execute_contract_call E ex tx sender producer = (case tx_to tx of
     None \<Rightarrow> op_fail (Err MissingRecipient)
   | Some to \<Rightarrow>
       op_bind (on_state (get_code E to)) (\<lambda>code.
         if code = [] then
           op_bind (if \<not> u256_is_zero (tx_value tx) then on_state (state_transfer E sender to (tx_value tx)) else op_ret ()) (\<lambda>_.
             op_ret (result_success (MINIMUM_GAS + data_gas tx)))
         else
           op_bind (evm_run E (evm_executor_of ex producer) sender (Some to) (tx_data tx) (tx_value tx) (tx_gas_limit tx)) (\<lambda>r.
             op_ret
               (if evr_success r then
                  (result_success (evr_gas_used r))\<lparr>er_logs := evr_logs r, er_output := evr_output r\<rparr>
                else
                  (result_failure (evr_gas_used r)
                     (MsgText (case evr_error r of None \<Rightarrow> ''Execution failed'' | Some e \<Rightarrow> e)))
                    \<lparr>er_output := evr_output r\<rparr>))))"

definition execute_stake :: "('d, 'z) exec_env_scheme \<Rightarrow> transaction \<Rightarrow> address \<Rightarrow> ('d, execution_result) exec_op" where
  "execute_stake E tx sender =
     (let stake_amount = tx_value tx in
      op_bind (on_state (get_stake E sender)) (\<lambda>current_stake.
      op_bind (op_expect (u256_add current_stake stake_amount)) (\<lambda>new_stake.
      op_bind (check (\<not> (u256_is_zero current_stake \<and> new_stake < u256_from_u128 MIN_VALIDATOR_STAKE))
        (StakeTooLow (u256_from_u128 MIN_VALIDATOR_STAKE) new_stake)) (\<lambda>_.
      op_bind (ensure_validator_stake_cap E sender stake_amount) (\<lambda>_.
      op_bind (on_state (sub_balance E sender stake_amount)) (\<lambda>_.
      op_bind (on_state (set_stake E sender new_stake)) (\<lambda>_.
        op_ret (result_success (MINIMUM_GAS * 2)))))))))"

definition execute_unstake :: "('d, 'z) exec_env_scheme \<Rightarrow> transaction \<Rightarrow> address \<Rightarrow> ('d, execution_result) exec_op" where
  "execute_unstake E tx sender =
     op_bind (if length (tx_data tx) \<ge> 32 then op_ret (u256_from_be_bytes (take 32 (tx_data tx)))
              else on_state (get_stake E sender)) (\<lambda>unstake_amount.
     op_bind (on_state (get_stake E sender)) (\<lambda>current_stake.
     op_bind (check (\<not> current_stake < unstake_amount) (ExInsufficientBalance unstake_amount current_stake)) (\<lambda>_.
     op_bind (op_expect (u256_sub current_stake unstake_amount)) (\<lambda>new_stake.
     op_bind (on_state (set_stake E sender new_stake)) (\<lambda>_.
     op_bind (on_state (add_balance E sender unstake_amount)) (\<lambda>_.
       op_ret (result_success (MINIMUM_GAS * 2))))))))"

definition execute_validator_register :: "('d, 'z) exec_env_scheme \<Rightarrow> transaction \<Rightarrow> address \<Rightarrow> ('d, execution_result) exec_op" where
  "execute_validator_register E tx sender =
     op_bind (on_state (get_stake E sender)) (\<lambda>current_stake.
     op_bind (check (u256_is_zero current_stake) AlreadyValidator) (\<lambda>_.
       let stake_amount = tx_value tx in
       op_bind (check (\<not> stake_amount < u256_from_u128 MIN_VALIDATOR_STAKE)
         (StakeTooLow (u256_from_u128 MIN_VALIDATOR_STAKE) stake_amount)) (\<lambda>_.
       op_bind (ensure_validator_stake_cap E sender stake_amount) (\<lambda>_.
       op_bind (on_state (sub_balance E sender stake_amount)) (\<lambda>_.
       op_bind (on_state (set_stake E sender stake_amount)) (\<lambda>_.
       op_bind (on_state (set_contribution_score E sender 0)) (\<lambda>_.
         op_ret (result_success (MINIMUM_GAS * 3)))))))))"

definition execute_validator_exit :: "('d, 'z) exec_env_scheme \<Rightarrow> transaction \<Rightarrow> address \<Rightarrow> ('d, execution_result) exec_op" where
  "execute_validator_exit E tx sender =
     op_bind (on_state (get_stake E sender)) (\<lambda>current_stake.
     op_bind (check (\<not> u256_is_zero current_stake) NotValidator) (\<lambda>_.
     op_bind (on_state (add_balance E sender current_stake)) (\<lambda>_.
     op_bind (on_state (set_stake E sender 0)) (\<lambda>_.
       op_ret (result_success (MINIMUM_GAS * 2))))))"

definition execute_delegate :: "('d, 'z) exec_env_scheme \<Rightarrow> transaction \<Rightarrow> address \<Rightarrow> ('d, execution_result) exec_op" where
  "execute_delegate E tx sender = (case tx_to tx of
     None \<Rightarrow> op_fail (Err MissingRecipient)
   | Some validator \<Rightarrow>
       let amount = tx_value tx in
       op_bind (check (\<not> amount < u256_from_u128 MIN_DELEGATION)
         (DelegationTooLow (u256_from_u128 MIN_DELEGATION) amount)) (\<lambda>_.
       op_bind (on_state (get_delegation E sender)) (\<lambda>(existing_validator, _).
       op_bind (check (\<not> (existing_validator \<noteq> None \<and> existing_validator \<noteq> Some validator)) AlreadyDelegated) (\<lambda>_.
       op_bind (on_state (get_stake E validator)) (\<lambda>validator_stake.
       op_bind (check (\<not> u256_is_zero validator_stake) InvalidValidator) (\<lambda>_.
       op_bind (ensure_validator_stake_cap E validator amount) (\<lambda>_.
       op_bind (on_state (sub_balance E sender amount)) (\<lambda>_.
       op_bind (if existing_validator \<noteq> None then on_state (add_delegation_amount E sender amount)
                else on_state (set_delegation E sender validator amount)) (\<lambda>_.
         op_ret (result_success (MINIMUM_GAS * 3)))))))))))"

definition undelegation_unlock_at :: "executor \<Rightarrow> u64" where
  "undelegation_unlock_at ex = ex_block_timestamp ex div 1000 + UNSTAKE_DELAY_SECS"

definition execute_undelegate :: "('d, 'z) exec_env_scheme \<Rightarrow> executor \<Rightarrow> transaction \<Rightarrow> address \<Rightarrow> ('d, execution_result) exec_op" where
  "execute_undelegate E ex tx sender = (case tx_to tx of
     None \<Rightarrow> op_fail (Err MissingRecipient)
   | Some validator \<Rightarrow>
       op_bind (if length (tx_data tx) \<ge> 32 then op_ret (u256_from_be_bytes (take 32 (tx_data tx)))
                else on_state (get_delegation_amount E sender validator)) (\<lambda>amount.
       op_bind (on_state (get_delegation E sender)) (\<lambda>(existing_validator, existing_amount).
       op_bind (if existing_validator = Some validator
                then check (\<not> existing_amount < amount) (InsufficientDelegation amount existing_amount)
                else op_fail (Err NoDelegation)) (\<lambda>_.
       op_bind (on_state (sub_delegation_amount E sender amount)) (\<lambda>_.
       op_bind (on_state (store_undelegation E \<lparr>u_delegator = sender, u_validator = validator,
           u_amount = amount, u_unlock_at = undelegation_unlock_at ex\<rparr>)) (\<lambda>_.
         op_ret (result_success (MINIMUM_GAS * 3))))))))"

definition execute_claim_delegation_rewards :: "('d, 'z) exec_env_scheme \<Rightarrow> transaction \<Rightarrow> address \<Rightarrow> ('d, execution_result) exec_op" where
  "execute_claim_delegation_rewards E tx sender =
     op_bind (on_state (get_delegation E sender)) (\<lambda>(existing_validator, _).
     op_bind (check (existing_validator \<noteq> None) NoDelegation) (\<lambda>_.
       op_ret (result_success (MINIMUM_GAS * 2))))"

section \<open>Execution\<close>

definition is_evm_tx :: "transaction \<Rightarrow> bool" where
  "is_evm_tx tx \<longleftrightarrow> tx_type tx = ContractCreate \<or> tx_type tx = ContractCall"

definition dispatch :: "('d, 'z) exec_env_scheme \<Rightarrow> executor \<Rightarrow> transaction \<Rightarrow> address \<Rightarrow> address \<Rightarrow>
    ('d, execution_result) exec_op" where
  "dispatch E ex tx sender producer = (case tx_type tx of
     Transfer \<Rightarrow> execute_transfer E tx sender
   | ContractCreate \<Rightarrow> execute_contract_create E ex tx sender producer
   | ContractCall \<Rightarrow> execute_contract_call E ex tx sender producer
   | Stake \<Rightarrow> execute_stake E tx sender
   | Unstake \<Rightarrow> execute_unstake E tx sender
   | ValidatorRegister \<Rightarrow> execute_validator_register E tx sender
   | ValidatorExit \<Rightarrow> execute_validator_exit E tx sender
   | Delegate \<Rightarrow> execute_delegate E tx sender
   | Undelegate \<Rightarrow> execute_undelegate E ex tx sender
   | ClaimDelegationRewards \<Rightarrow> execute_claim_delegation_rewards E tx sender
   | InferenceTask \<Rightarrow> op_ret (result_success 21000))"

definition gas_refund :: "transaction \<Rightarrow> u64 \<Rightarrow> u64" where
  "gas_refund tx gas_used = (tx_gas_limit tx - gas_used) * u256_low_u64 (tx_gas_price tx)"

definition gas_payment :: "transaction \<Rightarrow> u64 \<Rightarrow> u64" where
  "gas_payment tx gas_used = gas_used * u256_low_u64 (tx_gas_price tx)"

text \<open>Step 4 of \<open>execute\<close> when the handler returned a result.\<close>

definition settle_ok :: "('d, 'z) exec_env_scheme \<Rightarrow> transaction \<Rightarrow> address \<Rightarrow> address \<Rightarrow> execution_result \<Rightarrow>
    ('d, execution_result) exec_op" where
  "settle_ok E tx sender producer r =
     op_bind (if is_evm_tx tx then on_state (set_nonce E sender (tx_nonce tx + 1)) else op_ret ()) (\<lambda>_.
     op_bind (on_state (add_balance E sender (u256_from_u64 (gas_refund tx (er_gas_used r))))) (\<lambda>_.
     op_bind (on_state (add_balance E producer (u256_from_u64 (gas_payment tx (er_gas_used r))))) (\<lambda>_.
       op_ret r)))"

text \<open>Step 4 when it returned an error.\<close>

definition settle_err :: "('d, 'z) exec_env_scheme \<Rightarrow> transaction \<Rightarrow> address \<Rightarrow> address \<Rightarrow> u256 \<Rightarrow> state_snapshot \<Rightarrow>
    exec_error \<Rightarrow> ('d, execution_result) exec_op" where
  "settle_err E tx sender producer cost sn e = (\<lambda>st.
     op_bind (on_state (sub_balance E sender cost)) (\<lambda>_.
     op_bind (on_state (add_balance E producer cost)) (\<lambda>_.
     op_bind (on_state (increment_nonce E sender)) (\<lambda>_.
       op_ret (result_failure (tx_gas_limit tx) (MsgError e))))) (revert E sn st))"

definition execute :: "('d, 'z) exec_env_scheme \<Rightarrow> executor \<Rightarrow> signed_transaction \<Rightarrow> address \<Rightarrow>
    ('d, execution_result) exec_op" where
  "execute E ex stx producer = (\<lambda>st.
     let tx = stx_tx stx; sender = stx_sender stx; sn = snapshot st in
     op_bind (op_expect (gas_cost tx)) (\<lambda>cost.
     op_bind (on_state (sub_balance E sender cost)) (\<lambda>_.
     op_bind (if is_evm_tx tx then op_ret 0 else on_state (increment_nonce E sender)) (\<lambda>_.
     op_bind (op_try (dispatch E ex tx sender producer)) (\<lambda>result. case result of
         Inr r \<Rightarrow> settle_ok E tx sender producer r
       | Inl e \<Rightarrow> settle_err E tx sender producer cost sn e)))) st)"

section \<open>Undelegations that matured, and the transactions of a block\<close>

definition mature_one :: "('d, 'z) exec_env_scheme \<Rightarrow> undelegation \<Rightarrow> u32 \<Rightarrow> ('d, u32) exec_op" where
  "mature_one E u processed =
     op_bind (op_try (add_balance E (u_delegator u) (u_amount u))) (\<lambda>r. case r of
       Inl e \<Rightarrow> op_ret processed
     | Inr _ \<Rightarrow>
       op_bind (op_try (delete_undelegation E (u_delegator u) (u_validator u) (u_unlock_at u))) (\<lambda>r. case r of
         Inl e \<Rightarrow> op_ret processed
       | Inr _ \<Rightarrow> op_ret (processed + 1)))"

definition process_mature_undelegations :: "('d, 'z) exec_env_scheme \<Rightarrow> u64 \<Rightarrow> ('d, u32) exec_op" where
  "process_mature_undelegations E now_secs =
     op_bind (op_try (get_mature_undelegations E now_secs)) (\<lambda>r. case r of
       Inl e \<Rightarrow> op_ret 0
     | Inr mature \<Rightarrow> op_fold (mature_one E) mature 0)"

type_synonym exec_receipt = "exec_msg receipt"

definition failed_receipt :: "hash \<Rightarrow> u32 \<Rightarrow> exec_error \<Rightarrow> u64 \<Rightarrow> u64 \<Rightarrow> exec_receipt" where
  "failed_receipt h index e gas cumulative = \<lparr>r_tx_hash = h, r_tx_index = index,
     r_status = RFailure (MsgError e), r_cumulative_gas_used = cumulative, r_gas_used = gas,
     r_logs = [], r_logs_bloom = bloom_ZERO, r_contract_address = None\<rparr>"

definition result_receipt :: "('d, 'z) exec_env_scheme \<Rightarrow> hash \<Rightarrow> u32 \<Rightarrow> execution_result \<Rightarrow> u64 \<Rightarrow> exec_receipt" where
  "result_receipt E h index r cumulative = \<lparr>r_tx_hash = h, r_tx_index = index,
     r_status = (if er_success r then RSuccess
                 else RFailure (case er_error r of None \<Rightarrow> MsgText [] | Some m \<Rightarrow> m)),
     r_cumulative_gas_used = cumulative, r_gas_used = er_gas_used r, r_logs = er_logs r,
     r_logs_bloom = create_bloom (blake3_hash E) (er_logs r),
     r_contract_address = er_contract_address r\<rparr>"

definition execute_one :: "('d, 'z) exec_env_scheme \<Rightarrow> executor \<Rightarrow> address \<Rightarrow> nat \<times> transaction \<Rightarrow>
    exec_receipt list \<times> u64 \<Rightarrow> ('d, exec_receipt list \<times> u64) exec_op" where
  "execute_one E ex producer = (\<lambda>(index, tx) (receipts, cumulative).
     let h = tx_hash E tx; i = (of_nat index :: u32) in
     op_bind (op_try (validate_transaction E ex tx)) (\<lambda>v. case v of
       Inl e \<Rightarrow>
         (let cum = cumulative + tx_gas_limit tx in
          op_ret (receipts @ [failed_receipt h i e (tx_gas_limit tx) cum], cum))
     | Inr stx \<Rightarrow>
       op_bind (op_try (execute E ex stx producer)) (\<lambda>r. case r of
         Inr result \<Rightarrow>
           (let cum = cumulative + er_gas_used result in
            op_ret (receipts @ [result_receipt E h i result cum], cum))
       | Inl e \<Rightarrow>
           (let cum = cumulative + tx_gas_limit tx in
            op_ret (receipts @ [failed_receipt h i e (tx_gas_limit tx) cum], cum)))))"

definition execute_transactions :: "('d, 'z) exec_env_scheme \<Rightarrow> executor \<Rightarrow> transaction list \<Rightarrow> address \<Rightarrow>
    ('d, exec_receipt list \<times> u64) exec_op" where
  "execute_transactions E ex txs producer =
     op_fold (execute_one E ex producer) (zip [0..<length txs] txs) ([], 0)"

end
