(* ===== verification/State_Refine.thy ===== *)
theory State_Refine
  imports State_DB Trie_Values Map_Store
begin

text \<open>
  The state database implements a ledger: a total function from addresses to accounts, with the
  pending undelegations beside it. \<open>state_view E st L\<close> says that the state database \<open>st\<close>
  represents the ledger \<open>L\<close>; the cache, the trie and the database behind it agree then.
  \<open>refines E m s\<close> says that the operation \<open>m\<close> does on every such state database what \<open>s\<close> does on
  the ledger, with the same result, be it a value, an error or a panic.
\<close>

section \<open>What the state database relies on\<close>

text \<open>An LRU cache holds a key at most once.\<close>

definition lru_keys :: "(('k \<times> 'v) list \<Rightarrow> 'k \<Rightarrow> 'v option \<times> ('k \<times> 'v) list) \<Rightarrow>
    (('k \<times> 'v) list \<Rightarrow> 'k \<Rightarrow> 'v \<Rightarrow> ('k \<times> 'v) list) \<Rightarrow> bool" where
  "lru_keys get put \<longleftrightarrow> (\<forall>c k v. distinct (map fst c) \<longrightarrow>
     distinct (map fst (snd (get c k))) \<and> distinct (map fst (put c k v)))"

definition state_env_ok :: "('d, 'z) state_env_scheme \<Rightarrow> bool" where
  "state_env_ok E \<longleftrightarrow>
     trie_env_ok E \<and>
     (\<forall>a. account_parse E (account_to_bytes E a) = Inr a) \<and>
     (\<forall>u. undelegation_from_bytes E (undelegation_to_bytes E u) = Inr u) \<and>
     lru_ok id (account_cache_get E) (account_cache_put E) \<and>
     lru_keys (account_cache_get E) (account_cache_put E) \<and>
     lru_ok id (storage_cache_get E) (storage_cache_put E) \<and>
     lru_ok id (code_cache_get E) (code_cache_put E) \<and>
     (\<forall>xs. mset (accounts_order E xs) = mset xs) \<and>
     (\<forall>xs. mset (storage_order E xs) = mset xs)"

lemma state_env_okD:
  assumes "state_env_ok E"
  shows "trie_env_ok E" "rocks_ok E"
    "account_parse E (account_to_bytes E a) = Inr a"
    "undelegation_from_bytes E (undelegation_to_bytes E u) = Inr u"
    "fst (account_cache_get E c k) = map_of c k"
    "map_of (snd (account_cache_get E c k)) = map_of c"
    "map_of (account_cache_put E c k v) \<subseteq>\<^sub>m (map_of c)(k \<mapsto> v)"
    "fst (storage_cache_get E sc k) = map_of sc k"
    "map_of (snd (storage_cache_get E sc k)) = map_of sc"
    "map_of (storage_cache_put E sc k sv) \<subseteq>\<^sub>m (map_of sc)(k \<mapsto> sv)"
    "fst (code_cache_get E cc h) = map_of cc h"
    "map_of (snd (code_cache_get E cc h)) = map_of cc"
    "map_of (code_cache_put E cc h cv) \<subseteq>\<^sub>m (map_of cc)(h \<mapsto> cv)"
    "mset (accounts_order E c) = mset c"
    "distinct (map fst c) \<Longrightarrow> distinct (map fst (snd (account_cache_get E c k)))"
    "distinct (map fst c) \<Longrightarrow> distinct (map fst (account_cache_put E c k v))"
  using assms unfolding state_env_ok_def lru_ok_def lru_keys_def trie_env_ok_def by simp_all

lemma parse_account_to_bytes: "state_env_ok E \<Longrightarrow> parse_account E (account_to_bytes E a) = Inr a"
  by (simp add: parse_account_def account_from_bytes_def state_env_okD(3))

section \<open>The ledger\<close>

record ledger =
  ld_accounts :: "address \<Rightarrow> account"
  ld_undelegations :: "bytes \<Rightarrow> bytes option"

definition account_or_default :: "account option \<Rightarrow> account" where
  "account_or_default x = (case x of None \<Rightarrow> new_eoa | Some acc \<Rightarrow> acc)"

lemma account_or_default_simps [simp]:
  "account_or_default None = new_eoa" "account_or_default (Some acc) = acc"
  by (simp_all add: account_or_default_def)

text \<open>The accounts stored in the trie, and the cached ones among them.\<close>

definition sdb_holds :: "('d, 'z) state_env_scheme \<Rightarrow> 'd state_db \<Rightarrow> (address \<Rightarrow> account option) \<Rightarrow> bool" where
  "sdb_holds E st P \<longleftrightarrow>
     (\<exists>m. trie_holds E 20 (sdb_db st, sdb_trie st) m \<and>
        (\<forall>a. rel_option (\<lambda>bs acc. parse_account E bs = Inr acc) (m (address_as_bytes a)) (P a))) \<and>
     map_of (sdb_accounts st) \<subseteq>\<^sub>m P \<and> distinct (map fst (sdb_accounts st))"

definition state_view :: "('d, 'z) state_env_scheme \<Rightarrow> 'd state_db \<Rightarrow> ledger \<Rightarrow> bool" where
  "state_view E st L \<longleftrightarrow> (\<exists>P. sdb_holds E st P \<and> ld_accounts L = account_or_default \<circ> P) \<and>
     ld_undelegations L = kv E (sdb_db st) UNDELEGATIONS"

text \<open>What no operation on the ledger touches.\<close>

definition same_frame :: "('d, 'z) state_env_scheme \<Rightarrow> 'd state_db \<Rightarrow> 'd state_db \<Rightarrow> bool" where
  "same_frame E st st' \<longleftrightarrow> sdb_root st' = sdb_root st \<and> sdb_storage st' = sdb_storage st \<and>
     sdb_code st' = sdb_code st \<and>
     (\<forall>c. c \<noteq> UNDELEGATIONS \<longrightarrow> kv E (sdb_db st') c = kv E (sdb_db st) c)"

lemma same_frame_refl [simp]: "same_frame E st st"
  by (simp add: same_frame_def)

lemma same_frame_trans: "same_frame E st st' \<Longrightarrow> same_frame E st' st'' \<Longrightarrow> same_frame E st st''"
  by (simp add: same_frame_def)

definition refines :: "('d, 'z) state_env_scheme \<Rightarrow> ('d state_db, 'e, 'a) op \<Rightarrow> (ledger, 'e, 'a) op \<Rightarrow> bool" where
  "refines E m s \<longleftrightarrow> (\<forall>st L. state_view E st L \<longrightarrow>
     (\<exists>st'. m st = (fst (s L), st') \<and> state_view E st' (snd (s L)) \<and> same_frame E st st'))"

lemma refinesI:
  assumes "\<And>st L. state_view E st L \<Longrightarrow>
     \<exists>st'. m st = (fst (s L), st') \<and> state_view E st' (snd (s L)) \<and> same_frame E st st'"
  shows "refines E m s"
  using assms unfolding refines_def by blast

lemma refinesD:
  assumes "refines E m s" "state_view E st L"
  obtains st' where "m st = (fst (s L), st')" "state_view E st' (snd (s L))" "same_frame E st st'"
  using assms unfolding refines_def by blast

named_theorems refines_intros \<open>introduction rules for refinements of the ledger\<close>

lemma refines_ret [refines_intros]: "refines E (op_ret x) (op_ret x)"
  by (simp add: refines_def)

lemma refines_fail [refines_intros]: "refines E (op_fail f) (op_fail f)"
  by (simp add: refines_def)

lemma refines_expect [refines_intros]: "refines E (op_expect x) (op_expect x)"
  by (cases x) (simp_all add: refines_def)

lemma refines_bind [refines_intros]:
  assumes "refines E m s" "\<And>x. refines E (k x) (l x)"
  shows "refines E (op_bind m k) (op_bind s l)"
proof (rule refinesI)
  fix st L
  assume v: "state_view E st L"
  obtain st' where st': "m st = (fst (s L), st')" "state_view E st' (snd (s L))" "same_frame E st st'"
    using assms(1) v by (rule refinesD)
  show "\<exists>st'. op_bind m k st = (fst (op_bind s l L), st') \<and> state_view E st' (snd (op_bind s l L)) \<and> same_frame E st st'"
  proof (cases "fst (s L)")
    case (Inl f)
    then have "s L = (Inl f, snd (s L))" by (metis prod.collapse)
    then show ?thesis using st' Inl by (auto simp: op_bind_def split: prod.splits)
  next
    case (Inr x)
    then have s: "s L = (Inr x, snd (s L))" by (metis prod.collapse)
    obtain st'' where "k x st' = (fst (l x (snd (s L))), st'')" "state_view E st'' (snd (l x (snd (s L))))"
      "same_frame E st' st''"
      using assms(2) st'(2) by (rule refinesD)
    then show ?thesis using st' Inr s same_frame_trans by (auto simp: op_bind_def split: prod.splits)
  qed
qed

lemma refines_if [refines_intros]:
  "refines E m s \<Longrightarrow> refines E m' s' \<Longrightarrow> refines E (if b then m else m') (if b then s else s')"
  by simp

lemma refines_case_option [refines_intros]:
  "refines E m s \<Longrightarrow> (\<And>x. refines E (k x) (l x)) \<Longrightarrow>
   refines E (case v of None \<Rightarrow> m | Some x \<Rightarrow> k x) (case v of None \<Rightarrow> s | Some x \<Rightarrow> l x)"
  by (cases v) simp_all

lemma refines_case_prod [refines_intros]:
  "(\<And>x y. refines E (k x y) (l x y)) \<Longrightarrow> refines E (case v of (x, y) \<Rightarrow> k x y) (case v of (x, y) \<Rightarrow> l x y)"
  by (cases v) simp

lemma refines_cong: "refines E m s \<Longrightarrow> (\<And>L. s L = s' L) \<Longrightarrow> refines E m s'"
  by (simp add: refines_def)

section \<open>Reading and writing an account\<close>

definition led_get :: "address \<Rightarrow> (ledger, 'e, account) op" where
  "led_get a = (\<lambda>L. (Inr (ld_accounts L a), L))"

definition led_set :: "address \<Rightarrow> account \<Rightarrow> (ledger, 'e, unit) op" where
  "led_set a acc = (\<lambda>L. (Inr (), L\<lparr>ld_accounts := (ld_accounts L)(a := acc)\<rparr>))"

definition led_modify :: "address \<Rightarrow> (account \<Rightarrow> account) \<Rightarrow> (ledger, 'e, unit) op" where
  "led_modify a f = (\<lambda>L. (Inr (), L\<lparr>ld_accounts := (ld_accounts L)(a := f (ld_accounts L a))\<rparr>))"

definition led_read :: "address \<Rightarrow> (account \<Rightarrow> 'a) \<Rightarrow> (ledger, 'e, 'a) op" where
  "led_read a f = (\<lambda>L. (Inr (f (ld_accounts L a)), L))"

lemma sdb_holdsE:
  assumes "sdb_holds E st P"
  obtains m where "trie_holds E 20 (sdb_db st, sdb_trie st) m"
    "\<And>a. rel_option (\<lambda>bs acc. parse_account E bs = Inr acc) (m (address_as_bytes a)) (P a)"
    "map_of (sdb_accounts st) \<subseteq>\<^sub>m P" "distinct (map fst (sdb_accounts st))"
  using assms unfolding sdb_holds_def by blast

lemma sdb_holdsI:
  assumes "trie_holds E 20 (sdb_db st, sdb_trie st) m"
    "\<And>a. rel_option (\<lambda>bs acc. parse_account E bs = Inr acc) (m (address_as_bytes a)) (P a)"
    "map_of (sdb_accounts st) \<subseteq>\<^sub>m P" "distinct (map fst (sdb_accounts st))"
  shows "sdb_holds E st P"
  using assms unfolding sdb_holds_def by blast

lemma map_le_put:
  assumes "m' \<subseteq>\<^sub>m m(k \<mapsto> v)" "m \<subseteq>\<^sub>m P"
  shows "m' \<subseteq>\<^sub>m P(k \<mapsto> v)"
  using assms by (metis map_le_trans map_le_upd)

lemma get_account_holds:
  assumes E: "state_env_ok E" and h: "sdb_holds E st P"
  obtains st' where "get_account E a st = (Inr (account_or_default (P a)), st')" "sdb_holds E st' P"
    "same_frame E st st'" "sdb_db st' = sdb_db st"
proof -
  obtain m where m: "trie_holds E 20 (sdb_db st, sdb_trie st) m"
    "\<And>a. rel_option (\<lambda>bs acc. parse_account E bs = Inr acc) (m (address_as_bytes a)) (P a)"
    "map_of (sdb_accounts st) \<subseteq>\<^sub>m P" "distinct (map fst (sdb_accounts st))"
    using h by (rule sdb_holdsE) blast
  obtain r c where rc: "account_cache_get E (sdb_accounts st) a = (r, c)" by fastforce
  have c: "r = map_of (sdb_accounts st) a" "map_of c = map_of (sdb_accounts st)"
    using state_env_okD(5,6) [OF E, of "sdb_accounts st" a] rc by simp_all
  have dc: "distinct (map fst c)" using state_env_okD(15) [OF E m(4), of a] rc by simp
  show thesis
  proof (cases r)
    case (Some acc)
    then have "P a = Some acc" using c m(3) map_le_SomeD by metis
    moreover have "sdb_holds E (st\<lparr>sdb_accounts := c\<rparr>) P" using m c dc by (intro sdb_holdsI [of E _ m]) simp_all
    ultimately show thesis using Some rc by (intro that [of "st\<lparr>sdb_accounts := c\<rparr>"]) (simp_all add: get_account_def same_frame_def)
  next
    case None
    obtain s' where s': "trie_get E (address_as_bytes a) (sdb_db st, sdb_trie st) = (Inr (m (address_as_bytes a)), s')"
      "grows E (sdb_db st, sdb_trie st) s'"
      using trie_get_holds [OF state_env_okD(1) [OF E] m(1), of "address_as_bytes a"] by auto
    define st1 where "st1 = st\<lparr>sdb_accounts := c, sdb_db := fst s', sdb_trie := snd s'\<rparr>"
    have db: "fst s' = sdb_db st" using s'(2) by (simp add: grows_def)
    have hold1: "trie_holds E 20 (sdb_db st1, sdb_trie st1) m"
      using trie_holds_grows [OF m(1) s'(2)] by (simp add: st1_def)
    have run: "on_trie (trie_get E (address_as_bytes a)) (st\<lparr>sdb_accounts := c\<rparr>) = (Inr (m (address_as_bytes a)), st1)"
      using s'(1) by (simp add: on_trie_def st1_def split: prod.splits)
    show thesis
    proof (cases "P a")
      case P: None
      then have "m (address_as_bytes a) = None" using m(2) [of a] by simp
      moreover have "sdb_holds E st1 P" using hold1 m(2,3) c dc by (intro sdb_holdsI [of E st1 m]) (simp_all add: st1_def)
      ultimately show thesis
        using None rc run P db by (intro that [of st1]) (simp_all add: get_account_def, simp_all add: st1_def same_frame_def)
    next
      case P: (Some acc)
      then obtain bs where bs: "m (address_as_bytes a) = Some bs" "parse_account E bs = Inr acc"
        using m(2) [of a] by (cases "m (address_as_bytes a)") auto
      let ?st2 = "st1\<lparr>sdb_accounts := account_cache_put E c a acc\<rparr>"
      have "map_of (account_cache_put E c a acc) \<subseteq>\<^sub>m P"
        using map_le_put [OF state_env_okD(7) [OF E, of c a acc], of P] m(3) c(2) P by (simp add: fun_upd_idem)
      then have "sdb_holds E ?st2 P"
        using hold1 m(2) state_env_okD(16) [OF E dc] by (intro sdb_holdsI [of E _ m]) simp_all
      then show thesis
        using None rc run P bs db
        by (intro that [of ?st2]) (simp_all add: get_account_def st1_def same_frame_def)
    qed
  qed
qed

lemma set_account_holds:
  assumes E: "state_env_ok E" and h: "sdb_holds E st P"
  obtains st' where "set_account E a acc st = (Inr (), st')" "sdb_holds E st' (P(a \<mapsto> acc))"
    "same_frame E st st'" "sdb_db st' = sdb_db st"
proof -
  obtain m where m: "trie_holds E 20 (sdb_db st, sdb_trie st) m"
    "\<And>a. rel_option (\<lambda>bs acc. parse_account E bs = Inr acc) (m (address_as_bytes a)) (P a)"
    "map_of (sdb_accounts st) \<subseteq>\<^sub>m P" "distinct (map fst (sdb_accounts st))"
    using h by (rule sdb_holdsE) blast
  obtain t where s': "trie_insert E (address_as_bytes a) (account_to_bytes E acc) (sdb_db st, sdb_trie st) =
      (Inr (), (sdb_db st, t))"
    "trie_holds E 20 (sdb_db st, t) (m(address_as_bytes a \<mapsto> account_to_bytes E acc))"
    using trie_insert_holds [OF state_env_okD(1) [OF E] m(1), of "address_as_bytes a"]
    by (metis fst_conv length_address_as_bytes prod.collapse)
  let ?st = "st\<lparr>sdb_accounts := account_cache_put E (sdb_accounts st) a acc, sdb_db := sdb_db st, sdb_trie := t\<rparr>"
  have "map_of (account_cache_put E (sdb_accounts st) a acc) \<subseteq>\<^sub>m P(a \<mapsto> acc)"
    using state_env_okD(7) [OF E] m(3) by (rule map_le_put)
  then have "sdb_holds E ?st (P(a \<mapsto> acc))"
    using s'(2) m(2) parse_account_to_bytes [OF E] state_env_okD(16) [OF E m(4)]
    by (intro sdb_holdsI [of E _ "m(address_as_bytes a \<mapsto> account_to_bytes E acc)"]) simp_all
  then show thesis
    using s' by (intro that [of ?st]) (simp_all add: set_account_def on_trie_def same_frame_def)
qed

lemma state_viewE:
  assumes "state_view E st L"
  obtains P where "sdb_holds E st P" "ld_accounts L = account_or_default \<circ> P"
    "ld_undelegations L = kv E (sdb_db st) UNDELEGATIONS"
  using assms unfolding state_view_def by blast

lemma state_viewI:
  assumes "sdb_holds E st P" "ld_accounts L = account_or_default \<circ> P"
    "ld_undelegations L = kv E (sdb_db st) UNDELEGATIONS"
  shows "state_view E st L"
  using assms unfolding state_view_def by blast

lemma get_account_refines [refines_intros]:
  assumes E: "state_env_ok E"
  shows "refines E (get_account E a) (led_get a)"
proof (rule refinesI)
  fix st L
  assume "state_view E st L"
  then obtain P where P: "sdb_holds E st P" "ld_accounts L = account_or_default \<circ> P"
    "ld_undelegations L = kv E (sdb_db st) UNDELEGATIONS" by (rule state_viewE)
  obtain st' where "get_account E a st = (Inr (account_or_default (P a)), st')" "sdb_holds E st' P"
    "same_frame E st st'" "sdb_db st' = sdb_db st" using get_account_holds [OF E P(1)] .
  then show "\<exists>st'. get_account E a st = (fst (led_get a L), st') \<and> state_view E st' (snd (led_get a L)) \<and> same_frame E st st'"
    using P by (intro exI [of _ st']) (auto intro!: state_viewI [of E st' P] simp: led_get_def)
qed

lemma set_account_refines [refines_intros]:
  assumes E: "state_env_ok E"
  shows "refines E (set_account E a acc) (led_set a acc)"
proof (rule refinesI)
  fix st L
  assume "state_view E st L"
  then obtain P where P: "sdb_holds E st P" "ld_accounts L = account_or_default \<circ> P"
    "ld_undelegations L = kv E (sdb_db st) UNDELEGATIONS" by (rule state_viewE)
  obtain st' where "set_account E a acc st = (Inr (), st')" "sdb_holds E st' (P(a \<mapsto> acc))"
    "same_frame E st st'" "sdb_db st' = sdb_db st" using set_account_holds [OF E P(1)] .
  then show "\<exists>st'. set_account E a acc st = (fst (led_set a acc L), st') \<and> state_view E st' (snd (led_set a acc L)) \<and> same_frame E st st'"
    using P by (intro exI [of _ st']) (auto intro!: state_viewI [of E st' "P(a \<mapsto> acc)"] simp: led_set_def fun_eq_iff)
qed

lemma modify_account_refines [refines_intros]:
  assumes E: "state_env_ok E"
  shows "refines E (modify_account E a f) (led_modify a f)"
  unfolding modify_account_def
  by (rule refines_cong, (rule refines_intros E)+) (simp add: op_bind_def led_get_def led_set_def led_modify_def)

lemma read_account_refines [refines_intros]:
  assumes E: "state_env_ok E"
  shows "refines E (read_account E a f) (led_read a f)"
  unfolding read_account_def
  by (rule refines_cong, (rule refines_intros E)+) (simp add: op_bind_def led_get_def led_read_def)

section \<open>Balances and nonces\<close>

definition led_sub_balance :: "address \<Rightarrow> u256 \<Rightarrow> (ledger, state_error, unit) op" where
  "led_sub_balance a v = (\<lambda>L.
     if v \<le> balance (ld_accounts L a) then led_modify a (\<lambda>acc. acc\<lparr>balance := balance acc - v\<rparr>) L
     else (Inl (Err (InsufficientBalance v (balance (ld_accounts L a)))), L))"

definition led_transfer :: "address \<Rightarrow> address \<Rightarrow> u256 \<Rightarrow> (ledger, state_error, unit) op" where
  "led_transfer src dst v =
     (if v = 0 then op_ret () else op_bind (led_sub_balance src v) (\<lambda>_. led_modify dst (acc_add_balance v)))"

definition led_increment_nonce :: "address \<Rightarrow> (ledger, 'e, u64) op" where
  "led_increment_nonce a = op_bind (led_modify a acc_increment_nonce) (\<lambda>_. led_read a nonce)"

named_theorems led_defs \<open>definitions of the operations on the ledger\<close>

declare led_get_def [led_defs] led_set_def [led_defs] led_modify_def [led_defs] led_read_def [led_defs]
  led_sub_balance_def [led_defs]

lemma sub_balance_refines [refines_intros]:
  assumes E: "state_env_ok E"
  shows "refines E (sub_balance E a v) (led_sub_balance a v)"
  unfolding sub_balance_def
  by (rule refines_cong, (rule refines_intros E)+)
     (auto simp: op_bind_def led_defs acc_sub_balance_def op_fail_def)

lemma transfer_refines [refines_intros]:
  assumes E: "state_env_ok E"
  shows "refines E (state_transfer E src dst v) (led_transfer src dst v)"
  unfolding state_transfer_def add_balance_def
  by (rule refines_cong, (rule refines_intros E)+)
     (auto simp: op_bind_def led_defs led_transfer_def op_fail_def u256_is_zero_def)

lemma increment_nonce_refines [refines_intros]:
  assumes E: "state_env_ok E"
  shows "refines E (increment_nonce E a) (led_increment_nonce a)"
  unfolding increment_nonce_def Let_def
  by (rule refines_cong, (rule refines_intros E)+) (simp add: op_bind_def led_defs led_increment_nonce_def op_ret_def)

definition led_sub_delegation :: "address \<Rightarrow> u256 \<Rightarrow> (ledger, 'e, bool) op" where
  "led_sub_delegation a v = (\<lambda>L. case acc_sub_delegated_amount v (ld_accounts L a) of
     None \<Rightarrow> (Inr False, L)
   | Some acc \<Rightarrow> (Inr True, L\<lparr>ld_accounts := (ld_accounts L)(a := acc)\<rparr>))"

lemma sub_delegation_refines [refines_intros]:
  assumes E: "state_env_ok E"
  shows "refines E (sub_delegation_amount E a v) (led_sub_delegation a v)"
proof -
  have "sub_delegation_amount E a v = op_bind (get_account E a) (\<lambda>acc.
     case acc_sub_delegated_amount v acc of
       None \<Rightarrow> op_ret False | Some acc' \<Rightarrow> op_bind (set_account E a acc') (\<lambda>_. op_ret True))"
    unfolding sub_delegation_amount_def by (rule arg_cong [of _ _ "op_bind _"]) (simp add: fun_eq_iff split: option.split)
  then show ?thesis
    by (simp only:) (rule refines_cong, (rule refines_intros E)+,
      simp add: op_bind_def led_defs led_sub_delegation_def split: option.split)
qed

lemmas account_op_defs = account_exists_def get_balance_def set_balance_def add_balance_def
  get_nonce_def set_nonce_def get_code_hash_def get_stake_def set_stake_def
  get_contribution_score_def set_contribution_score_def get_delegation_def get_delegation_amount_def
  set_delegation_def clear_delegation_def add_delegation_amount_def state_has_delegation_def
  get_direct_stake_def

section \<open>Sums over all accounts\<close>

text \<open>A sum that saturates at the largest \<open>U256\<close>.\<close>

definition u256_sat :: "nat \<Rightarrow> u256" where
  "u256_sat n = of_nat (min n (2 ^ 256 - 1))"

lemma unat_u256_sat: "unat (u256_sat n) = min n (2 ^ 256 - 1)"
  by (simp add: u256_sat_def unat_of_nat)

definition led_total_delegated_to :: "address \<Rightarrow> ledger \<Rightarrow> u256" where
  "led_total_delegated_to v L = u256_sat (\<Sum>a\<in>UNIV.
     if delegated_to (ld_accounts L a) = Some v then unat (acc_get_delegated_amount (ld_accounts L a)) else 0)"

definition led_total_stake :: "ledger \<Rightarrow> u256" where
  "led_total_stake L = u256_sat (\<Sum>a\<in>UNIV.
     unat (acc_get_stake (ld_accounts L a)) + unat (acc_get_delegated_amount (ld_accounts L a)))"

lemma op_fold_pure:
  "(\<And>x. x \<in> set xs \<Longrightarrow> f x = (\<lambda>b. op_ret (g x b))) \<Longrightarrow> op_fold f xs b = op_ret (fold g xs b)"
  by (induction xs arbitrary: b) (simp_all add: op_ret_def op_bind_def)

lemma fold_saturating:
  assumes "\<And>x t. unat (g x t) = min (unat t + n x) (2 ^ 256 - 1)"
  shows "unat (fold g xs (t :: u256)) = min (unat t + (\<Sum>x\<leftarrow>xs. n x)) (2 ^ 256 - 1)"
proof (induction xs arbitrary: t)
  case Nil
  then show ?case using unat_u256_bound [of t] by simp
next
  case (Cons x xs)
  then show ?case by (simp add: assms min_def)
qed

lemma address_bytes_surj:
  assumes "length k = 20"
  shows "\<exists>a. address_as_bytes a = k"
proof -
  have "be_nat k < 2 ^ 160" using be_nat_bound [of k] assms by simp
  then have "address_as_bytes (of_nat (be_nat k)) = be_bytes (length k) (be_nat k)"
    using assms by (simp add: address_as_bytes_def unat_of_nat)
  then show ?thesis using be_bytes_be_nat [of k] by metis
qed

lemma sum_accounts_eq:
  assumes holds: "trie_holds E 20 s m"
    and rel: "\<And>a. rel_option (\<lambda>bs acc. parse_account E bs = Inr acc) (m (address_as_bytes a)) (P a)"
    and ks: "distinct ks" "set ks = dom m" and zero: "n new_eoa = 0"
  shows "(\<Sum>k\<leftarrow>ks. n (projr (parse_account E (the (m k))))) = (\<Sum>a\<in>UNIV. n (account_or_default (P a)) :: nat)"
proof -
  have img: "set ks = address_as_bytes ` {a. P a \<noteq> None}"
  proof -
    have "m k \<noteq> None \<longleftrightarrow> (\<exists>a. k = address_as_bytes a \<and> P a \<noteq> None)" for k
    proof
      assume k: "m k \<noteq> None"
      then have "length k = 20" using holds by (auto simp: trie_holds_def split: if_splits)
      then obtain a where "address_as_bytes a = k" using address_bytes_surj by blast
      then show "\<exists>a. k = address_as_bytes a \<and> P a \<noteq> None" using rel [of a] k
        by (intro exI [of _ a]) (cases "m k"; cases "P a"; simp)
    next
      assume "\<exists>a. k = address_as_bytes a \<and> P a \<noteq> None"
      then obtain a where "k = address_as_bytes a" "P a \<noteq> None" by blast
      then show "m k \<noteq> None" using rel [of a] by (cases "m k"; cases "P a") simp_all
    qed
    then show ?thesis using ks(2) by (auto simp: dom_def)
  qed
  have val: "projr (parse_account E (the (m (address_as_bytes a)))) = account_or_default (P a)" if "P a \<noteq> None" for a
    using rel [of a] that by (auto simp: option_rel_Some2)
  have "(\<Sum>k\<leftarrow>ks. n (projr (parse_account E (the (m k))))) = (\<Sum>k\<in>set ks. n (projr (parse_account E (the (m k)))))"
    using ks(1) by (simp add: sum_list_distinct_conv_sum_set)
  also have "\<dots> = (\<Sum>a\<in>{a. P a \<noteq> None}. n (account_or_default (P a)))"
    unfolding img by (subst sum.reindex) (auto simp: inj_on_def val)
  also have "\<dots> = (\<Sum>a\<in>UNIV. n (account_or_default (P a)))"
    by (rule sum.mono_neutral_left) (auto simp: zero)
  finally show ?thesis .
qed

lemma fold_accounts_refines:
  fixes E :: "('d, 'z) state_env_scheme"
  assumes E: "state_env_ok E"
    and g: "\<And>acc t. unat (g acc t) = min (unat t + n acc) (2 ^ 256 - 1)" and zero: "n new_eoa = 0"
  shows "refines E (fold_accounts E g) (\<lambda>L. (Inr (u256_sat (\<Sum>a\<in>UNIV. n (ld_accounts L a))), L))"
proof (rule refinesI)
  fix st L
  assume "state_view E st L"
  then obtain P where P: "sdb_holds E st P" "ld_accounts L = account_or_default \<circ> P"
    "ld_undelegations L = kv E (sdb_db st) UNDELEGATIONS" by (rule state_viewE)
  then obtain m where m: "trie_holds E 20 (sdb_db st, sdb_trie st) m"
    "\<And>a. rel_option (\<lambda>bs acc. parse_account E bs = Inr acc) (m (address_as_bytes a)) (P a)"
    "map_of (sdb_accounts st) \<subseteq>\<^sub>m P" "distinct (map fst (sdb_accounts st))"
    by (metis sdb_holdsE)
  obtain s' ks where r: "trie_values E account_trie_fuel (sdb_db st, sdb_trie st) = (Inr (map (\<lambda>k. the (m k)) ks), s')"
    "grows E (sdb_db st, sdb_trie st) s'" "distinct ks" "set ks = dom m"
    by (rule trie_values_holds [OF state_env_okD(1) [OF E] m(1), of account_trie_fuel])
       (simp add: account_trie_fuel_def, rule that)
  obtain t where s': "s' = (sdb_db st, t)" using r(2) by (cases s') (simp add: grows_def)
  let ?st = "st\<lparr>sdb_trie := t\<rparr>"
  have parse: "\<exists>acc. parse_account E bs = Inr acc" if bs: "bs \<in> set (map (\<lambda>k. the (m k)) ks)" for bs
  proof -
    obtain k where k: "k \<in> dom m" "bs = the (m k)" using bs r(4) by auto
    then have "length k = 20" using m(1) by (auto simp: trie_holds_def split: if_splits)
    then obtain a where "address_as_bytes a = k" using address_bytes_surj by blast
    then show ?thesis using m(2) [of a] k by (auto simp: option_rel_Some1)
  qed
  have "op_fold (\<lambda>bs total. case parse_account E bs of Inl e \<Rightarrow> op_fail (Err (StSerialization e))
      | Inr acc \<Rightarrow> op_ret (g acc total)) (map (\<lambda>k. the (m k)) ks) 0 =
    (op_ret (fold (\<lambda>bs. g (projr (parse_account E bs))) (map (\<lambda>k. the (m k)) ks) 0) :: ('d, u256) state_op)"
    by (rule op_fold_pure) (use parse in fastforce)
  moreover have "fold (\<lambda>bs. g (projr (parse_account E bs))) (map (\<lambda>k. the (m k)) ks) 0 =
      u256_sat (\<Sum>a\<in>UNIV. n (ld_accounts L a))"
    using fold_saturating [of "\<lambda>bs. g (projr (parse_account E bs))" "\<lambda>bs. n (projr (parse_account E bs))" "map (\<lambda>k. the (m k)) ks" 0]
      g sum_accounts_eq [OF m(1) _ r(3,4), of P n] m(2) zero
    by (simp add: word_unat_eq_iff unat_u256_sat P(2) comp_def)
  moreover have "sdb_holds E ?st P"
    using m trie_holds_grows [OF m(1) r(2)] s' by (intro sdb_holdsI [of E _ m]) simp_all
  ultimately show "\<exists>st'. fold_accounts E g st = (fst (Inr (u256_sat (\<Sum>a\<in>UNIV. n (ld_accounts L a))) :: state_error fault + u256, L), st') \<and>
      state_view E st' (snd (Inr (u256_sat (\<Sum>a\<in>UNIV. n (ld_accounts L a))) :: state_error fault + u256, L)) \<and> same_frame E st st'"
    using r(1) s' P(2,3)
    by (intro exI [of _ ?st]) (auto intro!: state_viewI [of E ?st P] simp: fold_accounts_def on_trie_def op_bind_def same_frame_def)
qed

lemma unat_u256_le: "unat (x :: u256) \<le> 2 ^ 256 - 1"
  using unat_u256_bound [of x] by simp

lemma get_total_delegated_to_refines [refines_intros]:
  assumes E: "state_env_ok E"
  shows "refines E (get_total_delegated_to E v) (\<lambda>L. (Inr (led_total_delegated_to v L), L))"
  unfolding get_total_delegated_to_def led_total_delegated_to_def
  by (intro fold_accounts_refines [OF E, where n = "\<lambda>acc. if delegated_to acc = Some v then unat (acc_get_delegated_amount acc) else 0"])
     (use unat_u256_le in \<open>simp_all add: u256_saturating_add_def unat_sat_add new_eoa_def min_absorb1\<close>)

lemma get_total_stake_refines [refines_intros]:
  assumes E: "state_env_ok E"
  shows "refines E (get_total_stake E) (\<lambda>L. (Inr (led_total_stake L), L))"
  unfolding get_total_stake_def led_total_stake_def
  by (intro fold_accounts_refines [OF E, where n = "\<lambda>acc. unat (acc_get_stake acc) + unat (acc_get_delegated_amount acc)"])
     (auto simp: u256_saturating_add_def unat_sat_add acc_get_stake_def acc_get_delegated_amount_def new_eoa_def min_def)

section \<open>Undelegations\<close>

text \<open>The entries of a finite map on byte strings, in the order of the keys.\<close>

definition map_entries :: "(bytes \<Rightarrow> bytes option) \<Rightarrow> (bytes \<times> bytes) list" where
  "map_entries U = map (\<lambda>k. (k, the (U k))) (sorted_list_of_set (dom U))"

lemma sorted_entries_unique:
  assumes "sorted_wrt (<) (map fst xs)" "\<And>k v. (k, v) \<in> set xs \<longleftrightarrow> U k = Some v"
  shows "xs = map_entries U" "finite (dom U)"
proof -
  have dom: "dom U = set (map fst xs)" using assms(2) by (force simp: dom_def)
  then show "finite (dom U)" by simp
  have "map fst xs = sorted_list_of_set (dom U)"
    unfolding dom using assms(1) by (metis sorted_list_of_set.idem_if_sorted_distinct strict_sorted_iff)
  moreover have "xs = map (\<lambda>k. (k, the (U k))) (map fst xs)"
    using assms(2) by (intro nth_equalityI) (auto simp: in_set_conv_nth, metis nth_mem option.sel prod.collapse)
  ultimately show "xs = map_entries U" by (simp add: map_entries_def)
qed

definition led_store_undelegation :: "('d, 'z) state_env_scheme \<Rightarrow> undelegation \<Rightarrow> (ledger, 'e, unit) op" where
  "led_store_undelegation E u = (\<lambda>L. (Inr (), L\<lparr>ld_undelegations := (ld_undelegations L)
     (undelegation_storage_key (u_delegator u) (u_validator u) (u_unlock_at u) \<mapsto> undelegation_to_bytes E u)\<rparr>))"

definition led_delete_undelegation :: "address \<Rightarrow> address \<Rightarrow> u64 \<Rightarrow> (ledger, 'e, unit) op" where
  "led_delete_undelegation d v t = (\<lambda>L. (Inr (), L\<lparr>ld_undelegations := (ld_undelegations L)
     (undelegation_storage_key d v t := None)\<rparr>))"

definition led_mature :: "('d, 'z) state_env_scheme \<Rightarrow> u64 \<Rightarrow> ledger \<Rightarrow> undelegation list" where
  "led_mature E t L = filter (\<lambda>u. undelegation_is_unlocked u t)
     (parsed_undelegations E (map_entries (ld_undelegations L)))"

lemma trie_holds_db:
  assumes "kv E d STATE = kv E d' STATE" "trie_holds E n (d, t) m"
  shows "trie_holds E n (d', t) m"
proof -
  have "avail E (d', t) = avail E (d, t)" using assms(1) by (simp add: avail_def fun_eq_iff)
  then have "stored E (d', t) T = stored E (d, t) T" for T by (induction T) (auto simp: pred_option_def)
  moreover have "coherent E (d', t) = coherent E (d, t)" using assms(1) by (simp add: coherent_def)
  ultimately show ?thesis using assms(2) unfolding trie_holds_def by (auto simp: pred_option_def)
qed

lemma sdb_holds_db:
  assumes "sdb_holds E st P" "kv E (sdb_db st) STATE = kv E d STATE"
  shows "sdb_holds E (st\<lparr>sdb_db := d\<rparr>) P"
proof -
  obtain m where m: "trie_holds E 20 (sdb_db st, sdb_trie st) m"
    "\<And>a. rel_option (\<lambda>bs acc. parse_account E bs = Inr acc) (m (address_as_bytes a)) (P a)"
    "map_of (sdb_accounts st) \<subseteq>\<^sub>m P" "distinct (map fst (sdb_accounts st))"
    using assms(1) by (rule sdb_holdsE) blast
  then show ?thesis using trie_holds_db [OF assms(2) m(1)] by (intro sdb_holdsI [of E _ m]) simp_all
qed

lemma state_view_db:
  assumes "state_view E st L" "kv E d' = (kv E (sdb_db st))(UNDELEGATIONS := U)"
  shows "state_view E (st\<lparr>sdb_db := d'\<rparr>) (L\<lparr>ld_undelegations := U\<rparr>)" "same_frame E st (st\<lparr>sdb_db := d'\<rparr>)"
proof -
  obtain P where P: "sdb_holds E st P" "ld_accounts L = account_or_default \<circ> P" using assms(1) by (rule state_viewE)
  show "state_view E (st\<lparr>sdb_db := d'\<rparr>) (L\<lparr>ld_undelegations := U\<rparr>)"
    using P sdb_holds_db [OF P(1), of d'] assms(2) by (intro state_viewI [of _ _ P]) simp_all
  show "same_frame E st (st\<lparr>sdb_db := d'\<rparr>)" using assms(2) by (simp add: same_frame_def)
qed

lemma store_undelegation_refines [refines_intros]:
  assumes E: "state_env_ok E"
  shows "refines E (store_undelegation E u) (led_store_undelegation E u)"
proof (rule refinesI)
  fix st L
  let ?k = "undelegation_storage_key (u_delegator u) (u_validator u) (u_unlock_at u)"
  assume v: "state_view E st L"
  obtain d' where d': "db_put E UNDELEGATIONS ?k (undelegation_to_bytes E u) (sdb_db st) = (Inr (), d')"
    "kv E d' = (kv E (sdb_db st))(UNDELEGATIONS := (kv E (sdb_db st) UNDELEGATIONS)(?k \<mapsto> undelegation_to_bytes E u))"
    using db_put_ok [OF state_env_okD(2) [OF E]] by metis
  moreover have "ld_undelegations L = kv E (sdb_db st) UNDELEGATIONS" using v by (simp add: state_view_def)
  ultimately show "\<exists>st'. store_undelegation E u st = (fst (led_store_undelegation E u L), st') \<and>
      state_view E st' (snd (led_store_undelegation E u L)) \<and> same_frame E st st'"
    using state_view_db [OF v d'(2)]
    by (intro exI [of _ "st\<lparr>sdb_db := d'\<rparr>"]) (simp add: store_undelegation_def on_db_def led_store_undelegation_def)
qed

lemma delete_undelegation_refines [refines_intros]:
  assumes E: "state_env_ok E"
  shows "refines E (delete_undelegation E d v t) (led_delete_undelegation d v t)"
proof (rule refinesI)
  fix st L
  let ?k = "undelegation_storage_key d v t"
  assume v: "state_view E st L"
  obtain d' where d': "db_delete E UNDELEGATIONS ?k (sdb_db st) = (Inr (), d')"
    "kv E d' = (kv E (sdb_db st))(UNDELEGATIONS := (kv E (sdb_db st) UNDELEGATIONS)(?k := None))"
    using db_delete_ok [OF state_env_okD(2) [OF E]] by metis
  moreover have "ld_undelegations L = kv E (sdb_db st) UNDELEGATIONS" using v by (simp add: state_view_def)
  ultimately show "\<exists>st'. delete_undelegation E d v t st = (fst (led_delete_undelegation d v t L), st') \<and>
      state_view E st' (snd (led_delete_undelegation d v t L)) \<and> same_frame E st st'"
    using state_view_db [OF v d'(2)]
    by (intro exI [of _ "st\<lparr>sdb_db := d'\<rparr>"]) (simp add: delete_undelegation_def on_db_def led_delete_undelegation_def)
qed

lemma get_mature_refines [refines_intros]:
  assumes E: "state_env_ok E"
  shows "refines E (get_mature_undelegations E t) (\<lambda>L. (Inr (led_mature E t L), L))"
proof (rule refinesI)
  fix st L
  assume v: "state_view E st L"
  obtain xs where xs: "db_iter_from E UNDELEGATIONS [] (sdb_db st) = (Inr xs, sdb_db st)" "sorted_wrt (<) (map fst xs)"
    "\<And>x v. (x, v) \<in> set xs \<longleftrightarrow> [] \<le> x \<and> kv E (sdb_db st) UNDELEGATIONS x = Some v"
    by (rule db_iter_from_ok [OF state_env_okD(2) [OF E], of UNDELEGATIONS "[]" "sdb_db st"], rule that)
  then have "xs = map_entries (ld_undelegations L)"
    using v by (intro sorted_entries_unique) (simp_all add: state_view_def)
  then show "\<exists>st'. get_mature_undelegations E t st = (fst (Inr (led_mature E t L) :: state_error fault + undelegation list, L), st') \<and>
      state_view E st' (snd (Inr (led_mature E t L) :: state_error fault + undelegation list, L)) \<and> same_frame E st st'"
    using v xs(1) by (intro exI [of _ st])
      (simp add: get_mature_undelegations_def db_iter_def on_db_def op_bind_def led_mature_def)
qed

section \<open>Commit and revert\<close>

text \<open>A commit returns the root of the trie, after which a state database opened at that root
  represents the same ledger.\<close>

definition at_root :: "('d, 'z) state_env_scheme \<Rightarrow> 'd \<Rightarrow> hash \<Rightarrow> ledger \<Rightarrow> bool" where
  "at_root E d root L \<longleftrightarrow> state_view E (state_with_root d root) L"

lemma state_commit_view:
  assumes E: "state_env_ok E" and v: "state_view E st L"
  obtains st' root where "state_commit E st = (Inr root, st')" "state_view E st' L"
    "at_root E (sdb_db st') root L" "sdb_root st' = root" "root = tr_root (sdb_trie st)"
    "tr_root (sdb_trie st') = root" "\<And>c. c \<noteq> STATE \<Longrightarrow> kv E (sdb_db st') c = kv E (sdb_db st) c"
proof -
  obtain P where P: "sdb_holds E st P" "ld_accounts L = account_or_default \<circ> P"
    "ld_undelegations L = kv E (sdb_db st) UNDELEGATIONS" using v by (rule state_viewE)
  then obtain m where m: "trie_holds E 20 (sdb_db st, sdb_trie st) m"
    "\<And>a. rel_option (\<lambda>bs acc. parse_account E bs = Inr acc) (m (address_as_bytes a)) (P a)"
    "map_of (sdb_accounts st) \<subseteq>\<^sub>m P" "distinct (map fst (sdb_accounts st))"
    by (metis sdb_holdsE)
  obtain d' t' where c: "trie_commit E (sdb_db st, sdb_trie st) = (Inr (tr_root (sdb_trie st)), (d', t'))"
    "trie_holds E 20 (d', t') m" "tr_root t' = tr_root (sdb_trie st)"
    "trie_holds E 20 (d', trie_with_root (tr_root (sdb_trie st))) m" "\<And>c. c \<noteq> STATE \<Longrightarrow> kv E d' c = kv E (sdb_db st) c"
    using trie_commit_holds [OF state_env_okD(1) [OF E] m(1)] by metis
  let ?r = "tr_root (sdb_trie st)"
  let ?st = "st\<lparr>sdb_db := d', sdb_trie := t', sdb_root := ?r\<rparr>"
  have "sdb_holds E ?st P" using c m by (intro sdb_holdsI [of E _ m]) simp_all
  then have "state_view E ?st L" using P c(5) by (intro state_viewI [of _ _ P]) simp_all
  moreover have "sdb_holds E (state_with_root d' ?r) P"
    using c m by (intro sdb_holdsI [of E _ m]) (simp_all add: state_with_root_def)
  then have "at_root E d' ?r L"
    unfolding at_root_def using P c(5) by (intro state_viewI [of _ _ P]) (simp_all add: state_with_root_def)
  ultimately show thesis
    using c by (intro that [of ?r ?st]) (simp_all add: state_commit_def on_trie_def)
qed

lemma rebuild_cache_le:
  assumes put: "\<And>c k v. map_of (put c k v) \<subseteq>\<^sub>m (map_of c)(k \<mapsto> v)"
    "\<And>c k v. distinct (map fst c) \<Longrightarrow> distinct (map fst (put c k v))"
    and xs: "\<And>k v. (k, v) \<in> set xs \<Longrightarrow> P k = Some v"
  shows "map_of (rebuild_cache put xs) \<subseteq>\<^sub>m P \<and> distinct (map fst (rebuild_cache put xs))"
proof -
  have "map_of (foldl (\<lambda>c (k, v). put c k v) c xs) \<subseteq>\<^sub>m P \<and> distinct (map fst (foldl (\<lambda>c (k, v). put c k v) c xs))"
    if "map_of c \<subseteq>\<^sub>m P" "distinct (map fst c)" for c
    using xs that
  proof (induction xs arbitrary: c)
    case (Cons x xs)
    obtain k v where x: "x = (k, v)" by (cases x)
    have "map_of (put c k v) \<subseteq>\<^sub>m P(k \<mapsto> v)" using put(1) Cons.prems(2) by (rule map_le_put)
    moreover have "P(k \<mapsto> v) = P" using Cons.prems(1) x by (simp add: fun_upd_idem)
    ultimately show ?case using Cons put(2) x by simp
  qed simp
  from this [of "[]"] show ?thesis by (simp add: rebuild_cache_def)
qed

text \<open>Reverting to a snapshot that was taken when everything was committed brings back the ledger
  of the snapshot, but keeps the undelegations.\<close>

definition clean :: "('d, 'z) state_env_scheme \<Rightarrow> 'd state_db \<Rightarrow> ledger \<Rightarrow> bool" where
  "clean E st L \<longleftrightarrow> state_view E st L \<and> at_root E (sdb_db st) (sdb_root st) L \<and>
     tr_root (sdb_trie st) = sdb_root st"

lemma clean_holds:
  assumes E: "state_env_ok E" and c: "clean E st L"
  obtains P where "sdb_holds E st P" "sdb_holds E (state_with_root (sdb_db st) (sdb_root st)) P"
    "ld_accounts L = account_or_default \<circ> P"
proof -
  obtain P where P: "sdb_holds E st P" "ld_accounts L = account_or_default \<circ> P"
    using c unfolding clean_def by (blast elim: state_viewE)
  obtain Q where Q: "sdb_holds E (state_with_root (sdb_db st) (sdb_root st)) Q"
    using c unfolding clean_def at_root_def by (blast elim: state_viewE)
  obtain m where m: "trie_holds E 20 (sdb_db st, sdb_trie st) m"
    "\<And>a. rel_option (\<lambda>bs acc. parse_account E bs = Inr acc) (m (address_as_bytes a)) (P a)"
    using P(1) by (metis sdb_holdsE)
  obtain m' where m': "trie_holds E 20 (sdb_db st, trie_with_root (sdb_root st)) m'"
    "\<And>a. rel_option (\<lambda>bs acc. parse_account E bs = Inr acc) (m' (address_as_bytes a)) (Q a)"
    using Q by (rule sdb_holdsE) (simp add: state_with_root_def that)
  have "m = m'"
    using root_eq_map_eq [OF state_env_okD(1) [OF E] m(1) m'(1)] c by (simp add: clean_def trie_with_root_def)
  then have "P a = Q a" for a
    using m(2) [of a] m'(2) [of a] by (cases "m' (address_as_bytes a)"; cases "P a"; cases "Q a") simp_all
  then have "P = Q" by blast
  with P Q show thesis using that by blast
qed

lemma revert_view:
  assumes E: "state_env_ok E" and c: "clean E st L" and v': "state_view E st' L'" and fr: "same_frame E st st'"
  shows "state_view E (revert E (snapshot st) st') (L\<lparr>ld_undelegations := ld_undelegations L'\<rparr>)"
    and "sdb_root (revert E (snapshot st) st') = sdb_root st"
    and "c \<noteq> UNDELEGATIONS \<Longrightarrow> kv E (sdb_db (revert E (snapshot st) st')) c = kv E (sdb_db st) c"
proof -
  obtain P where P: "sdb_holds E st P" "sdb_holds E (state_with_root (sdb_db st) (sdb_root st)) P"
    "ld_accounts L = account_or_default \<circ> P" using clean_holds [OF E c] .
  obtain m where m: "trie_holds E 20 (sdb_db st, trie_with_root (sdb_root st)) m"
    "\<And>a. rel_option (\<lambda>bs acc. parse_account E bs = Inr acc) (m (address_as_bytes a)) (P a)"
    using P(2) by (rule sdb_holdsE) (simp add: state_with_root_def that)
  have m': "trie_holds E 20 (sdb_db st', trie_with_root (sdb_root st)) m"
    using fr m(1) by (intro trie_holds_db [OF _ m(1)]) (simp add: same_frame_def)
  have "(k, v) \<in> set (accounts_order E (sdb_accounts st)) \<Longrightarrow> P k = Some v" for k v
  proof -
    assume "(k, v) \<in> set (accounts_order E (sdb_accounts st))"
    then have "(k, v) \<in> set (sdb_accounts st)" using state_env_okD(14) [OF E] by (metis set_mset_mset)
    then have "map_of (sdb_accounts st) k = Some v" using P(1) by (simp add: sdb_holds_def)
    then show "P k = Some v" using P(1) by (meson map_le_SomeD sdb_holds_def)
  qed
  then have cache: "map_of (rebuild_cache (account_cache_put E) (accounts_order E (sdb_accounts st))) \<subseteq>\<^sub>m P \<and>
      distinct (map fst (rebuild_cache (account_cache_put E) (accounts_order E (sdb_accounts st))))"
    using state_env_okD(7,16) [OF E] by (intro rebuild_cache_le) blast+
  have "sdb_holds E (revert E (snapshot st) st') P"
    using m' m(2) cache by (intro sdb_holdsI [of E _ m]) (simp_all add: revert_def snapshot_def)
  then show "state_view E (revert E (snapshot st) st') (L\<lparr>ld_undelegations := ld_undelegations L'\<rparr>)"
    using P(3) v' by (intro state_viewI [of _ _ P]) (simp_all add: state_view_def revert_def snapshot_def)
  show "sdb_root (revert E (snapshot st) st') = sdb_root st"
    "c \<noteq> UNDELEGATIONS \<Longrightarrow> kv E (sdb_db (revert E (snapshot st) st')) c = kv E (sdb_db st) c"
    using fr by (simp_all add: same_frame_def revert_def snapshot_def)
qed

section \<open>The accounts as a store\<close>

text \<open>The state database provides the lookup interface for accounts: every address is a valid key
  and has an account.\<close>

definition get_account_opt :: "('d, 'z) state_env_scheme \<Rightarrow> address \<Rightarrow> ('d, account option) state_op" where
  "get_account_opt E a = read_account E a Some"

interpretation account_store: lookup_store
  "\<lambda>st m. state_env_ok E \<and> (\<exists>L. state_view E st L \<and> m = Some \<circ> ld_accounts L)" "\<lambda>_. True"
  "get_account_opt E" "set_account E" for E :: "('d, 'z) state_env_scheme"
proof (unfold_locales; elim conjE exE)
  fix st :: "'d state_db" and m L and a :: address
  assume E: "state_env_ok E" and v: "state_view E st L" and m: "m = Some \<circ> ld_accounts L"
  show "\<exists>st'. get_account_opt E a st = (Inr (m a), st') \<and>
      state_env_ok E \<and> (\<exists>L. state_view E st' L \<and> m = Some \<circ> ld_accounts L)"
    using refinesD [OF read_account_refines [OF E, of a Some] v] E m
    by (auto simp: get_account_opt_def led_read_def) blast
  show "\<exists>st'. set_account E a acc st = (Inr (), st') \<and>
      state_env_ok E \<and> (\<exists>L. state_view E st' L \<and> m(a \<mapsto> acc) = Some \<circ> ld_accounts L)" for acc
  proof -
    obtain st' where "set_account E a acc st = (Inr (), st')"
      "state_view E st' (L\<lparr>ld_accounts := (ld_accounts L)(a := acc)\<rparr>)"
      using refinesD [OF set_account_refines [OF E, of a acc] v] by (auto simp: led_set_def)
    moreover have "m(a \<mapsto> acc) = Some \<circ> ld_accounts (L\<lparr>ld_accounts := (ld_accounts L)(a := acc)\<rparr>)"
      using m by (simp add: fun_eq_iff)
    ultimately show ?thesis using E by blast
  qed
qed

end
