(* ===== verification/Executor_Spec.thy ===== *)
theory Executor_Spec
  imports Executor State_Refine
begin

text \<open>
  The specification of the transaction handlers on the ledger, and the proof that the executor
  implements it: every handler that does not run the EVM returns on a state database what its
  specification returns on the ledger it represents, and leaves a state database that
  represents the resulting ledger.
\<close>

section \<open>Combinators\<close>

lemma refines_on_state [refines_intros]:
  assumes "refines E m s"
  shows "refines E (on_state m) (on_state s)"
proof (rule refinesI)
  fix st L
  assume "state_view E st L"
  then obtain st' where st': "m st = (fst (s L), st')" "state_view E st' (snd (s L))" "same_frame E st st'"
    using assms by (metis refinesD)
  moreover obtain r L' where "s L = (r, L')" by fastforce
  ultimately show "\<exists>st'. on_state m st = (fst (on_state s L), st') \<and> state_view E st' (snd (on_state s L)) \<and> same_frame E st st'"
    by (auto simp: on_state_def)
qed

lemma refines_try [refines_intros]:
  assumes "refines E m s"
  shows "refines E (op_try m) (op_try s)"
proof (rule refinesI)
  fix st L
  assume "state_view E st L"
  then obtain st' where st': "m st = (fst (s L), st')" "state_view E st' (snd (s L))" "same_frame E st st'"
    using assms by (metis refinesD)
  moreover obtain r L' where "s L = (r, L')" by fastforce
  ultimately show "\<exists>st'. op_try m st = (fst (op_try s L), st') \<and> state_view E st' (snd (op_try s L)) \<and> same_frame E st st'"
    by (auto simp: op_try_def split: sum.splits fault.splits)
qed

lemma refines_check [refines_intros]: "refines E (check b e) (check b e)"
  by (simp add: check_def refines_ret refines_fail)

lemma refines_case_sum [refines_intros]:
  "(\<And>x. refines E (k x) (l x)) \<Longrightarrow> (\<And>y. refines E (k' y) (l' y)) \<Longrightarrow>
   refines E (case v of Inl x \<Rightarrow> k x | Inr y \<Rightarrow> k' y) (case v of Inl x \<Rightarrow> l x | Inr y \<Rightarrow> l' y)"
  by (cases v) simp_all

lemma refines_fold [refines_intros]:
  assumes "\<And>x b. refines E (f x b) (g x b)"
  shows "refines E (op_fold f xs b) (op_fold g xs b)"
  by (induction xs arbitrary: b) (auto intro!: refines_intros assms)

section \<open>The specification\<close>

abbreviation led_acc :: "ledger \<Rightarrow> address \<Rightarrow> account" where
  "led_acc \<equiv> ld_accounts"

definition led_upd :: "address \<Rightarrow> (account \<Rightarrow> account) \<Rightarrow> ledger \<Rightarrow> ledger" where
  "led_upd a f L = L\<lparr>ld_accounts := (ld_accounts L)(a := f (ld_accounts L a))\<rparr>"

definition acc_debit :: "u256 \<Rightarrow> account \<Rightarrow> account" where
  "acc_debit v acc = acc\<lparr>balance := balance acc - v\<rparr>"

type_synonym 'a led_result = "(exec_error fault + 'a) \<times> ledger"

definition led_cap :: "address \<Rightarrow> u256 \<Rightarrow> ledger \<Rightarrow> exec_error fault + unit" where
  "led_cap v added L =
     (if added = 0 \<or> led_total_stake L = 0 then Inr ()
      else
        let after = u256_saturating_add (u256_saturating_add (acc_get_stake (led_acc L v)) (led_total_delegated_to v L)) added
        in case max_validator_stake (u256_saturating_add (led_total_stake L) added) of
             None \<Rightarrow> Inl Panic
           | Some mx \<Rightarrow> if after \<le> mx then Inr ()
                      else Inl (Err (ValidatorStakeTooHigh MAX_VALIDATOR_STAKE_PERCENT mx after)))"

definition spec_transfer :: "transaction \<Rightarrow> address \<Rightarrow> ledger \<Rightarrow> execution_result led_result" where
  "spec_transfer tx s L = (case tx_to tx of
     None \<Rightarrow> (Inl (Err MissingRecipient), L)
   | Some to \<Rightarrow>
       if tx_value tx \<le> balance (led_acc L s)
       then (Inr (result_success TRANSFER_GAS), led_upd to (acc_add_balance (tx_value tx)) (led_upd s (acc_debit (tx_value tx)) L))
       else (Inl (Err (ExState (InsufficientBalance (tx_value tx) (balance (led_acc L s))))), L))"

definition spec_stake :: "transaction \<Rightarrow> address \<Rightarrow> ledger \<Rightarrow> execution_result led_result" where
  "spec_stake tx s L =
     (case u256_add (acc_get_stake (led_acc L s)) (tx_value tx) of
        None \<Rightarrow> (Inl Panic, L)
      | Some new_stake \<Rightarrow>
        if acc_get_stake (led_acc L s) = 0 \<and> new_stake < u256_from_u128 MIN_VALIDATOR_STAKE
        then (Inl (Err (StakeTooLow (u256_from_u128 MIN_VALIDATOR_STAKE) new_stake)), L)
        else case led_cap s (tx_value tx) L of
          Inl f \<Rightarrow> (Inl f, L)
        | Inr _ \<Rightarrow>
          if tx_value tx \<le> balance (led_acc L s)
          then (Inr (result_success (MINIMUM_GAS * 2)), led_upd s (\<lambda>acc. acc_set_stake new_stake (acc_debit (tx_value tx) acc)) L)
          else (Inl (Err (ExState (InsufficientBalance (tx_value tx) (balance (led_acc L s))))), L))"

definition unstake_amount :: "transaction \<Rightarrow> u256 \<Rightarrow> u256" where
  "unstake_amount tx all = (if length (tx_data tx) \<ge> 32 then u256_from_be_bytes (take 32 (tx_data tx)) else all)"

definition spec_unstake :: "transaction \<Rightarrow> address \<Rightarrow> ledger \<Rightarrow> execution_result led_result" where
  "spec_unstake tx s L =
     (let cur = acc_get_stake (led_acc L s); amt = unstake_amount tx cur in
      if amt \<le> cur
      then (Inr (result_success (MINIMUM_GAS * 2)), led_upd s (\<lambda>acc. acc_add_balance amt (acc_set_stake (cur - amt) acc)) L)
      else (Inl (Err (ExInsufficientBalance amt cur)), L))"

definition spec_register :: "transaction \<Rightarrow> address \<Rightarrow> ledger \<Rightarrow> execution_result led_result" where
  "spec_register tx s L =
     (let v = tx_value tx in
      if acc_get_stake (led_acc L s) \<noteq> 0 then (Inl (Err AlreadyValidator), L)
      else if v < u256_from_u128 MIN_VALIDATOR_STAKE
      then (Inl (Err (StakeTooLow (u256_from_u128 MIN_VALIDATOR_STAKE) v)), L)
      else case led_cap s v L of
        Inl f \<Rightarrow> (Inl f, L)
      | Inr _ \<Rightarrow>
        if v \<le> balance (led_acc L s)
        then (Inr (result_success (MINIMUM_GAS * 3)),
              led_upd s (\<lambda>acc. acc_set_contribution_score 0 (acc_set_stake v (acc_debit v acc))) L)
        else (Inl (Err (ExState (InsufficientBalance v (balance (led_acc L s))))), L))"

definition spec_exit :: "address \<Rightarrow> ledger \<Rightarrow> execution_result led_result" where
  "spec_exit s L =
     (let cur = acc_get_stake (led_acc L s) in
      if cur = 0 then (Inl (Err NotValidator), L)
      else (Inr (result_success (MINIMUM_GAS * 2)), led_upd s (\<lambda>acc. acc_set_stake 0 (acc_add_balance cur acc)) L))"

definition acc_delegate :: "address \<Rightarrow> u256 \<Rightarrow> account \<Rightarrow> account" where
  "acc_delegate validator v acc =
     (if delegated_to acc \<noteq> None then acc_add_delegated_amount v (acc_debit v acc)
      else acc_set_delegation validator v (acc_debit v acc))"

definition spec_delegate :: "transaction \<Rightarrow> address \<Rightarrow> ledger \<Rightarrow> execution_result led_result" where
  "spec_delegate tx s L = (case tx_to tx of
     None \<Rightarrow> (Inl (Err MissingRecipient), L)
   | Some validator \<Rightarrow>
     let v = tx_value tx; cur = delegated_to (led_acc L s) in
     if v < u256_from_u128 MIN_DELEGATION then (Inl (Err (DelegationTooLow (u256_from_u128 MIN_DELEGATION) v)), L)
     else if cur \<noteq> None \<and> cur \<noteq> Some validator then (Inl (Err AlreadyDelegated), L)
     else if acc_get_stake (led_acc L validator) = 0 then (Inl (Err InvalidValidator), L)
     else case led_cap validator v L of
       Inl f \<Rightarrow> (Inl f, L)
     | Inr _ \<Rightarrow>
       if v \<le> balance (led_acc L s)
       then (Inr (result_success (MINIMUM_GAS * 3)), led_upd s (acc_delegate validator v) L)
       else (Inl (Err (ExState (InsufficientBalance v (balance (led_acc L s))))), L))"

definition undelegate_amount :: "transaction \<Rightarrow> account \<Rightarrow> address \<Rightarrow> u256" where
  "undelegate_amount tx acc validator =
     unstake_amount tx (if delegated_to acc = Some validator then acc_get_delegated_amount acc else 0)"

definition undelegation_of :: "executor \<Rightarrow> address \<Rightarrow> address \<Rightarrow> u256 \<Rightarrow> undelegation" where
  "undelegation_of ex s validator amt = \<lparr>u_delegator = s, u_validator = validator, u_amount = amt,
     u_unlock_at = undelegation_unlock_at ex\<rparr>"

definition spec_undelegate :: "('d, 'z) state_env_scheme \<Rightarrow> executor \<Rightarrow> transaction \<Rightarrow> address \<Rightarrow> ledger \<Rightarrow>
    execution_result led_result" where
  "spec_undelegate E ex tx s L = (case tx_to tx of
     None \<Rightarrow> (Inl (Err MissingRecipient), L)
   | Some validator \<Rightarrow>
     let acc = led_acc L s; amt = undelegate_amount tx acc validator in
     if delegated_to acc \<noteq> Some validator then (Inl (Err NoDelegation), L)
     else if acc_get_delegated_amount acc < amt
     then (Inl (Err (InsufficientDelegation amt (acc_get_delegated_amount acc))), L)
     else (Inr (result_success (MINIMUM_GAS * 3)),
           snd (led_store_undelegation E (undelegation_of ex s validator amt)
             (led_upd s (\<lambda>acc. the (acc_sub_delegated_amount amt acc)) L) :: unit led_result)))"

definition spec_claim :: "address \<Rightarrow> ledger \<Rightarrow> execution_result led_result" where
  "spec_claim s L =
     (if delegated_to (led_acc L s) = None then (Inl (Err NoDelegation), L)
      else (Inr (result_success (MINIMUM_GAS * 2)), L))"

definition spec_dispatch :: "('d, 'z) state_env_scheme \<Rightarrow> executor \<Rightarrow> transaction \<Rightarrow> address \<Rightarrow> ledger \<Rightarrow>
    execution_result led_result" where
  "spec_dispatch E ex tx s L = (case tx_type tx of
     Transfer \<Rightarrow> spec_transfer tx s L
   | Stake \<Rightarrow> spec_stake tx s L
   | Unstake \<Rightarrow> spec_unstake tx s L
   | ValidatorRegister \<Rightarrow> spec_register tx s L
   | ValidatorExit \<Rightarrow> spec_exit s L
   | Delegate \<Rightarrow> spec_delegate tx s L
   | Undelegate \<Rightarrow> spec_undelegate E ex tx s L
   | ClaimDelegationRewards \<Rightarrow> spec_claim s L
   | _ \<Rightarrow> (Inr (result_success 21000), L))"

section \<open>The handlers implement it\<close>

lemmas spec_simps = op_bind_def led_defs on_state_def op_ret_def op_fail_def op_expect_def check_def
  u256_is_zero_def led_upd_def acc_debit_def

lemma cap_refines [refines_intros]:
  assumes E: "state_env_ok E"
  shows "refines E (ensure_validator_stake_cap E v added) (\<lambda>L. (led_cap v added L, L))"
  unfolding ensure_validator_stake_cap_def Let_def account_op_defs
  by (rule refines_cong, (rule refines_intros E)+) (auto simp: spec_simps led_cap_def Let_def split: option.split)

lemma u256_saturating_add_0 [simp]: "u256_saturating_add a 0 = a"
  using unat_u256_bound [of a] by (simp add: u256_saturating_add_def w_sat_add_def w_checked_add_def)

lemma transfer_spec:
  assumes E: "state_env_ok E"
  shows "refines E (execute_transfer E tx s) (spec_transfer tx s)"
  unfolding execute_transfer_def
  by (rule refines_cong, (rule refines_intros E)+)
     (auto simp: spec_simps led_transfer_def spec_transfer_def acc_add_balance_def split: option.split)

lemma stake_spec:
  assumes E: "state_env_ok E"
  shows "refines E (execute_stake E tx s) (spec_stake tx s)"
  unfolding execute_stake_def Let_def account_op_defs
  by (rule refines_cong, (rule refines_intros E)+)
     (auto simp: spec_simps spec_stake_def split: option.split sum.split)

lemma unstake_spec:
  assumes E: "state_env_ok E"
  shows "refines E (execute_unstake E tx s) (spec_unstake tx s)"
  unfolding execute_unstake_def account_op_defs
  by (rule refines_cong, (rule refines_intros E)+)
     (auto simp: spec_simps spec_unstake_def unstake_amount_def Let_def not_less u256_sub_def w_checked_sub_def
        split: option.split)

lemma register_spec:
  assumes E: "state_env_ok E"
  shows "refines E (execute_validator_register E tx s) (spec_register tx s)"
  unfolding execute_validator_register_def Let_def account_op_defs
  by (rule refines_cong, (rule refines_intros E)+)
     (auto simp: spec_simps spec_register_def Let_def split: sum.split)

lemma exit_spec:
  assumes E: "state_env_ok E"
  shows "refines E (execute_validator_exit E tx s) (spec_exit s)"
  unfolding execute_validator_exit_def account_op_defs
  by (rule refines_cong, (rule refines_intros E)+) (auto simp: spec_simps spec_exit_def Let_def)

lemma delegate_spec:
  assumes E: "state_env_ok E"
  shows "refines E (execute_delegate E tx s) (spec_delegate tx s)"
  unfolding execute_delegate_def Let_def account_op_defs
  by (rule refines_cong, (rule refines_intros E)+)
     (auto simp: spec_simps spec_delegate_def acc_delegate_def Let_def split: option.split sum.split)

lemma undelegate_spec:
  fixes E :: "('d, 'z) exec_env_scheme"
  assumes E: "state_env_ok E"
  shows "refines E (execute_undelegate E ex tx s) (spec_undelegate E ex tx s)"
  unfolding execute_undelegate_def account_op_defs
  by (rule refines_cong, (rule refines_intros E)+)
     (auto simp: spec_simps spec_undelegate_def led_sub_delegation_def led_store_undelegation_def undelegation_of_def
        undelegate_amount_def unstake_amount_def acc_sub_delegated_amount_def Let_def not_less split: option.split)

lemma claim_spec:
  assumes E: "state_env_ok E"
  shows "refines E (execute_claim_delegation_rewards E tx s) (spec_claim s)"
  unfolding execute_claim_delegation_rewards_def account_op_defs
  by (rule refines_cong, (rule refines_intros E)+) (auto simp: spec_simps spec_claim_def)

lemma dispatch_spec:
  fixes E :: "('d, 'z) exec_env_scheme"
  assumes E: "state_env_ok E" and tx: "\<not> is_evm_tx tx"
  shows "refines E (dispatch E ex tx s producer) (spec_dispatch E ex tx s)"
  using tx transfer_spec [OF E, of tx s] stake_spec [OF E, of tx s] unstake_spec [OF E, of tx s]
    register_spec [OF E, of tx s] exit_spec [OF E, of tx s] delegate_spec [OF E, of tx s]
    undelegate_spec [OF E, of ex tx s] claim_spec [OF E, of tx s] refines_ret [of E "result_success 21000"]
  by (cases "tx_type tx") (simp_all add: dispatch_def spec_dispatch_def [abs_def] is_evm_tx_def op_ret_def)

end
