(* ===== verification/Executor_Refine.thy ===== *)
theory Executor_Refine
  imports Executor_Spec
begin

text \<open>
  The execution of a transaction on the ledger: what \<open>execute\<close> does with the gas, the nonce and
  the outcome of the handler, for the transactions that do not run the EVM. A handler that fails
  leaves the ledger as it was, so that a failed transaction costs its gas and its nonce and
  nothing else, provided the state database had no uncommitted writes when it started.
\<close>

section \<open>Supply\<close>

definition total_supply :: "ledger \<Rightarrow> nat" where
  "total_supply L = (\<Sum>a\<in>UNIV. acc_wealth (led_acc L a))"

text \<open>An account without a delegation delegates nothing.\<close>

definition acc_wf :: "account \<Rightarrow> bool" where
  "acc_wf acc \<longleftrightarrow> (delegated_to acc = None \<longrightarrow> acc_get_delegated_amount acc = 0)"

definition ledger_wf :: "ledger \<Rightarrow> bool" where
  "ledger_wf L \<longleftrightarrow> (\<forall>a. acc_wf (led_acc L a))"

lemma sum_fun_upd: "(\<Sum>x\<in>UNIV. f ((g(a := b)) x)) + f (g a) = (\<Sum>x\<in>UNIV. f (g x)) + (f b :: nat)"
  for g :: "'k::finite \<Rightarrow> 'v"
proof -
  have "(\<Sum>x\<in>UNIV. f ((g(a := b)) x)) = f b + (\<Sum>x\<in>UNIV - {a}. f (g x))"
    by (subst sum.remove [of UNIV a]) (auto intro!: sum.cong)
  moreover have "(\<Sum>x\<in>UNIV. f (g x)) = f (g a) + (\<Sum>x\<in>UNIV - {a}. f (g x))"
    by (rule sum.remove) auto
  ultimately show ?thesis by simp
qed

lemma supply_upd: "total_supply (led_upd a f L) + acc_wealth (led_acc L a) = total_supply L + acc_wealth (f (led_acc L a))"
  unfolding total_supply_def led_upd_def using sum_fun_upd [of acc_wealth "led_acc L" a "f (led_acc L a)"] by simp

lemma wealth_le_supply: "acc_wealth (led_acc L a) \<le> total_supply L"
  unfolding total_supply_def by (rule member_le_sum) auto

lemma led_upd_acc: "led_acc (led_upd a f L) b = (if b = a then f (led_acc L a) else led_acc L b)"
  by (simp add: led_upd_def)

lemma led_upd_undelegations [simp]: "ld_undelegations (led_upd a f L) = ld_undelegations L"
  by (simp add: led_upd_def)

text \<open>How the account operations change what an account holds.\<close>

lemmas wealth_defs = acc_wealth_def acc_get_stake_def acc_get_delegated_amount_def

lemma wealth_debit: "v \<le> balance acc \<Longrightarrow> acc_wealth (acc_debit v acc) + unat v = acc_wealth acc"
  by (simp add: wealth_defs acc_debit_def unat_sub_le word_le_nat_alt)

lemma wealth_credit:
  "acc_wealth acc + unat v < 2 ^ 256 \<Longrightarrow> acc_wealth (acc_add_balance v acc) = acc_wealth acc + unat v"
  by (rule wealth_add_balance) (simp add: wealth_defs)

lemma wealth_set_stake: "acc_wealth (acc_set_stake v acc) + unat (acc_get_stake acc) = acc_wealth acc + unat v"
  by (simp add: wealth_defs acc_set_stake_def Let_def)

lemma wealth_other [simp]:
  "acc_wealth (acc_set_contribution_score n acc) = acc_wealth acc"
  "acc_wealth (acc_increment_nonce acc) = acc_wealth acc"
  "acc_wealth (acc\<lparr>nonce := m\<rparr>) = acc_wealth acc"
  by (simp_all add: wealth_defs acc_set_contribution_score_def acc_increment_nonce_def)

lemma wealth_delegate:
  assumes "acc_wf acc" "v \<le> balance acc" "acc_wealth acc < 2 ^ 256"
  shows "acc_wealth (acc_delegate validator v acc) = acc_wealth acc"
proof (cases "delegated_to acc")
  case None
  then show ?thesis
    using assms by (auto simp: acc_delegate_def acc_wf_def acc_set_delegation_def wealth_defs acc_debit_def unat_sub_le word_le_nat_alt)
next
  case (Some w)
  have "unat (acc_get_delegated_amount acc) + unat v < 2 ^ 256"
    using assms(2,3) by (simp add: acc_wealth_def word_le_nat_alt)
  then have "unat (u256_saturating_add (acc_get_delegated_amount acc) v) = unat (acc_get_delegated_amount acc) + unat v"
    by (rule u256_saturating_add_exact)
  then show ?thesis
    using assms(2) Some
    by (simp add: acc_delegate_def acc_add_delegated_amount_def wealth_defs acc_debit_def unat_sub_le word_le_nat_alt)
qed

lemma wealth_sub_delegated:
  "acc_sub_delegated_amount v acc = Some acc' \<Longrightarrow> acc_wealth acc' + unat v = acc_wealth acc"
  by (auto simp: acc_sub_delegated_amount_def Let_def wealth_defs acc_clear_delegation_def unat_sub_le
      word_le_nat_alt u256_is_zero_def split: if_splits)

lemma acc_wf_ops [simp]:
  "acc_wf acc \<Longrightarrow> acc_wf (acc_debit v acc)"
  "acc_wf acc \<Longrightarrow> acc_wf (acc_add_balance v acc)"
  "acc_wf acc \<Longrightarrow> acc_wf (acc_set_stake v acc)"
  "acc_wf acc \<Longrightarrow> acc_wf (acc_set_contribution_score n acc)"
  "acc_wf acc \<Longrightarrow> acc_wf (acc_increment_nonce acc)"
  "acc_wf acc \<Longrightarrow> acc_wf (acc_delegate validator v acc)"
  "acc_wf acc \<Longrightarrow> acc_sub_delegated_amount v acc = Some acc' \<Longrightarrow> acc_wf acc'"
  by (auto simp: acc_wf_def acc_debit_def acc_add_balance_def acc_set_stake_def acc_set_contribution_score_def
      acc_increment_nonce_def acc_delegate_def acc_add_delegated_amount_def acc_set_delegation_def
      acc_get_delegated_amount_def acc_sub_delegated_amount_def acc_clear_delegation_def Let_def split: if_splits)

lemma ledger_wf_upd: "ledger_wf L \<Longrightarrow> (acc_wf (led_acc L a) \<Longrightarrow> acc_wf (f (led_acc L a))) \<Longrightarrow> ledger_wf (led_upd a f L)"
  by (simp add: ledger_wf_def led_upd_acc)

section \<open>Handlers\<close>

definition undelegation_amount :: "('d, 'z) state_env_scheme \<Rightarrow> bytes \<Rightarrow> nat" where
  "undelegation_amount E bs = (case undelegation_from_bytes E bs of Inl _ \<Rightarrow> 0 | Inr u \<Rightarrow> unat (u_amount u))"

definition total_pending :: "('d, 'z) state_env_scheme \<Rightarrow> ledger \<Rightarrow> nat" where
  "total_pending E L = (\<Sum>k\<in>dom (ld_undelegations L). undelegation_amount E (the (ld_undelegations L k)))"

lemma total_pending_cong: "ld_undelegations L' = ld_undelegations L \<Longrightarrow> total_pending E L' = total_pending E L"
  by (simp add: total_pending_def)

lemma total_pending_store:
  assumes "state_env_ok E" "finite (dom (ld_undelegations L))" "k \<notin> dom (ld_undelegations L)"
  shows "total_pending E (L\<lparr>ld_undelegations := (ld_undelegations L)(k \<mapsto> undelegation_to_bytes E u)\<rparr>) =
         total_pending E L + unat (u_amount u)"
proof -
  have "(\<Sum>x\<in>dom (ld_undelegations L). undelegation_amount E (the (((ld_undelegations L)(k \<mapsto> undelegation_to_bytes E u)) x))) =
        (\<Sum>x\<in>dom (ld_undelegations L). undelegation_amount E (the (ld_undelegations L x)))"
    using assms(3) by (intro sum.cong) auto
  then show ?thesis using assms state_env_okD(4) [OF assms(1), of u] by (simp add: total_pending_def undelegation_amount_def)
qed

text \<open>The record a successful undelegation stores has a key that is not in use.\<close>

definition fresh_undelegation :: "executor \<Rightarrow> transaction \<Rightarrow> address \<Rightarrow> ledger \<Rightarrow> bool" where
  "fresh_undelegation ex tx s L \<longleftrightarrow> finite (dom (ld_undelegations L)) \<and>
     (\<forall>v. tx_type tx = Undelegate \<and> tx_to tx = Some v \<longrightarrow>
        undelegation_storage_key s v (undelegation_unlock_at ex) \<notin> dom (ld_undelegations L))"

lemma spec_dispatch_fail: "spec_dispatch E ex tx s L = (Inl f, L') \<Longrightarrow> L' = L"
  by (auto simp: spec_dispatch_def spec_transfer_def spec_stake_def spec_unstake_def spec_register_def spec_exit_def
      spec_delegate_def spec_undelegate_def spec_claim_def Let_def
      split: tx_type.splits option.splits sum.splits if_splits)

lemma transfer_conserves:
  assumes "spec_transfer tx s L = (Inr r, L')" "ledger_wf L" "total_supply L < 2 ^ 256"
  shows "total_supply L' = total_supply L" "ledger_wf L'" "ld_undelegations L' = ld_undelegations L"
    "nonce (led_acc L' a) = nonce (led_acc L a)"
proof -
  let ?v = "tx_value tx"
  obtain to where to: "?v \<le> balance (led_acc L s)"
    "L' = led_upd to (acc_add_balance ?v) (led_upd s (acc_debit ?v) L)"
    using assms(1) by (auto simp: spec_transfer_def split: option.splits if_splits)
  let ?L1 = "led_upd s (acc_debit ?v) L"
  have 1: "total_supply ?L1 + unat ?v = total_supply L"
    using supply_upd [of s "acc_debit ?v" L] wealth_debit [OF to(1)] by simp
  have "acc_wealth (led_acc ?L1 to) + unat ?v < 2 ^ 256"
    using wealth_le_supply [of ?L1 to] 1 assms(3) by simp
  then show "total_supply L' = total_supply L"
    using supply_upd [of to "acc_add_balance ?v" ?L1] wealth_credit [of "led_acc ?L1 to" ?v] 1 to(2) by simp
  show "ledger_wf L'" unfolding to(2) using assms(2) by (auto intro!: ledger_wf_upd)
  show "ld_undelegations L' = ld_undelegations L" by (simp add: to(2))
  show "nonce (led_acc L' a) = nonce (led_acc L a)"
    by (simp add: to(2) led_upd_acc acc_add_balance_def acc_debit_def)
qed

lemma one_account_conserves:
  assumes "acc_wealth (f (led_acc L s)) = acc_wealth (led_acc L s)"
  shows "total_supply (led_upd s f L) = total_supply L"
  using supply_upd [of s f L] assms by simp

lemma wealth_lock:
  assumes "v \<le> balance acc" "unat new = unat (acc_get_stake acc) + unat v"
  shows "acc_wealth (acc_set_stake new (acc_debit v acc)) = acc_wealth acc"
  using wealth_set_stake [of new "acc_debit v acc"] wealth_debit [OF assms(1)] assms(2)
  by (simp add: acc_debit_def acc_get_stake_def)

lemma wealth_unlock:
  assumes "v \<le> acc_get_stake acc" "acc_wealth acc < 2 ^ 256"
  shows "acc_wealth (acc_add_balance v (acc_set_stake (acc_get_stake acc - v) acc)) = acc_wealth acc"
proof -
  have "acc_wealth (acc_set_stake (acc_get_stake acc - v) acc) + unat v = acc_wealth acc"
    using wealth_set_stake [of "acc_get_stake acc - v" acc] assms(1) by (simp add: unat_sub_le word_le_nat_alt)
  then show ?thesis using wealth_credit [of "acc_set_stake (acc_get_stake acc - v) acc" v] assms(2) by simp
qed

lemma wealth_exit:
  assumes "acc_wealth acc < 2 ^ 256"
  shows "acc_wealth (acc_set_stake 0 (acc_add_balance (acc_get_stake acc) acc)) = acc_wealth acc"
proof -
  have "unat (balance acc) + unat (acc_get_stake acc) < 2 ^ 256" using assms by (simp add: acc_wealth_def)
  then have "acc_wealth (acc_add_balance (acc_get_stake acc) acc) = acc_wealth acc + unat (acc_get_stake acc)"
    by (rule wealth_add_balance)
  then show ?thesis
    using wealth_set_stake [of 0 "acc_add_balance (acc_get_stake acc) acc"]
    by (simp add: acc_add_balance_def acc_get_stake_def)
qed

lemma nonce_ops [simp]:
  "nonce (acc_debit v acc) = nonce acc" "nonce (acc_add_balance v acc) = nonce acc"
  "nonce (acc_set_stake v acc) = nonce acc" "nonce (acc_set_contribution_score n acc) = nonce acc"
  "nonce (acc_delegate w v acc) = nonce acc"
  "acc_sub_delegated_amount v acc = Some acc' \<Longrightarrow> nonce acc' = nonce acc"
  by (auto simp: acc_debit_def acc_add_balance_def acc_set_stake_def acc_set_contribution_score_def acc_delegate_def
      acc_add_delegated_amount_def acc_set_delegation_def acc_sub_delegated_amount_def acc_clear_delegation_def Let_def
      split: if_splits)

text \<open>The handlers other than transfers and undelegations update the account of the sender only.\<close>

definition sender_update :: "address \<Rightarrow> ledger \<Rightarrow> ledger \<Rightarrow> bool" where
  "sender_update s L L' \<longleftrightarrow> (\<exists>f. L' = led_upd s f L \<and> acc_wealth (f (led_acc L s)) = acc_wealth (led_acc L s) \<and>
     acc_wf (f (led_acc L s)) \<and> nonce (f (led_acc L s)) = nonce (led_acc L s))"

lemma sender_updateI:
  "L' = led_upd s f L \<Longrightarrow> acc_wealth (f (led_acc L s)) = acc_wealth (led_acc L s) \<Longrightarrow>
   acc_wf (f (led_acc L s)) \<Longrightarrow> nonce (f (led_acc L s)) = nonce (led_acc L s) \<Longrightarrow> sender_update s L L'"
  unfolding sender_update_def by blast

lemma sender_update_refl: "acc_wf (led_acc L s) \<Longrightarrow> sender_update s L L"
  by (rule sender_updateI [of _ _ id]) (simp_all add: led_upd_def)

lemma stake_local:
  assumes "spec_stake tx s L = (Inr r, L')" "acc_wf (led_acc L s)"
  shows "sender_update s L L'"
proof -
  obtain new where new: "u256_add (acc_get_stake (led_acc L s)) (tx_value tx) = Some new"
    "tx_value tx \<le> balance (led_acc L s)"
    "L' = led_upd s (\<lambda>acc. acc_set_stake new (acc_debit (tx_value tx) acc)) L"
    using assms(1) by (auto simp: spec_stake_def split: option.splits sum.splits if_splits)
  show ?thesis
    using new(3) by (rule sender_updateI) (use wealth_lock [OF new(2) u256_add_Some [OF new(1)]] assms(2) in simp_all)
qed

lemma unstake_local:
  assumes "spec_unstake tx s L = (Inr r, L')" "acc_wf (led_acc L s)" "acc_wealth (led_acc L s) < 2 ^ 256"
  shows "sender_update s L L'"
proof -
  let ?cur = "acc_get_stake (led_acc L s)" and ?amt = "unstake_amount tx (acc_get_stake (led_acc L s))"
  have amt: "?amt \<le> ?cur" "L' = led_upd s (\<lambda>acc. acc_add_balance ?amt (acc_set_stake (?cur - ?amt) acc)) L"
    using assms(1) by (auto simp: spec_unstake_def Let_def split: if_splits)
  show ?thesis
    using amt(2) by (rule sender_updateI) (use wealth_unlock [OF amt(1) assms(3)] assms(2) in simp_all)
qed

lemma register_local:
  assumes "spec_register tx s L = (Inr r, L')" "acc_wf (led_acc L s)"
  shows "sender_update s L L'"
proof -
  have new: "acc_get_stake (led_acc L s) = 0" "tx_value tx \<le> balance (led_acc L s)"
    "L' = led_upd s (\<lambda>acc. acc_set_contribution_score 0 (acc_set_stake (tx_value tx) (acc_debit (tx_value tx) acc))) L"
    using assms(1) by (auto simp: spec_register_def Let_def split: sum.splits if_splits)
  show ?thesis
    using new(3) by (rule sender_updateI) (use wealth_lock [OF new(2), of "tx_value tx"] new(1) assms(2) in simp_all)
qed

lemma exit_local:
  assumes "spec_exit s L = (Inr r, L')" "acc_wf (led_acc L s)" "acc_wealth (led_acc L s) < 2 ^ 256"
  shows "sender_update s L L'"
proof -
  have new: "L' = led_upd s (\<lambda>acc. acc_set_stake 0 (acc_add_balance (acc_get_stake (led_acc L s)) acc)) L"
    using assms(1) by (auto simp: spec_exit_def Let_def split: if_splits)
  show ?thesis using new by (rule sender_updateI) (use wealth_exit [OF assms(3)] assms(2) in simp_all)
qed

lemma delegate_local:
  assumes "spec_delegate tx s L = (Inr r, L')" "acc_wf (led_acc L s)" "acc_wealth (led_acc L s) < 2 ^ 256"
  shows "sender_update s L L'"
proof -
  obtain v where v: "tx_value tx \<le> balance (led_acc L s)" "L' = led_upd s (acc_delegate v (tx_value tx)) L"
    using assms(1) by (auto simp: spec_delegate_def Let_def split: option.splits sum.splits if_splits)
  show ?thesis using v(2) by (rule sender_updateI) (use wealth_delegate [OF assms(2) v(1) assms(3)] assms(2) in simp_all)
qed

lemma local_handlers:
  assumes "spec_dispatch E ex tx s L = (Inr r, L')" "ledger_wf L" "total_supply L < 2 ^ 256"
    "tx_type tx \<notin> {Transfer, Undelegate}"
  shows "sender_update s L L'"
proof -
  have w: "acc_wealth (led_acc L s) < 2 ^ 256" using wealth_le_supply [of L s] assms(3) by simp
  have wf: "acc_wf (led_acc L s)" using assms(2) by (simp add: ledger_wf_def)
  show ?thesis
    using assms(1,4) stake_local [OF _ wf] unstake_local [OF _ wf w] register_local [OF _ wf] exit_local [OF _ wf w]
      delegate_local [OF _ wf w] sender_update_refl [OF wf]
    by (cases "tx_type tx") (auto simp: spec_dispatch_def spec_claim_def split: if_splits)
qed

lemma undelegate_effect:
  assumes E: "state_env_ok E" and run: "spec_undelegate E ex tx s L = (Inr r, L')" and ty: "tx_type tx = Undelegate"
    and wf: "ledger_wf L" and fresh: "fresh_undelegation ex tx s L"
  shows "total_supply L' + total_pending E L' = total_supply L + total_pending E L" "ledger_wf L'"
    "nonce (led_acc L' a) = nonce (led_acc L a)" "finite (dom (ld_undelegations L'))"
proof -
  obtain v where v: "tx_to tx = Some v" using run by (auto simp: spec_undelegate_def split: option.splits)
  let ?amt = "undelegate_amount tx (led_acc L s) v"
  let ?u = "undelegation_of ex s v ?amt" and ?k = "undelegation_storage_key s v (undelegation_unlock_at ex)"
  have le: "?amt \<le> acc_get_delegated_amount (led_acc L s)"
    using run v by (auto simp: spec_undelegate_def Let_def not_less split: if_splits)
  then obtain acc' where acc': "acc_sub_delegated_amount ?amt (led_acc L s) = Some acc'"
    by (auto simp: acc_sub_delegated_amount_def Let_def)
  let ?L1 = "led_upd s (\<lambda>_. acc') L"
  have L': "L' = ?L1\<lparr>ld_undelegations := (ld_undelegations ?L1)(?k \<mapsto> undelegation_to_bytes E ?u)\<rparr>"
    using run v acc' by (auto simp: spec_undelegate_def Let_def led_store_undelegation_def undelegation_of_def led_upd_def
        split: if_splits)
  have k: "?k \<notin> dom (ld_undelegations ?L1)" "finite (dom (ld_undelegations ?L1))"
    using fresh v ty by (auto simp: fresh_undelegation_def)
  have "total_supply ?L1 + unat ?amt = total_supply L"
    using supply_upd [of s "\<lambda>_. acc'" L] wealth_sub_delegated [OF acc'] by simp
  moreover have "total_supply L' = total_supply ?L1" by (simp add: L' total_supply_def)
  moreover have "total_pending E L' = total_pending E L + unat ?amt"
    unfolding L' total_pending_store [OF E k(2,1)] by (simp add: total_pending_def undelegation_of_def)
  ultimately show "total_supply L' + total_pending E L' = total_supply L + total_pending E L" by simp
  have "acc_wf acc'" using wf acc_wf_ops(7) [OF _ acc'] by (simp add: ledger_wf_def)
  then show "ledger_wf L'" using wf by (simp add: L' ledger_wf_def led_upd_acc)
  show "nonce (led_acc L' a) = nonce (led_acc L a)" using acc' by (auto simp: L' led_upd_acc)
  show "finite (dom (ld_undelegations L'))" using k by (simp add: L')
qed

lemma sender_update_conserves:
  assumes "sender_update s L L'" "ledger_wf L"
  shows "total_supply L' = total_supply L" "ledger_wf L'" "ld_undelegations L' = ld_undelegations L"
    "nonce (led_acc L' a) = nonce (led_acc L a)"
  using assms one_account_conserves [of _ L s] by (auto simp: sender_update_def ledger_wf_def led_upd_acc)

lemma dispatch_conserves:
  assumes E: "state_env_ok E" and run: "spec_dispatch E ex tx s L = (Inr r, L')"
    and wf: "ledger_wf L" "total_supply L < 2 ^ 256" and fresh: "fresh_undelegation ex tx s L"
  shows "total_supply L' + total_pending E L' = total_supply L + total_pending E L" "ledger_wf L'"
    "nonce (led_acc L' a) = nonce (led_acc L a)"
proof -
  consider "tx_type tx = Transfer" | "tx_type tx = Undelegate" | "tx_type tx \<notin> {Transfer, Undelegate}" by blast
  then have "total_supply L' + total_pending E L' = total_supply L + total_pending E L \<and> ledger_wf L' \<and>
      nonce (led_acc L' a) = nonce (led_acc L a)"
  proof cases
    case 1
    then have run': "spec_transfer tx s L = (Inr r, L')" using run by (simp add: spec_dispatch_def)
    show ?thesis using transfer_conserves [OF run' wf] total_pending_cong [of L' L E] by simp
  next
    case 2
    then have run': "spec_undelegate E ex tx s L = (Inr r, L')" using run by (simp add: spec_dispatch_def)
    show ?thesis using undelegate_effect [OF E run' 2 wf(1) fresh] by blast
  next
    case 3
    show ?thesis
      using sender_update_conserves [OF local_handlers [OF run wf 3] wf(1)] total_pending_cong [of L' L E] by simp
  qed
  then show "total_supply L' + total_pending E L' = total_supply L + total_pending E L" "ledger_wf L'"
    "nonce (led_acc L' a) = nonce (led_acc L a)" by simp_all
qed

section \<open>Execution\<close>

definition spec_execute :: "('d, 'z) state_env_scheme \<Rightarrow> executor \<Rightarrow> signed_transaction \<Rightarrow> address \<Rightarrow> ledger \<Rightarrow>
    execution_result led_result" where
  "spec_execute E ex stx producer L =
     (let tx = stx_tx stx; s = stx_sender stx in
      case gas_cost tx of
        None \<Rightarrow> (Inl Panic, L)
      | Some cost \<Rightarrow>
        if \<not> cost \<le> balance (led_acc L s)
        then (Inl (Err (ExState (InsufficientBalance cost (balance (led_acc L s))))), L)
        else case spec_dispatch E ex tx s (led_upd s acc_increment_nonce (led_upd s (acc_debit cost) L)) of
          (Inr r, L') \<Rightarrow>
            (Inr r, led_upd producer (acc_add_balance (u256_from_u64 (gas_payment tx (er_gas_used r))))
                      (led_upd s (acc_add_balance (u256_from_u64 (gas_refund tx (er_gas_used r)))) L'))
        | (Inl (Err e), L') \<Rightarrow>
            (Inr (result_failure (tx_gas_limit tx) (MsgError e)),
             led_upd s acc_increment_nonce (led_upd producer (acc_add_balance cost) (led_upd s (acc_debit cost) L)))
        | (Inl f, L') \<Rightarrow> (Inl f, L'))"

lemma op_bind_assoc: "op_bind (op_bind m k) l = op_bind m (\<lambda>x. op_bind (k x) l)"
  by (auto simp: op_bind_def fun_eq_iff split: prod.splits sum.splits)

definition exec_prefix :: "('d, 'z) exec_env_scheme \<Rightarrow> executor \<Rightarrow> transaction \<Rightarrow> address \<Rightarrow> address \<Rightarrow> u256 \<Rightarrow>
    ('d, exec_error + execution_result) exec_op" where
  "exec_prefix E ex tx s producer cost =
     op_bind (on_state (sub_balance E s cost)) (\<lambda>_.
     op_bind (on_state (increment_nonce E s)) (\<lambda>_.
       op_try (dispatch E ex tx s producer)))"

lemma execute_prefix:
  assumes "\<not> is_evm_tx (stx_tx stx)" "gas_cost (stx_tx stx) = Some cost"
  shows "execute E ex stx producer st =
     op_bind (exec_prefix E ex (stx_tx stx) (stx_sender stx) producer cost) (\<lambda>result. case result of
         Inr r \<Rightarrow> settle_ok E (stx_tx stx) (stx_sender stx) producer r
       | Inl e \<Rightarrow> settle_err E (stx_tx stx) (stx_sender stx) producer cost (snapshot st) e) st"
  using assms by (simp add: execute_def exec_prefix_def Let_def op_bind_assoc)

definition spec_prefix :: "('d, 'z) state_env_scheme \<Rightarrow> executor \<Rightarrow> transaction \<Rightarrow> address \<Rightarrow> u256 \<Rightarrow>
    ledger \<Rightarrow> (exec_error + execution_result) led_result" where
  "spec_prefix E ex tx s cost L =
     (if cost \<le> balance (led_acc L s)
      then op_try (spec_dispatch E ex tx s) (led_upd s acc_increment_nonce (led_upd s (acc_debit cost) L))
      else (Inl (Err (ExState (InsufficientBalance cost (balance (led_acc L s))))), L))"

lemma prefix_refines:
  assumes E: "state_env_ok E" and tx: "\<not> is_evm_tx tx"
  shows "refines E (exec_prefix E ex tx s producer cost) (spec_prefix E ex tx s cost)"
  unfolding exec_prefix_def
  by (rule refines_cong, (rule refines_intros E dispatch_spec [OF E tx])+)
     (auto simp: spec_simps spec_prefix_def led_increment_nonce_def)

lemma settle_ok_refines:
  assumes E: "state_env_ok E" and tx: "\<not> is_evm_tx tx"
  shows "refines E (settle_ok E tx s producer r) (\<lambda>L. (Inr r,
     led_upd producer (acc_add_balance (u256_from_u64 (gas_payment tx (er_gas_used r))))
       (led_upd s (acc_add_balance (u256_from_u64 (gas_refund tx (er_gas_used r)))) L)))"
  unfolding settle_ok_def account_op_defs
  by (rule refines_cong, (rule refines_intros E)+) (simp add: tx spec_simps)

lemma execute_ok:
  assumes E: "state_env_ok E" and tx: "\<not> is_evm_tx (stx_tx stx)" and v: "state_view E st L"
    and cost: "gas_cost (stx_tx stx) = Some cost" "cost \<le> balance (led_acc L (stx_sender stx))"
    and run: "spec_dispatch E ex (stx_tx stx) (stx_sender stx)
       (led_upd (stx_sender stx) acc_increment_nonce (led_upd (stx_sender stx) (acc_debit cost) L)) = (Inr r, L')"
  obtains st' where "execute E ex stx producer st = (Inr r, st')" "state_view E st' (snd (spec_execute E ex stx producer L))"
    "fst (spec_execute E ex stx producer L) = Inr r"
proof -
  have pre: "spec_prefix E ex (stx_tx stx) (stx_sender stx) cost L = (Inr (Inr r), L')"
    using run cost(2) by (simp add: spec_prefix_def op_try_def)
  obtain st1 where st1: "exec_prefix E ex (stx_tx stx) (stx_sender stx) producer cost st = (Inr (Inr r), st1)" "state_view E st1 L'"
    by (rule refinesD [OF prefix_refines [OF E tx, of ex "stx_sender stx" producer cost] v]) (simp add: pre that)
  obtain st2 where st2: "settle_ok E (stx_tx stx) (stx_sender stx) producer r st1 = (Inr r, st2)"
    "state_view E st2 (led_upd producer (acc_add_balance (u256_from_u64 (gas_payment (stx_tx stx) (er_gas_used r))))
       (led_upd (stx_sender stx) (acc_add_balance (u256_from_u64 (gas_refund (stx_tx stx) (er_gas_used r)))) L'))"
    using refinesD [OF settle_ok_refines [OF E tx] st1(2)] by (metis fst_conv snd_conv)
  show thesis
    using st1 st2 cost run
    by (intro that [of st2]) (simp_all add: execute_prefix [OF tx cost(1)] spec_execute_def Let_def)
qed

lemma execute_err:
  assumes E: "state_env_ok E" and tx: "\<not> is_evm_tx (stx_tx stx)" and c: "clean E st L"
    and cost: "gas_cost (stx_tx stx) = Some cost" "cost \<le> balance (led_acc L (stx_sender stx))"
    and run: "spec_dispatch E ex (stx_tx stx) (stx_sender stx)
       (led_upd (stx_sender stx) acc_increment_nonce (led_upd (stx_sender stx) (acc_debit cost) L)) = (Inl (Err e), L')"
  obtains st' where "execute E ex stx producer st = (Inr (result_failure (tx_gas_limit (stx_tx stx)) (MsgError e)), st')"
    "state_view E st' (snd (spec_execute E ex stx producer L))"
    "fst (spec_execute E ex stx producer L) = Inr (result_failure (tx_gas_limit (stx_tx stx)) (MsgError e))"
proof -
  let ?s = "stx_sender stx"
  have v: "state_view E st L" using c by (simp add: clean_def)
  have pre: "spec_prefix E ex (stx_tx stx) ?s cost L = (Inr (Inl e), L')"
    using run cost(2) by (simp add: spec_prefix_def op_try_def)
  obtain st1 where st1: "exec_prefix E ex (stx_tx stx) ?s producer cost st = (Inr (Inl e), st1)" "state_view E st1 L'"
    "same_frame E st st1"
    by (rule refinesD [OF prefix_refines [OF E tx, of ex ?s producer cost] v]) (simp add: pre that)
  have "ld_undelegations L' = ld_undelegations L" using spec_dispatch_fail [OF run] by simp
  then have v1: "state_view E (revert E (snapshot st) st1) L" using revert_view(1) [OF E c st1(2,3)] by simp
  have "refines E (op_bind (on_state (sub_balance E ?s cost)) (\<lambda>_. op_bind (on_state (add_balance E producer cost)) (\<lambda>_.
      op_bind (on_state (increment_nonce E ?s)) (\<lambda>_. op_ret x))))
    (\<lambda>L. if cost \<le> balance (led_acc L ?s)
         then (Inr x, led_upd ?s acc_increment_nonce (led_upd producer (acc_add_balance cost) (led_upd ?s (acc_debit cost) L)))
         else (Inl (Err (ExState (InsufficientBalance cost (balance (led_acc L ?s))))), L))" for x :: execution_result
    unfolding account_op_defs
    by (rule refines_cong, (rule refines_intros E)+) (auto simp: spec_simps led_increment_nonce_def)
  from refinesD [OF this v1, of "result_failure (tx_gas_limit (stx_tx stx)) (MsgError e)"]
  obtain st2 where st2: "settle_err E (stx_tx stx) ?s producer cost (snapshot st) e st1 =
      (Inr (result_failure (tx_gas_limit (stx_tx stx)) (MsgError e)), st2)"
    "state_view E st2 (led_upd ?s acc_increment_nonce (led_upd producer (acc_add_balance cost) (led_upd ?s (acc_debit cost) L)))"
    using cost(2) by (auto simp: settle_err_def)
  show thesis
    using st1 st2 cost run
    by (intro that [of st2]) (simp_all add: execute_prefix [OF tx cost(1)] spec_execute_def Let_def)
qed

end
