(* ===== verification/State_Storage.thy ===== *)
theory State_Storage
  imports State_Refine
begin

text \<open>
  Contract storage and code behind the state database: every account has a total map from slots
  to values, kept in a trie of its own whose root is part of the account, and every code hash
  the code it is the hash of. Writing a slot changes that slot of that account only, whatever
  the caches hold.
\<close>

section \<open>Tries that share a database\<close>

text \<open>A commit of one trie keeps what another trie on the same database represents.\<close>

lemma commit_keeps_holds:
  assumes E: "trie_env_ok E" and co: "coherent E (d, t)" and h: "trie_holds E n (d, u) m"
    and run: "trie_commit E (d, t) = (r, (d', t'))"
  shows "trie_holds E n (d', u) m"
proof -
  obtain d2 t2 where c: "trie_commit E (d, t) = (Inr (tr_root t), (d2, t2))" "coherent E (d2, t2)"
    "\<And>c. kv E d2 c = (if c = STATE then kv E d STATE ++ (\<lambda>h. map_option (node_to_bytes E) (map_of (tr_dirty t) h))
                      else kv E d c)"
    using trie_commit_runs [OF E co] by metis
  have d': "d2 = d'" using c(1) run by simp
  have kv': "kv E d' STATE = kv E d STATE ++ (\<lambda>h. map_option (node_to_bytes E) (map_of (tr_dirty t) h))"
    using c(3) [of STATE] d' by simp
  obtain ot where ot: "coherent E (d, u)" "tr_root u = ohash E ot" "tm_mpt (2 * n) ot"
    "pred_option (stored E (d, u)) ot" "m = (\<lambda>k. if length k = n then tm_get ot (byte_key k) else None)"
    using h by (auto elim: trie_holdsE)
  have av: "avail E (d', u) h nd" if "avail E (d, u) h nd" "wf_node nd" "node_hash E nd = h" for h nd
  proof (cases "map_of (tr_dirty t) h")
    case None
    then show ?thesis using that(1) kv' by (auto simp: avail_def map_add_def)
  next
    case (Some nd')
    then have "nd' = nd" using co that node_hash_inj [OF E, of nd' nd] by (auto simp: coherent_def)
    with Some show ?thesis using kv' that(1) by (auto simp: avail_def map_add_def)
  qed
  have "stored E (d', u) T" if "stored E (d, u) T" "wf_tree T" for T
    using that by (induction T) (auto intro!: av simp: pred_option_def thash_def wf_tnode)
  then have "pred_option (stored E (d', u)) ot"
    using ot(3,4) mpt_wf by (auto simp: pred_option_def tm_mpt_def)
  moreover have "coherent E (d', u)" using ot(1) c(2) d' by (simp add: coherent_def)
  ultimately show ?thesis using ot unfolding trie_holds_def by auto
qed

section \<open>Storage\<close>

text \<open>A storage trie holds the non-zero values of the slots.\<close>

definition slots_at :: "('d, 'z) state_env_scheme \<Rightarrow> 'd \<Rightarrow> hash option \<Rightarrow> (u256 \<Rightarrow> u256) \<Rightarrow> bool" where
  "slots_at E d r S \<longleftrightarrow> (\<exists>m. trie_holds E 32 (d, trie_with_root (root_or_zero r)) m \<and>
     (\<forall>slot. m (u256_to_be_bytes slot) = (if S slot = 0 then None else Some (u256_to_be_bytes (S slot)))))"

definition slots_cached :: "'d state_db \<Rightarrow> (address \<Rightarrow> u256 \<Rightarrow> u256) \<Rightarrow> bool" where
  "slots_cached st S \<longleftrightarrow> (\<forall>a slots slot v. map_of (sdb_storage st) a = Some slots \<longrightarrow> slots slot = Some v \<longrightarrow> S a slot = v)"

definition storage_view :: "('d, 'z) state_env_scheme \<Rightarrow> 'd state_db \<Rightarrow> ledger \<Rightarrow> (address \<Rightarrow> u256 \<Rightarrow> u256) \<Rightarrow> bool" where
  "storage_view E st L S \<longleftrightarrow> state_view E st L \<and> slots_cached st S \<and>
     (\<forall>a. slots_at E (sdb_db st) (storage_root (ld_accounts L a)) (S a))"

lemma slots_at_db: "kv E d STATE = kv E d' STATE \<Longrightarrow> slots_at E d r S \<Longrightarrow> slots_at E d' r S"
  unfolding slots_at_def by (elim exE conjE, intro exI conjI, rule trie_holds_db)

lemma cache_slot_cached:
  assumes E: "state_env_ok E" and c: "slots_cached st S"
  obtains c' where "cache_slot E a slot v st = (Inr (), st\<lparr>sdb_storage := c'\<rparr>)"
    "slots_cached (st\<lparr>sdb_storage := c'\<rparr>) (S(a := (S a)(slot := v)))"
proof -
  let ?S = "S(a := (S a)(slot := v))"
  obtain r c1 where g: "storage_cache_get E (sdb_storage st) a = (r, c1)" by fastforce
  have c1: "r = map_of (sdb_storage st) a" "map_of c1 = map_of (sdb_storage st)"
    using state_env_okD(8,9) [OF E, of "sdb_storage st" a] g by simp_all
  show thesis
  proof (cases r)
    case (Some slots)
    have "slots_cached (st\<lparr>sdb_storage := AList.update a (slots(slot \<mapsto> v)) c1\<rparr>) ?S"
    proof -
      have "map_of (sdb_storage st) a = Some slots" using c1(1) Some by simp
      then show ?thesis using c c1(2) unfolding slots_cached_def by (simp add: update_conv')
    qed
    then show thesis using g Some by (intro that) (simp_all add: cache_slot_def)
  next
    case None
    let ?c = "storage_cache_put E c1 a (Map.empty(slot \<mapsto> v))"
    have le: "map_of ?c \<subseteq>\<^sub>m (map_of (sdb_storage st))(a \<mapsto> Map.empty(slot \<mapsto> v))"
      using state_env_okD(10) [OF E, of c1] c1(2) by simp
    have "?S b sl = w" if "map_of ?c b = Some slots" "slots sl = Some w" for b slots sl w
    proof -
      have "((map_of (sdb_storage st))(a \<mapsto> Map.empty(slot \<mapsto> v))) b = Some slots"
        using le that(1) by (rule map_le_SomeD)
      then show ?thesis using that(2) c by (auto simp: slots_cached_def split: if_splits)
    qed
    then have "slots_cached (st\<lparr>sdb_storage := ?c\<rparr>) ?S" by (simp add: slots_cached_def)
    then show thesis using g None by (intro that [of ?c]) (simp_all add: cache_slot_def)
  qed
qed

lemma slots_cached_cong: "sdb_storage st' = sdb_storage st \<Longrightarrow> slots_cached st' S = slots_cached st S"
  by (simp add: slots_cached_def)

lemma state_view_storage_cache [simp]: "state_view E (st\<lparr>sdb_storage := c\<rparr>) L = state_view E st L"
  by (simp add: state_view_def sdb_holds_def)

text \<open>The write and the commit of the storage trie, as one step on the database.\<close>

lemma write_slot_run:
  fixes E :: "('d, 'z) state_env_scheme"
  assumes E: "state_env_ok E" and s: "slots_at E d r S"
  obtains d' t' root where "write_slot E slot v (d, trie_with_root (root_or_zero r)) = (Inr root, (d', t'))"
    "slots_at E d' (if root = hash_ZERO then None else Some root) (S(slot := v))"
    "\<And>n u m. trie_holds E n (d, u) m \<Longrightarrow> trie_holds E n (d', u) m"
    "\<And>c. c \<noteq> STATE \<Longrightarrow> kv E d' c = kv E d c"
proof -
  note T = state_env_okD(1) [OF E]
  let ?k = "u256_to_be_bytes slot" and ?s = "(d, trie_with_root (root_or_zero r))"
  obtain m where m: "trie_holds E 32 ?s m"
    "\<And>slot. m (u256_to_be_bytes slot) = (if S slot = 0 then None else Some (u256_to_be_bytes (S slot)))"
    using s unfolding slots_at_def by blast
  let ?m = "m(?k := (if v = 0 then None else Some (u256_to_be_bytes v)))"
  have "\<exists>t. (if u256_is_zero v then op_bind (trie_delete E ?k) (\<lambda>_. op_ret ()) else trie_insert E ?k (u256_to_be_bytes v)) ?s
        = (Inr (), (d, t)) \<and> trie_holds E 32 (d, t) ?m"
  proof (cases "v = 0")
    case True
    obtain s' where "trie_delete E ?k ?s = (Inr (m ?k \<noteq> None), s')" "trie_holds E 32 s' (m(?k := None))" "fst s' = d"
      using trie_delete_holds [OF T m(1), of ?k] by auto
    then show ?thesis using True by (cases s') (auto simp: u256_is_zero_def)
  next
    case False
    obtain s' where "trie_insert E ?k (u256_to_be_bytes v) ?s = (Inr (), s')"
      "trie_holds E 32 s' (m(?k \<mapsto> u256_to_be_bytes v))" "fst s' = d"
      using trie_insert_holds [OF T m(1), of ?k "u256_to_be_bytes v"] by auto
    then show ?thesis using False by (cases s') (auto simp: u256_is_zero_def)
  qed
  then obtain t where t: "(if u256_is_zero v then op_bind (trie_delete E ?k) (\<lambda>_. op_ret ())
      else trie_insert E ?k (u256_to_be_bytes v)) ?s = (Inr (), (d, t))" "trie_holds E 32 (d, t) ?m" by blast
  obtain d' t' where c: "trie_commit E (d, t) = (Inr (tr_root t), (d', t'))"
    "trie_holds E 32 (d', trie_with_root (tr_root t)) ?m" "\<And>c. c \<noteq> STATE \<Longrightarrow> kv E d' c = kv E d c"
    using trie_commit_holds [OF T t(2)] by metis
  have co: "coherent E (d, t)" using t(2) by (simp add: trie_holds_def)
  have root: "root_or_zero (if tr_root t = hash_ZERO then None else Some (tr_root t)) = tr_root t"
    by (simp add: root_or_zero_def)
  have "slots_at E d' (if tr_root t = hash_ZERO then None else Some (tr_root t)) (S(slot := v))"
    unfolding slots_at_def root using c(2) m(2) by (intro exI [of _ ?m]) auto
  moreover have "write_slot E slot v ?s = (Inr (tr_root t), (d', t'))"
    unfolding write_slot_def Let_def using t(1) c(1) by (simp only: op_bind_Inr)
  ultimately show thesis
    using that commit_keeps_holds [OF T co _ c(1)] c(3) by blast
qed

lemma on_trie_at_run: "f (sdb_db st, trie_with_root r) = (Inr x, (d, t)) \<Longrightarrow> on_trie_at r f st = (Inr x, st\<lparr>sdb_db := d\<rparr>)"
  by (simp add: on_trie_at_def)

lemma state_view_state_db:
  assumes "state_view E st L" "\<And>m. trie_holds E 20 (sdb_db st, sdb_trie st) m \<Longrightarrow> trie_holds E 20 (d, sdb_trie st) m"
    "kv E d UNDELEGATIONS = kv E (sdb_db st) UNDELEGATIONS"
  shows "state_view E (st\<lparr>sdb_db := d\<rparr>) L"
proof -
  obtain P where P: "sdb_holds E st P" "ld_accounts L = account_or_default \<circ> P"
    "ld_undelegations L = kv E (sdb_db st) UNDELEGATIONS" using assms(1) by (rule state_viewE)
  then have "sdb_holds E (st\<lparr>sdb_db := d\<rparr>) P" using assms(2) unfolding sdb_holds_def by auto
  then show ?thesis using P assms(3) by (intro state_viewI [of _ _ P]) simp_all
qed

lemma slots_at_frame:
  assumes "same_frame E st st'"
  shows "slots_at E (sdb_db st') r S = slots_at E (sdb_db st) r S"
  using assms slots_at_db [of E "sdb_db st" "sdb_db st'"] slots_at_db [of E "sdb_db st'" "sdb_db st"]
  by (auto simp: same_frame_def)

lemma set_storage_view:
  assumes E: "state_env_ok E" and v: "storage_view E st L S"
  obtains st' r where "set_storage E a slot v st = (Inr (), st')"
    "storage_view E st' (L\<lparr>ld_accounts := (ld_accounts L)(a := (ld_accounts L a)\<lparr>storage_root := r\<rparr>)\<rparr>)
       (S(a := (S a)(slot := v)))"
proof -
  let ?S = "S(a := (S a)(slot := v))"
  have L: "state_view E st L" and cached: "slots_cached st S"
    and at: "\<And>b. slots_at E (sdb_db st) (storage_root (ld_accounts L b)) (S b)"
    using v by (simp_all add: storage_view_def)
  obtain c where c: "cache_slot E a slot v st = (Inr (), st\<lparr>sdb_storage := c\<rparr>)" "slots_cached (st\<lparr>sdb_storage := c\<rparr>) ?S"
    using cache_slot_cached [OF E cached] .
  obtain st1 where st1: "get_account E a (st\<lparr>sdb_storage := c\<rparr>) = (Inr (ld_accounts L a), st1)" "state_view E st1 L"
    "same_frame E (st\<lparr>sdb_storage := c\<rparr>) st1"
    using refinesD [OF get_account_refines [OF E, of a], of "st\<lparr>sdb_storage := c\<rparr>" L] L by (auto simp: led_get_def)
  have at1: "slots_at E (sdb_db st1) (storage_root (ld_accounts L b)) (S b)" for b
    using at [of b] slots_at_frame [OF st1(3)] by simp
  obtain d t root where w: "write_slot E slot v (sdb_db st1, trie_with_root (root_or_zero (storage_root (ld_accounts L a)))) = (Inr root, (d, t))"
    "slots_at E d (if root = hash_ZERO then None else Some root) ((S a)(slot := v))"
    "\<And>n u m. trie_holds E n (sdb_db st1, u) m \<Longrightarrow> trie_holds E n (d, u) m"
    "\<And>c. c \<noteq> STATE \<Longrightarrow> kv E d c = kv E (sdb_db st1) c"
    by (rule write_slot_run [OF E at1 [of a], where slot = slot and v = v], rule that)
  let ?r = "if root = hash_ZERO then None else Some root" and ?st2 = "st1\<lparr>sdb_db := d\<rparr>"
  have v2: "state_view E ?st2 L" using st1(2) w(3,4) by (intro state_view_state_db) simp_all
  have at2: "slots_at E d (storage_root (ld_accounts L b)) (S b)" for b
    using at1 [of b] w(3) unfolding slots_at_def by blast
  obtain st3 where st3: "modify_account E a (\<lambda>acc. acc\<lparr>storage_root := ?r\<rparr>) ?st2 = (Inr (), st3)"
    "state_view E st3 (L\<lparr>ld_accounts := (ld_accounts L)(a := (ld_accounts L a)\<lparr>storage_root := ?r\<rparr>)\<rparr>)" "same_frame E ?st2 st3"
    using refinesD [OF modify_account_refines [OF E, of a "\<lambda>acc. acc\<lparr>storage_root := ?r\<rparr>"] v2] by (auto simp: led_modify_def)
  have "sdb_storage st3 = c" using st3(3) st1(3) by (simp add: same_frame_def)
  then have "slots_cached st3 ?S" using c(2) by (simp add: slots_cached_def)
  moreover have "slots_at E (sdb_db st3) (storage_root (((ld_accounts L)(a := (ld_accounts L a)\<lparr>storage_root := ?r\<rparr>)) b)) (?S b)" for b
    using slots_at_frame [OF st3(3)] at2 [of b] w(2) by simp
  ultimately have "storage_view E st3 (L\<lparr>ld_accounts := (ld_accounts L)(a := (ld_accounts L a)\<lparr>storage_root := ?r\<rparr>)\<rparr>) ?S"
    using st3(2) by (simp add: storage_view_def)
  moreover have "set_storage E a slot v st = (Inr (), st3)"
    unfolding set_storage_def
    using c(1) st1(1) on_trie_at_run [of "write_slot E slot v", OF w(1)] st3(1) by simp
  ultimately show thesis using that by blast
qed

lemma get_storage_view:
  assumes E: "state_env_ok E" and v: "storage_view E st L S"
  obtains st' where "get_storage E a slot st = (Inr (S a slot), st')" "storage_view E st' L S"
proof -
  have L: "state_view E st L" and cached: "slots_cached st S"
    and at: "\<And>b. slots_at E (sdb_db st) (storage_root (ld_accounts L b)) (S b)"
    using v by (simp_all add: storage_view_def)
  obtain r c where g: "storage_cache_get E (sdb_storage st) a = (r, c)" by fastforce
  have c: "r = map_of (sdb_storage st) a" "map_of c = map_of (sdb_storage st)"
    using state_env_okD(8,9) [OF E, of "sdb_storage st" a] g by simp_all
  let ?st = "st\<lparr>sdb_storage := c\<rparr>"
  have v0: "storage_view E ?st L S" using L cached at c by (simp add: storage_view_def slots_cached_def)
  show thesis
  proof (cases "Option.bind r (\<lambda>slots. slots slot)")
    case (Some w)
    then have "S a slot = w" using cached c(1) by (auto simp: slots_cached_def bind_eq_Some_conv)
    then show thesis using g Some v0 that by (simp add: get_storage_def)
  next
    case None
    obtain st1 where st1: "get_account E a ?st = (Inr (ld_accounts L a), st1)" "state_view E st1 L" "same_frame E ?st st1"
      using refinesD [OF get_account_refines [OF E, of a], of ?st L] L by (auto simp: led_get_def)
    let ?root = "root_or_zero (storage_root (ld_accounts L a))"
    have at1: "slots_at E (sdb_db st1) (storage_root (ld_accounts L b)) (S b)" for b
      using at [of b] slots_at_frame [OF st1(3)] by simp
    have c1: "slots_cached st1 S" using cached c st1(3) by (simp add: slots_cached_def same_frame_def)
    obtain m where m: "trie_holds E 32 (sdb_db st1, trie_with_root ?root) m"
      "\<And>slot. m (u256_to_be_bytes slot) = (if S a slot = 0 then None else Some (u256_to_be_bytes (S a slot)))"
      using at1 [of a] unfolding slots_at_def by blast
    obtain s' where s': "trie_get E (u256_to_be_bytes slot) (sdb_db st1, trie_with_root ?root) = (Inr (m (u256_to_be_bytes slot)), s')"
      "grows E (sdb_db st1, trie_with_root ?root) s'"
      by (rule trie_get_holds [OF state_env_okD(1) [OF E] m(1), of "u256_to_be_bytes slot"]) (simp, rule that)
    have run: "on_trie_at ?root (trie_get E (u256_to_be_bytes slot)) st1 = (Inr (m (u256_to_be_bytes slot)), st1)"
      using s' by (cases s') (simp add: on_trie_at_def grows_def)
    have v1: "storage_view E st1 L S" using st1(2) c1 at1 by (simp add: storage_view_def)
    show thesis
    proof (cases "S a slot = 0")
      case True
      then show thesis
        using g None st1(1) run v1 m(2) by (intro that [of st1]) (simp_all add: get_storage_def load_storage_def Let_def)
    next
      case False
      obtain c' where c': "cache_slot E a slot (S a slot) st1 = (Inr (), st1\<lparr>sdb_storage := c'\<rparr>)"
        "slots_cached (st1\<lparr>sdb_storage := c'\<rparr>) (S(a := (S a)(slot := S a slot)))"
        using cache_slot_cached [OF E c1] .
      have "?root \<noteq> hash_ZERO"
      proof
        assume "?root = hash_ZERO"
        then have "trie_get E (u256_to_be_bytes slot) (sdb_db st1, trie_with_root ?root) = (Inr None, (sdb_db st1, trie_with_root ?root))"
          by (simp add: trie_get_def trie_with_root_def)
        then show False using s'(1) m(2) [of slot] False by simp
      qed
      then have "get_storage E a slot st = (Inr (S a slot), st1\<lparr>sdb_storage := c'\<rparr>)"
        using g None st1(1) run m(2) False c'(1) by (simp add: get_storage_def load_storage_def Let_def)
      moreover have "storage_view E (st1\<lparr>sdb_storage := c'\<rparr>) L S"
        using v1 c'(2) by (simp add: storage_view_def)
      ultimately show thesis using that by blast
    qed
  qed
qed

section \<open>Code\<close>

definition codes_ok :: "('d, 'z) state_env_scheme \<Rightarrow> 'd state_db \<Rightarrow> bool" where
  "codes_ok E st \<longleftrightarrow> map_of (sdb_code st) \<subseteq>\<^sub>m kv E (sdb_db st) CODE \<and>
     (\<forall>h c. kv E (sdb_db st) CODE h = Some c \<longrightarrow> blake3_hash E c = h)"

definition code_at :: "('d, 'z) state_env_scheme \<Rightarrow> 'd \<Rightarrow> hash option \<Rightarrow> bytes" where
  "code_at E d h = (case Option.bind h (kv E d CODE) of None \<Rightarrow> [] | Some c \<Rightarrow> c)"

lemma state_view_code_cache [simp]: "state_view E (st\<lparr>sdb_code := c\<rparr>) L = state_view E st L"
  by (simp add: state_view_def sdb_holds_def)

lemma codes_ok_frame: "same_frame E st st' \<Longrightarrow> codes_ok E st' = codes_ok E st"
  by (simp add: codes_ok_def same_frame_def)

lemma code_at_frame: "same_frame E st st' \<Longrightarrow> code_at E (sdb_db st') = code_at E (sdb_db st)"
  by (intro ext) (simp add: code_at_def same_frame_def)

lemma get_code_view:
  assumes E: "state_env_ok E" and v: "state_view E st L" and ok: "codes_ok E st"
  obtains st' where "get_code E a st = (Inr (code_at E (sdb_db st) (code_hash (ld_accounts L a))), st')"
    "state_view E st' L" "codes_ok E st'" "code_at E (sdb_db st') = code_at E (sdb_db st)"
proof -
  obtain st1 where st1: "get_account E a st = (Inr (ld_accounts L a), st1)" "state_view E st1 L" "same_frame E st st1"
    using refinesD [OF get_account_refines [OF E, of a] v] by (auto simp: led_get_def)
  have ok1: "codes_ok E st1" using ok codes_ok_frame [OF st1(3)] by simp
  note at1 = code_at_frame [OF st1(3)]
  show thesis
  proof (cases "code_hash (ld_accounts L a)")
    case None
    then show thesis using st1 ok1 at1 by (intro that [of st1]) (simp_all add: get_code_def code_at_def)
  next
    case (Some h)
    obtain r c where g: "code_cache_get E (sdb_code st1) h = (r, c)" by fastforce
    have c: "r = map_of (sdb_code st1) h" "map_of c = map_of (sdb_code st1)"
      using state_env_okD(11,12) [OF E, of "sdb_code st1" h] g by simp_all
    let ?st2 = "st1\<lparr>sdb_code := c\<rparr>"
    have ok2: "codes_ok E ?st2" using ok1 c by (simp add: codes_ok_def)
    show thesis
    proof (cases r)
      case r: (Some code)
      then have "kv E (sdb_db st1) CODE h = Some code" using c ok1 by (metis codes_ok_def map_le_SomeD)
      then have "code_at E (sdb_db st) (code_hash (ld_accounts L a)) = code"
        using at1 Some by (simp add: code_at_def fun_eq_iff) (metis bind.bind_lunit option.case(2))
      then show thesis using st1 g r ok2 at1 Some by (intro that [of ?st2]) (simp_all add: get_code_def)
    next
      case r: None
      have at: "code_at E (sdb_db st) (code_hash (ld_accounts L a)) =
          (case kv E (sdb_db st1) CODE h of None \<Rightarrow> [] | Some c \<Rightarrow> c)"
        using at1 Some by (metis bind.bind_lunit code_at_def)
      have db: "on_db (db_get E CODE h) ?st2 = (Inr (kv E (sdb_db st1) CODE h), ?st2)"
        using db_get_ok [OF state_env_okD(2) [OF E]] by (simp add: on_db_def)
      show thesis
      proof (cases "kv E (sdb_db st1) CODE h")
        case None
        then show thesis using st1 g r ok2 at1 Some db at by (intro that [of ?st2]) (simp_all add: get_code_def)
      next
        case code: (Some code)
        let ?st3 = "st1\<lparr>sdb_code := code_cache_put E c h code\<rparr>"
        have "map_of (code_cache_put E c h code) \<subseteq>\<^sub>m (kv E (sdb_db st1) CODE)(h \<mapsto> code)"
          using state_env_okD(13) [OF E] by (rule map_le_put) (use ok2 in \<open>simp add: codes_ok_def\<close>)
        then have "codes_ok E ?st3" using ok1 code by (simp add: codes_ok_def fun_upd_idem)
        then show thesis using st1 g r at1 Some db at code by (intro that [of ?st3]) (simp_all add: get_code_def)
      qed
    qed
  qed
qed

lemma set_code_view:
  assumes E: "state_env_ok E" and v: "state_view E st L" and ok: "codes_ok E st"
  obtains st' where "set_code E a code st = (Inr (blake3_hash E code), st')"
    "state_view E st' (L\<lparr>ld_accounts := (ld_accounts L)(a := (ld_accounts L a)\<lparr>code_hash := Some (blake3_hash E code)\<rparr>)\<rparr>)"
    "codes_ok E st'" "code_at E (sdb_db st') (Some (blake3_hash E code)) = code"
    "\<And>h. h \<noteq> Some (blake3_hash E code) \<Longrightarrow> code_at E (sdb_db st') h = code_at E (sdb_db st) h"
proof -
  let ?h = "blake3_hash E code"
  obtain d where d: "db_put E CODE ?h code (sdb_db st) = (Inr (), d)"
    "kv E d = (kv E (sdb_db st))(CODE := (kv E (sdb_db st) CODE)(?h \<mapsto> code))"
    using db_put_ok [OF state_env_okD(2) [OF E]] by metis
  let ?st1 = "st\<lparr>sdb_db := d, sdb_code := code_cache_put E (sdb_code st) ?h code\<rparr>"
  have "state_view E (st\<lparr>sdb_db := d\<rparr>) L"
    using v trie_holds_db [of E "sdb_db st" d] d(2) by (intro state_view_state_db) simp_all
  then have v1: "state_view E ?st1 L" by simp
  have "map_of (code_cache_put E (sdb_code st) ?h code) \<subseteq>\<^sub>m (kv E (sdb_db st) CODE)(?h \<mapsto> code)"
    using state_env_okD(13) [OF E] by (rule map_le_put) (use ok in \<open>simp add: codes_ok_def\<close>)
  then have ok1: "codes_ok E ?st1" using ok d(2) by (simp add: codes_ok_def)
  obtain st2 where st2: "modify_account E a (\<lambda>acc. acc\<lparr>code_hash := Some ?h\<rparr>) ?st1 = (Inr (), st2)"
    "state_view E st2 (L\<lparr>ld_accounts := (ld_accounts L)(a := (ld_accounts L a)\<lparr>code_hash := Some ?h\<rparr>)\<rparr>)" "same_frame E ?st1 st2"
    using refinesD [OF modify_account_refines [OF E, of a "\<lambda>acc. acc\<lparr>code_hash := Some ?h\<rparr>"] v1] by (auto simp: led_modify_def)
  have at: "code_at E (sdb_db st2) = code_at E d" using code_at_frame [OF st2(3)] by simp
  have "set_code E a code st = (Inr ?h, st2)"
    using d(1) st2(1) by (simp add: set_code_def on_db_def Let_def)
  moreover have "code_at E (sdb_db st2) (Some ?h) = code" unfolding at using d(2) by (simp add: code_at_def)
  moreover have "code_at E (sdb_db st2) h = code_at E (sdb_db st) h" if "h \<noteq> Some ?h" for h
    unfolding at using that d(2) by (cases h) (simp_all add: code_at_def)
  ultimately show thesis using that st2(2) ok1 codes_ok_frame [OF st2(3)] by blast
qed

end
