(* ===== verification/Sample_State.thy ===== *)
theory Sample_State
  imports Executor_Refine State_Storage Sample_Env
begin

text \<open>
  The concrete environment extended to the state database and the executor: a self-delimiting
  encoding of accounts and undelegations, caches of capacity one, a signature scheme whose
  signatures are key and message, and a stand-in for \<open>revm\<close> that halts at once. It meets every
  hypothesis of the two components.
\<close>

section \<open>Encodings\<close>

lemma of_nat_be_unat:
  "256 ^ k = (2 :: nat) ^ LENGTH('a) \<Longrightarrow> of_nat (be_nat (be_bytes k (unat x))) = (x :: 'a::len word)"
  using unsigned_less [of x, where 'a = nat] by (simp add: be_nat_be_bytes)

definition num :: "nat \<Rightarrow> 'a::len word \<Rightarrow> bytes option" where
  "num k x = Some (be_bytes k (unat x))"

definition onum :: "nat \<Rightarrow> 'a::len word option \<Rightarrow> bytes option" where
  "onum k x = map_option (\<lambda>x. be_bytes k (unat x)) x"

definition rnum :: "bytes option \<Rightarrow> 'a::len word" where
  "rnum b = of_nat (be_nat (the b))"

definition ronum :: "bytes option \<Rightarrow> 'a::len word option" where
  "ronum b = map_option (\<lambda>b. of_nat (be_nat b)) b"

lemma rnum_num: "256 ^ k = (2 :: nat) ^ LENGTH('a) \<Longrightarrow> rnum (num k x) = (x :: 'a::len word)"
  by (simp add: rnum_def num_def of_nat_be_unat)

lemma ronum_onum: "256 ^ k = (2 :: nat) ^ LENGTH('a) \<Longrightarrow> ronum (onum k x) = (x :: 'a::len word option)"
  by (cases x) (simp_all add: ronum_def onum_def of_nat_be_unat)

definition type_byte :: "account_type \<Rightarrow> u8" where
  "type_byte t = (case t of EOA \<Rightarrow> 0 | Contract \<Rightarrow> 1 | Validator \<Rightarrow> 2)"

lemma type_byte_inv [simp]: "account_type_from_u8 (type_byte t) = t"
  by (cases t) (simp_all add: type_byte_def account_type_from_u8_def)

definition account_fields :: "account \<Rightarrow> bytes option list" where
  "account_fields a = [Some [type_byte (account_type a)], num 32 (balance a), num 8 (nonce a), code_hash a,
     storage_root a, onum 32 (stake a), onum 8 (contribution_score a), onum 20 (delegated_to a),
     onum 32 (delegated_amount a), num 16 (storage_deposit a), num 8 (last_active_epoch a),
     num 8 (storage_slot_count a), Some [if is_dormant a then 1 else 0]]"

definition sample_account_bytes :: "account \<Rightarrow> bytes" where
  "sample_account_bytes a = concat (map enc_opt (account_fields a))"

definition account_of_fields :: "bytes option list \<Rightarrow> account" where
  "account_of_fields fs = \<lparr>account_type = account_type_from_u8 (hd (the (fs ! 0))), balance = rnum (fs ! 1),
     nonce = rnum (fs ! 2), code_hash = fs ! 3, storage_root = fs ! 4, stake = ronum (fs ! 5),
     contribution_score = ronum (fs ! 6), delegated_to = ronum (fs ! 7), delegated_amount = ronum (fs ! 8),
     storage_deposit = rnum (fs ! 9), last_active_epoch = rnum (fs ! 10), storage_slot_count = rnum (fs ! 11),
     is_dormant = (hd (the (fs ! 12)) = 1)\<rparr>"

definition sample_account_parse :: "bytes \<Rightarrow> string + account" where
  "sample_account_parse bs = (case dec_opts 13 bs of None \<Rightarrow> Inl ''bad account'' | Some (fs, _) \<Rightarrow> Inr (account_of_fields fs))"

lemma account_of_account_fields: "account_of_fields (account_fields a) = a"
  by (simp add: account_of_fields_def account_fields_def rnum_num ronum_onum)

lemma sample_account_roundtrip: "sample_account_parse (sample_account_bytes a) = Inr a"
proof -
  have "dec_opts (length (account_fields a)) (concat (map enc_opt (account_fields a)) @ []) = Some (account_fields a, [])"
    by (rule dec_enc_opts)
  moreover have "length (account_fields a) = 13" by (simp add: account_fields_def)
  ultimately show ?thesis
    by (simp add: sample_account_parse_def sample_account_bytes_def account_of_account_fields)
qed

definition sample_undelegation_bytes :: "undelegation \<Rightarrow> bytes" where
  "sample_undelegation_bytes u = concat (map enc_opt [num 20 (u_delegator u), num 20 (u_validator u),
     num 32 (u_amount u), num 8 (u_unlock_at u)])"

definition sample_undelegation_parse :: "bytes \<Rightarrow> string + undelegation" where
  "sample_undelegation_parse bs = (case dec_opts 4 bs of
     None \<Rightarrow> Inl ''bad undelegation''
   | Some (fs, _) \<Rightarrow> Inr \<lparr>u_delegator = rnum (fs ! 0), u_validator = rnum (fs ! 1), u_amount = rnum (fs ! 2),
       u_unlock_at = rnum (fs ! 3)\<rparr>)"

lemma sample_undelegation_roundtrip: "sample_undelegation_parse (sample_undelegation_bytes u) = Inr u"
proof -
  let ?fs = "[num 20 (u_delegator u), num 20 (u_validator u), num 32 (u_amount u), num 8 (u_unlock_at u)]"
  have "dec_opts (length ?fs) (concat (map enc_opt ?fs) @ []) = Some (?fs, [])" by (rule dec_enc_opts)
  moreover have "length ?fs = 4" by simp
  ultimately have "dec_opts 4 (sample_undelegation_bytes u) = Some (?fs, [])"
    unfolding sample_undelegation_bytes_def by (metis append_Nil2)
  then show ?thesis by (simp add: sample_undelegation_parse_def rnum_num)
qed

section \<open>The environment\<close>

definition sample_env :: "alist_db exec_env" where
  "sample_env = state_env.extend (trie_env.extend (rocks.extend sample_rocks \<lparr>
     blake3_hash = (\<lambda>b. 1 # b),
     node_to_bytes = sample_node_bytes,
     node_from_bytes = sample_node_parse,
     node_cache_get = (\<lambda>c k. (map_of c k, c)),
     node_cache_put = (\<lambda>c k v. [(k, v)]),
     dirty_order = rev\<rparr>) \<lparr>
     account_to_bytes = sample_account_bytes,
     account_parse = sample_account_parse,
     legacy_account_parse = (\<lambda>b. Inl ''no legacy accounts''),
     undelegation_to_bytes = sample_undelegation_bytes,
     undelegation_from_bytes = sample_undelegation_parse,
     account_cache_get = (\<lambda>c k. (map_of c k, c)),
     account_cache_put = (\<lambda>c k v. [(k, v)]),
     storage_cache_get = (\<lambda>c k. (map_of c k, c)),
     storage_cache_put = (\<lambda>c k v. [(k, v)]),
     code_cache_get = (\<lambda>c k. (map_of c k, c)),
     code_cache_put = (\<lambda>c k v. [(k, v)]),
     accounts_order = rev,
     storage_order = rev\<rparr>) \<lparr>
     keccak256 = (\<lambda>b. 2 # b),
     KECCAK_EMPTY = [2],
     ed_env = \<lparr>ed_key_valid = (\<lambda>k. True), ed_verify = (\<lambda>k m s. s = k @ m)\<rparr>,
     unsigned_tx_bytes = (\<lambda>t. [of_nat (unat (utx_nonce t))]),
     revm_transact = (\<lambda>basic storage block_hash benv tx. op_ret (RevmHalt ''out of gas'' (et_gas_limit tx), []))\<rparr>"

lemma sample_env_trie [simp]:
  "rk_get sample_env = rk_get sample_trie_env" "rk_put sample_env = rk_put sample_trie_env"
  "rk_delete sample_env = rk_delete sample_trie_env" "rk_write sample_env = rk_write sample_trie_env"
  "rk_iter_from sample_env = rk_iter_from sample_trie_env"
  "blake3_hash sample_env = blake3_hash sample_trie_env" "node_to_bytes sample_env = node_to_bytes sample_trie_env"
  "node_from_bytes sample_env = node_from_bytes sample_trie_env" "node_cache_get sample_env = node_cache_get sample_trie_env"
  "node_cache_put sample_env = node_cache_put sample_trie_env" "dirty_order sample_env = dirty_order sample_trie_env"
  by (simp_all add: sample_env_def sample_trie_env_def state_env.defs trie_env.defs rocks.defs)

lemma sample_env_fields [simp]:
  "account_to_bytes sample_env = sample_account_bytes" "account_parse sample_env = sample_account_parse"
  "undelegation_to_bytes sample_env = sample_undelegation_bytes"
  "undelegation_from_bytes sample_env = sample_undelegation_parse"
  "account_cache_get sample_env = (\<lambda>c k. (map_of c k, c))" "account_cache_put sample_env = (\<lambda>c k v. [(k, v)])"
  "storage_cache_get sample_env = (\<lambda>c k. (map_of c k, c))" "storage_cache_put sample_env = (\<lambda>c k v. [(k, v)])"
  "code_cache_get sample_env = (\<lambda>c k. (map_of c k, c))" "code_cache_put sample_env = (\<lambda>c k v. [(k, v)])"
  "accounts_order sample_env = rev" "storage_order sample_env = rev"
  "ed_env sample_env = \<lparr>ed_key_valid = (\<lambda>k. True), ed_verify = (\<lambda>k m s. s = k @ m)\<rparr>"
  "unsigned_tx_bytes sample_env = (\<lambda>t. [of_nat (unat (utx_nonce t))])"
  by (simp_all add: sample_env_def state_env.defs trie_env.defs rocks.defs)

lemma sample_env_ok: "state_env_ok sample_env"
  unfolding state_env_ok_def
proof (intro conjI allI)
  show "trie_env_ok sample_env" by (rule trie_env_ok_cong) simp_all
qed (simp_all add: sample_account_roundtrip sample_undelegation_roundtrip lru_ok_def lru_keys_def map_le_def)

section \<open>States\<close>

definition genesis_ledger :: ledger where
  "genesis_ledger = \<lparr>ld_accounts = (\<lambda>_. new_eoa), ld_undelegations = Map.empty\<rparr>"

lemma kv_sample_env: "kv sample_env d c = map_of (d c)"
  by (simp add: kv_def fun_eq_iff)

lemma empty_clean: "clean sample_env (state_new empty_db) genesis_ledger"
proof -
  have co: "coherent sample_env (empty_db, trie_new)" by (rule coherent_empty) (simp add: kv_sample_env empty_db_def)
  have "trie_holds sample_env 20 (empty_db, trie_new) Map.empty" using co by (rule trie_holds_new)
  then have "sdb_holds sample_env (state_new empty_db) Map.empty"
    by (intro sdb_holdsI [of _ _ Map.empty]) (simp_all add: state_new_def)
  then have "state_view sample_env (state_new empty_db) genesis_ledger"
    by (intro state_viewI [of _ _ Map.empty]) (simp_all add: genesis_ledger_def kv_sample_env state_new_def empty_db_def fun_eq_iff)
  moreover have "state_with_root empty_db hash_ZERO = state_new empty_db"
    by (simp add: state_with_root_def state_new_def trie_with_root_def trie_new_def)
  ultimately show ?thesis by (simp add: clean_def at_root_def) (simp add: state_new_def trie_new_def)
qed

text \<open>A state with one account that was committed.\<close>

definition funded :: "address \<Rightarrow> account \<Rightarrow> alist_db state_db" where
  "funded a acc = snd (state_commit sample_env (snd (set_account sample_env a acc (state_new empty_db))))"

definition funded_ledger :: "address \<Rightarrow> account \<Rightarrow> ledger" where
  "funded_ledger a acc = genesis_ledger\<lparr>ld_accounts := (\<lambda>_. new_eoa)(a := acc)\<rparr>"

lemma funded_clean: "clean sample_env (funded a acc) (funded_ledger a acc)"
proof -
  have v: "state_view sample_env (state_new empty_db) genesis_ledger" using empty_clean by (simp add: clean_def)
  obtain st where st: "set_account sample_env a acc (state_new empty_db) = (Inr (), st)"
    "state_view sample_env st (funded_ledger a acc)"
    using refinesD [OF set_account_refines [OF sample_env_ok, of a acc] v]
    by (auto simp: led_set_def funded_ledger_def genesis_ledger_def)
  obtain st' root where c: "state_commit sample_env st = (Inr root, st')" "state_view sample_env st' (funded_ledger a acc)"
    "at_root sample_env (sdb_db st') root (funded_ledger a acc)" "sdb_root st' = root" "tr_root (sdb_trie st') = root"
    by (rule state_commit_view [OF sample_env_ok st(2)]) (rule that)
  then show ?thesis using st(1) by (simp add: funded_def clean_def)
qed

lemma funded_view: "state_view sample_env (funded a acc) (funded_ledger a acc)"
  using funded_clean by (simp add: clean_def)

lemma led_acc_funded [simp]: "led_acc (funded_ledger a acc) b = (if b = a then acc else new_eoa)"
  by (simp add: funded_ledger_def)

lemma funded_wf: "acc_wf acc \<Longrightarrow> ledger_wf (funded_ledger a acc)"
  by (auto simp: ledger_wf_def acc_wf_def new_eoa_def acc_get_delegated_amount_def)

lemma wealth_new_eoa [simp]: "acc_wealth new_eoa = 0"
  by (simp add: wealth_defs new_eoa_def)

lemma supply_funded: "total_supply (funded_ledger a acc) = acc_wealth acc"
proof -
  have "total_supply (funded_ledger a acc) = (\<Sum>x\<in>UNIV. if x = a then acc_wealth acc else 0)"
    unfolding total_supply_def by (intro sum.cong) simp_all
  then show ?thesis by simp
qed

end
