(* ===== verification/State_Properties.thy ===== *)
theory State_Properties
  imports Sample_State
begin

text \<open>
  What the state database promises: commits are durable and the root identifies the accounts,
  transfers conserve balances, storage and code are read back as they were written, the sums
  over all accounts are exact, a snapshot of a committed state is restored, and one that is not
  loses the writes before it.
\<close>

section \<open>Commit and root\<close>

lemma get_account_view:
  assumes "state_env_ok E" "state_view E st L"
  shows "fst (get_account E a st) = Inr (ld_accounts L a)"
  by (rule refinesD [OF get_account_refines [OF assms(1), of a] assms(2)]) (simp add: led_get_def)

text \<open>C16: after a commit, a state database opened at the returned root reads every account as it
  was before, and so does the committed one.\<close>

theorem state_commit_durable:
  assumes E: "state_env_ok E" and v: "state_view E st L"
  shows "\<exists>root st'. state_commit E st = (Inr root, st') \<and> sdb_root st' = root \<and>
     (\<forall>a. fst (get_account E a (state_with_root (sdb_db st') root)) = Inr (ld_accounts L a) \<and>
          fst (get_account E a st') = Inr (ld_accounts L a))"
proof -
  obtain st' root where c: "state_commit E st = (Inr root, st')" "state_view E st' L"
    "at_root E (sdb_db st') root L" "sdb_root st' = root"
    by (rule state_commit_view [OF E v]) (rule that)
  then show ?thesis using get_account_view [OF E] by (simp add: at_root_def)
qed

theorem state_commit_durable_witness:
  "\<exists>root st'. state_commit sample_env (funded 5 (new_eoa_with_balance 9)) = (Inr root, st') \<and> sdb_root st' = root \<and>
     (\<forall>a. fst (get_account sample_env a (state_with_root (sdb_db st') root)) =
            Inr (ld_accounts (funded_ledger 5 (new_eoa_with_balance 9)) a) \<and>
          fst (get_account sample_env a st') = Inr (ld_accounts (funded_ledger 5 (new_eoa_with_balance 9)) a))"
  by (rule state_commit_durable [OF sample_env_ok funded_view])



section \<open>Transfers\<close>

definition total_balance :: "ledger \<Rightarrow> nat" where
  "total_balance L = (\<Sum>a\<in>UNIV. unat (balance (led_acc L a)))"

lemma balance_upd:
  "total_balance (led_upd a f L) + unat (balance (led_acc L a)) = total_balance L + unat (balance (f (led_acc L a)))"
  unfolding total_balance_def led_upd_def
  using sum_fun_upd [of "\<lambda>acc. unat (balance acc)" "led_acc L" a "f (led_acc L a)"] by simp

lemma balance_le_total: "unat (balance (led_acc L a)) \<le> total_balance L"
  unfolding total_balance_def by (rule member_le_sum) auto

text \<open>a transfer either fails with the missing amount and changes no account, or moves exactly
  its amount: the sum of all balances stays the same.\<close>

theorem transfer_conserves_balances:
  assumes E: "state_env_ok E" and v: "state_view E st L" and s: "total_balance L < 2 ^ 256"
  shows "\<exists>st' L'. state_view E st' L' \<and> total_balance L' = total_balance L \<and>
     (if amount \<le> balance (led_acc L src)
      then state_transfer E src dst amount st = (Inr (), st') \<and>
           (src \<noteq> dst \<longrightarrow> balance (led_acc L' src) = balance (led_acc L src) - amount \<and>
                         balance (led_acc L' dst) = balance (led_acc L dst) + amount)
      else state_transfer E src dst amount st =
             (Inl (Err (InsufficientBalance amount (balance (led_acc L src)))), st') \<and> L' = L)"
proof -
  obtain st' where st': "state_transfer E src dst amount st = (fst (led_transfer src dst amount L), st')"
    "state_view E st' (snd (led_transfer src dst amount L))"
    using refinesD [OF transfer_refines [OF E, of src dst amount] v] by blast
  show ?thesis
  proof (cases "amount \<le> balance (led_acc L src)")
    case False
    then have "amount \<noteq> 0" by auto
    then have "led_transfer src dst amount L = (Inl (Err (InsufficientBalance amount (balance (led_acc L src)))), L)"
      using False by (simp add: led_transfer_def led_sub_balance_def)
    then show ?thesis using st' False by auto
  next
    case True
    let ?L1 = "led_upd src (acc_debit amount) L" and ?L2 = "led_upd dst (acc_add_balance amount) (led_upd src (acc_debit amount) L)"
    have run: "led_transfer src dst amount L = (Inr (), ?L2)"
      using True by (auto simp: led_transfer_def spec_simps acc_add_balance_def)
    have 1: "total_balance ?L1 + unat amount = total_balance L"
      using balance_upd [of src "acc_debit amount" L] True
      by (simp add: acc_debit_def unat_sub_le word_le_nat_alt)
    then have small: "unat (balance (led_acc ?L1 dst)) + unat amount < 2 ^ 256"
      using balance_le_total [of ?L1 dst] s by simp
    note sat = u256_saturating_add_exact [OF small]
    have "total_balance ?L2 = total_balance L"
      using balance_upd [of dst "acc_add_balance amount" ?L1] 1 sat by (simp add: acc_add_balance_def)
    moreover have "balance (led_acc ?L2 dst) = balance (led_acc ?L1 dst) + amount"
      using sat small by (simp add: led_upd_acc acc_add_balance_def word_unat_eq_iff unat_word_ariths)
    ultimately show ?thesis
      using st' run True by (intro exI [of _ st'] exI [of _ ?L2]) (auto simp: led_upd_acc acc_debit_def acc_add_balance_def)
  qed
qed

lemma total_balance_funded: "total_balance (funded_ledger a acc) = unat (balance acc)"
proof -
  have "total_balance (funded_ledger a acc) = (\<Sum>x\<in>UNIV. if x = a then unat (balance acc) else 0)"
    unfolding total_balance_def by (intro sum.cong) (simp_all add: new_eoa_def)
  then show ?thesis by simp
qed

theorem transfer_conserves_balances_witness:
  "\<exists>st' L'. state_view sample_env st' L' \<and> total_balance L' = total_balance (funded_ledger 5 (new_eoa_with_balance 9)) \<and>
     (if 4 \<le> balance (led_acc (funded_ledger 5 (new_eoa_with_balance 9)) 5)
      then state_transfer sample_env 5 6 4 (funded 5 (new_eoa_with_balance 9)) = (Inr (), st') \<and>
           ((5 :: address) \<noteq> 6 \<longrightarrow>
              balance (led_acc L' 5) = balance (led_acc (funded_ledger 5 (new_eoa_with_balance 9)) 5) - 4 \<and>
              balance (led_acc L' 6) = balance (led_acc (funded_ledger 5 (new_eoa_with_balance 9)) 6) + 4)
      else state_transfer sample_env 5 6 4 (funded 5 (new_eoa_with_balance 9)) =
             (Inl (Err (InsufficientBalance 4 (balance (led_acc (funded_ledger 5 (new_eoa_with_balance 9)) 5)))), st') \<and>
           L' = funded_ledger 5 (new_eoa_with_balance 9))"
  by (rule transfer_conserves_balances [OF sample_env_ok funded_view])
     (simp add: total_balance_funded new_eoa_with_balance_def)

section \<open>Storage and code\<close>

text \<open>C25: what is written to a storage slot of an account is read back from it, and every other slot
  and every other account reads as before, whatever the caches hold.\<close>

theorem set_storage_get_storage:
  assumes E: "state_env_ok E" and v: "storage_view E st L S"
  shows "\<exists>st'. set_storage E a slot v st = (Inr (), st') \<and>
     (\<forall>b slot'. fst (get_storage E b slot' st') = Inr (if b = a \<and> slot' = slot then v else S b slot'))"
proof -
  obtain st' r where st': "set_storage E a slot v st = (Inr (), st')"
    "storage_view E st' (L\<lparr>ld_accounts := (ld_accounts L)(a := (ld_accounts L a)\<lparr>storage_root := r\<rparr>)\<rparr>)
       (S(a := (S a)(slot := v)))"
    by (rule set_storage_view [OF E v]) (rule that)
  have "fst (get_storage E b slot' st') = Inr ((S(a := (S a)(slot := v))) b slot')" for b slot'
    by (rule get_storage_view [OF E st'(2), of b slot']) simp
  then show ?thesis using st'(1) by auto
qed

lemma genesis_storage: "storage_view sample_env (state_new empty_db) genesis_ledger (\<lambda>_ _. 0)"
proof -
  have "coherent sample_env (empty_db, trie_new)" by (rule coherent_empty) (simp add: kv_sample_env empty_db_def)
  then have "trie_holds sample_env 32 (empty_db, trie_new) Map.empty" by (rule trie_holds_new)
  moreover have "trie_with_root hash_ZERO = trie_new" by (simp add: trie_with_root_def trie_new_def)
  ultimately have "slots_at sample_env empty_db None (\<lambda>_. 0)"
    by (auto simp: slots_at_def root_or_zero_def intro!: exI [of _ Map.empty])
  then show ?thesis using empty_clean
    by (simp add: storage_view_def clean_def slots_cached_def state_new_def genesis_ledger_def new_eoa_def)
qed

theorem set_storage_get_storage_witness:
  "\<exists>st'. set_storage sample_env 5 1 77 (state_new empty_db) = (Inr (), st') \<and>
     (\<forall>b slot'. fst (get_storage sample_env b slot' st') = Inr (if b = 5 \<and> slot' = 1 then 77 else 0))"
  by (rule set_storage_get_storage [OF sample_env_ok genesis_storage])

text \<open>code set for an account is read back, under the hash that is returned, and the code of an
  account with another code hash stays as it was.\<close>

theorem set_code_get_code:
  assumes E: "state_env_ok E" and v: "state_view E st L" and ok: "codes_ok E st"
  shows "\<exists>st'. set_code E a code st = (Inr (blake3_hash E code), st') \<and> fst (get_code E a st') = Inr code \<and>
     (\<forall>b. b \<noteq> a \<and> code_hash (ld_accounts L b) \<noteq> Some (blake3_hash E code) \<longrightarrow> fst (get_code E b st') = fst (get_code E b st))"
proof -
  let ?h = "blake3_hash E code"
  obtain st' where st': "set_code E a code st = (Inr ?h, st')"
    "state_view E st' (L\<lparr>ld_accounts := (ld_accounts L)(a := (ld_accounts L a)\<lparr>code_hash := Some ?h\<rparr>)\<rparr>)"
    "codes_ok E st'" "code_at E (sdb_db st') (Some ?h) = code"
    "\<And>h. h \<noteq> Some ?h \<Longrightarrow> code_at E (sdb_db st') h = code_at E (sdb_db st) h"
    by (rule set_code_view [OF E v ok]) (rule that)
  have new: "fst (get_code E b st') = Inr (code_at E (sdb_db st') (code_hash (((ld_accounts L)(a := (ld_accounts L a)\<lparr>code_hash := Some ?h\<rparr>)) b)))" for b
    by (rule get_code_view [OF E st'(2,3), of b]) simp
  have old: "fst (get_code E b st) = Inr (code_at E (sdb_db st) (code_hash (ld_accounts L b)))" for b
    by (rule get_code_view [OF E v ok, of b]) simp
  show ?thesis using st'(1,4,5) new old by simp
qed

theorem set_code_get_code_witness:
  "\<exists>st'. set_code sample_env 5 [96, 1] (state_new empty_db) = (Inr (blake3_hash sample_env [96, 1]), st') \<and>
     fst (get_code sample_env 5 st') = Inr [96, 1] \<and>
     (\<forall>b. b \<noteq> 5 \<and> code_hash (ld_accounts genesis_ledger b) \<noteq> Some (blake3_hash sample_env [96, 1]) \<longrightarrow>
        fst (get_code sample_env b st') = fst (get_code sample_env b (state_new empty_db)))"
proof (rule set_code_get_code [OF sample_env_ok])
  show "state_view sample_env (state_new empty_db) genesis_ledger" using empty_clean by (simp add: clean_def)
  show "codes_ok sample_env (state_new empty_db)"
    by (simp add: codes_ok_def state_new_def kv_sample_env empty_db_def)
qed

section \<open>Sums over all accounts\<close>

text \<open>C26: the stake of the network and the stake delegated to a validator are the exact sums over all
  accounts, capped at the largest \<open>U256\<close>, and computing them changes no account.\<close>

theorem total_stake_exact:
  assumes E: "state_env_ok E" and v: "state_view E st L"
  shows "(\<exists>t st'. get_total_stake E st = (Inr t, st') \<and> state_view E st' L \<and>
       unat t = min (\<Sum>a\<in>UNIV. unat (acc_get_stake (ld_accounts L a)) + unat (acc_get_delegated_amount (ld_accounts L a))) (2 ^ 256 - 1)) \<and>
     (\<exists>t st'. get_total_delegated_to E w st = (Inr t, st') \<and> state_view E st' L \<and>
       unat t = min (\<Sum>a | delegated_to (ld_accounts L a) = Some w. unat (acc_get_delegated_amount (ld_accounts L a))) (2 ^ 256 - 1))"
    (is "(\<exists>t st'. _ t st' \<and> _ \<and> unat t = min ?s _) \<and> (\<exists>t st'. _ t st' \<and> _ \<and> unat t = min ?d _)")
proof
  show "\<exists>t st'. get_total_stake E st = (Inr t, st') \<and> state_view E st' L \<and> unat t = min ?s (2 ^ 256 - 1)"
    by (rule refinesD [OF get_total_stake_refines [OF E] v]) (simp add: led_total_stake_def unat_u256_sat)
  have "?d = (\<Sum>a\<in>UNIV. if delegated_to (ld_accounts L a) = Some w then unat (acc_get_delegated_amount (ld_accounts L a)) else 0)"
    by (simp add: sum.inter_filter [symmetric])
  then have "unat (led_total_delegated_to w L) = min ?d (2 ^ 256 - 1)"
    by (simp add: led_total_delegated_to_def unat_u256_sat)
  then show "\<exists>t st'. get_total_delegated_to E w st = (Inr t, st') \<and> state_view E st' L \<and> unat t = min ?d (2 ^ 256 - 1)"
    by - (rule refinesD [OF get_total_delegated_to_refines [OF E, of w] v], simp)
qed

theorem total_stake_exact_witness:
  "(\<exists>t st'. get_total_stake sample_env (funded 5 (new_validator 9)) = (Inr t, st') \<and>
      state_view sample_env st' (funded_ledger 5 (new_validator 9)) \<and>
      unat t = min (\<Sum>a\<in>UNIV. unat (acc_get_stake (ld_accounts (funded_ledger 5 (new_validator 9)) a)) +
        unat (acc_get_delegated_amount (ld_accounts (funded_ledger 5 (new_validator 9)) a))) (2 ^ 256 - 1)) \<and>
   (\<exists>t st'. get_total_delegated_to sample_env 8 (funded 5 (new_validator 9)) = (Inr t, st') \<and>
      state_view sample_env st' (funded_ledger 5 (new_validator 9)) \<and>
      unat t = min (\<Sum>a | delegated_to (ld_accounts (funded_ledger 5 (new_validator 9)) a) = Some 8.
        unat (acc_get_delegated_amount (ld_accounts (funded_ledger 5 (new_validator 9)) a))) (2 ^ 256 - 1))"
  by (rule total_stake_exact [OF sample_env_ok funded_view])

section \<open>Undelegations of an account\<close>

lemma between_prefixed:
  "p \<le> x \<Longrightarrow> x < y \<Longrightarrow> starts_with y p \<Longrightarrow> starts_with x p"
proof (induction p arbitrary: x y)
  case (Cons b p)
  obtain c x' where x: "x = c # x'" using Cons.prems(1) by (cases x) auto
  obtain y' where y: "y = b # y'" "starts_with y' p" using Cons.prems(3) by (cases y) (auto simp: starts_with_def)
  have "b = c" "p \<le> x'" "x' < y'" using Cons.prems(1,2) x y by auto
  then show ?case using Cons.IH [of x' y'] x y by (simp add: starts_with_def)
qed (simp add: starts_with_def)

lemma takeWhile_prefix:
  assumes "sorted_wrt (<) (map fst xs)" "\<And>k v. (k, v) \<in> set xs \<Longrightarrow> p \<le> k"
  shows "takeWhile (\<lambda>(k, v). starts_with k p) xs = filter (\<lambda>(k, v). starts_with k p) xs"
  using assms
proof (induction xs)
  case (Cons x xs)
  obtain k v where x: "x = (k, v)" by (cases x)
  have "\<not> starts_with k' p" if "(k', v') \<in> set xs" "\<not> starts_with k p" for k' v'
    using between_prefixed [of p k k'] that Cons.prems x by force
  then have "filter (\<lambda>(k, v). starts_with k p) xs = []" if "\<not> starts_with k p"
    using that by (auto simp: filter_empty_conv)
  then show ?case using Cons x by auto
qed simp

lemma storage_key_prefix: "starts_with (undelegation_storage_key d v t) (address_as_bytes a) \<longleftrightarrow> d = a"
  by (simp add: starts_with_def undelegation_storage_key_def)

lemma prefix_le: "starts_with k p \<Longrightarrow> p \<le> k"
proof (induction p arbitrary: k)
  case (Cons b p)
  then show ?case by (cases k) (auto simp: starts_with_def)
qed simp

lemma parsed_iff:
  "u \<in> set (parsed_undelegations E xs) \<longleftrightarrow> (\<exists>k w. (k, w) \<in> set xs \<and> undelegation_from_bytes E w = Inr u)"
proof (induction xs)
  case (Cons x xs)
  then show ?case by (cases x) (auto simp: parsed_undelegations_def List.map_filter_simps split: sum.splits)
qed (simp add: parsed_undelegations_def List.map_filter_simps)

text \<open>when every pending undelegation is stored under its own key, the undelegations of an account
  are exactly the stored ones with that delegator.\<close>

theorem get_undelegations_exact:
  assumes E: "state_env_ok E" and v: "state_view E st L"
    and keys: "\<And>k bs. ld_undelegations L k = Some bs \<Longrightarrow>
      \<exists>u. bs = undelegation_to_bytes E u \<and> k = undelegation_storage_key (u_delegator u) (u_validator u) (u_unlock_at u)"
  shows "\<exists>us st'. get_undelegations E a st = (Inr us, st') \<and>
     set us = {u. u_delegator u = a \<and>
       ld_undelegations L (undelegation_storage_key (u_delegator u) (u_validator u) (u_unlock_at u)) = Some (undelegation_to_bytes E u)}"
proof -
  let ?p = "address_as_bytes a" and ?key = "\<lambda>u. undelegation_storage_key (u_delegator u) (u_validator u) (u_unlock_at u)"
  have U: "ld_undelegations L = kv E (sdb_db st) UNDELEGATIONS" using v by (simp add: state_view_def)
  obtain xs where xs: "db_iter_from E UNDELEGATIONS ?p (sdb_db st) = (Inr xs, sdb_db st)" "sorted_wrt (<) (map fst xs)"
    "\<And>x w. (x, w) \<in> set xs \<longleftrightarrow> ?p \<le> x \<and> kv E (sdb_db st) UNDELEGATIONS x = Some w"
    by (rule db_iter_from_ok [OF state_env_okD(2) [OF E], of UNDELEGATIONS ?p "sdb_db st"], rule that)
  let ?ys = "filter (\<lambda>(k, w). starts_with k ?p) xs"
  have tw: "takeWhile (\<lambda>(k, w). starts_with k ?p) xs = ?ys" using xs(2,3) by (intro takeWhile_prefix) blast+
  have mem: "(k, w) \<in> set ?ys \<longleftrightarrow> starts_with k ?p \<and> ld_undelegations L k = Some w" for k w
    using xs(3) U prefix_le by auto
  have "u \<in> set (parsed_undelegations E ?ys) \<longleftrightarrow> u_delegator u = a \<and> ld_undelegations L (?key u) = Some (undelegation_to_bytes E u)" for u
  proof -
    have "u \<in> set (parsed_undelegations E ?ys) \<longleftrightarrow> (\<exists>k w. (k, w) \<in> set ?ys \<and> undelegation_from_bytes E w = Inr u)"
      by (rule parsed_iff)
    also have "\<dots> \<longleftrightarrow> (\<exists>k w. starts_with k ?p \<and> ld_undelegations L k = Some w \<and> undelegation_from_bytes E w = Inr u)"
      unfolding mem by blast
    also have "\<dots> \<longleftrightarrow> u_delegator u = a \<and> ld_undelegations L (?key u) = Some (undelegation_to_bytes E u)"
      using keys state_env_okD(4) [OF E] storage_key_prefix by (metis sum.inject(2))
    finally show ?thesis .
  qed
  then show ?thesis
    using xs(1) tw by (auto simp: get_undelegations_def on_db_def op_bind_def Let_def)
qed

definition pending_sample :: undelegation where
  "pending_sample = \<lparr>u_delegator = 5, u_validator = 8, u_amount = 3, u_unlock_at = 700\<rparr>"

definition pending_ledger :: ledger where
  "pending_ledger = (funded_ledger 5 new_eoa)\<lparr>ld_undelegations :=
     [undelegation_storage_key 5 8 700 \<mapsto> undelegation_to_bytes sample_env pending_sample]\<rparr>"

theorem get_undelegations_exact_witness:
  "\<exists>us st'. get_undelegations sample_env 5 (snd (store_undelegation sample_env pending_sample (funded 5 new_eoa))) = (Inr us, st') \<and>
     set us = {u. u_delegator u = 5 \<and>
       ld_undelegations pending_ledger (undelegation_storage_key (u_delegator u) (u_validator u) (u_unlock_at u)) =
         Some (undelegation_to_bytes sample_env u)}"
proof (rule get_undelegations_exact [OF sample_env_ok])
  show "state_view sample_env (snd (store_undelegation sample_env pending_sample (funded 5 new_eoa))) pending_ledger"
    by (rule refinesD [OF store_undelegation_refines [OF sample_env_ok, of pending_sample] funded_view [of 5 new_eoa]])
      (simp add: led_store_undelegation_def pending_ledger_def pending_sample_def funded_ledger_def genesis_ledger_def)
  show "\<exists>u. bs = undelegation_to_bytes sample_env u \<and> k = undelegation_storage_key (u_delegator u) (u_validator u) (u_unlock_at u)"
    if "ld_undelegations pending_ledger k = Some bs" for k bs
    using that by (intro exI [of _ pending_sample]) (simp add: pending_ledger_def pending_sample_def split: if_splits)
qed

section \<open>Reverting between commits\<close>

lemma state_commit_cong:
  assumes "sdb_db st = sdb_db st'" "sdb_trie st = sdb_trie st'"
  shows "fst (state_commit E st) = fst (state_commit E st')"
    and "sdb_db (snd (state_commit E st)) = sdb_db (snd (state_commit E st'))"
  using assms by (simp_all add: state_commit_def on_trie_def op_bind_def split: prod.split sum.split)

text \<open>C31: a snapshot records the last committed root, so reverting to a snapshot taken after a write that
  was not committed drops the write: what is committed next is the state before it, although the
  write happened before the snapshot.\<close>

theorem revert_drops_uncommitted:
  assumes E: "state_env_ok E" and c: "clean E st L"
  shows "\<exists>st1 root st2. set_account E a acc st = (Inr (), st1) \<and> fst (get_account E a st1) = Inr acc \<and>
     state_commit E (revert E (snapshot st1) st1) = (Inr root, st2) \<and>
     fst (get_account E a (state_with_root (sdb_db st2) root)) = Inr (led_acc L a)"
proof -
  have v: "state_view E st L" using c by (simp add: clean_def)
  obtain st1 where st1: "set_account E a acc st = (Inr (), st1)"
    "state_view E st1 (L\<lparr>ld_accounts := (ld_accounts L)(a := acc)\<rparr>)" "same_frame E st st1"
    by (rule refinesD [OF set_account_refines [OF E, of a acc] v]) (simp add: led_set_def that)
  let ?W = "state_with_root (sdb_db st1) (sdb_root st)" and ?X = "revert E (snapshot st1) st1"
  have eq: "sdb_db ?X = sdb_db ?W" "sdb_trie ?X = sdb_trie ?W"
    using st1(3) by (simp_all add: revert_def snapshot_def state_with_root_def same_frame_def)
  obtain P where P: "sdb_holds E (state_with_root (sdb_db st) (sdb_root st)) P" "ld_accounts L = account_or_default \<circ> P"
    by (rule clean_holds [OF E c], rule that)
  have "sdb_holds E ((state_with_root (sdb_db st) (sdb_root st))\<lparr>sdb_db := sdb_db st1\<rparr>) P"
    using st1(3) by (intro sdb_holds_db [OF P(1)]) (simp add: state_with_root_def same_frame_def)
  then have "sdb_holds E ?W P" by (simp add: state_with_root_def)
  moreover have "ld_undelegations L = kv E (sdb_db ?W) UNDELEGATIONS"
    using st1(2) by (simp add: state_view_def state_with_root_def)
  ultimately have "state_view E ?W L" using P(2) by (intro state_viewI [of E ?W P])
  then obtain root W' where W': "state_commit E ?W = (Inr root, W')" "at_root E (sdb_db W') root L"
    by (rule state_commit_view [OF E]) (rule that)
  obtain st2 where st2: "state_commit E ?X = (Inr root, st2)" "sdb_db st2 = sdb_db W'"
    using state_commit_cong [OF eq, of E] W'(1) by (cases "state_commit E ?X") auto
  have "fst (get_account E a (state_with_root (sdb_db st2) root)) = Inr (led_acc L a)"
    using W'(2) st2(2) by (intro get_account_view [OF E]) (simp add: at_root_def)
  moreover have "fst (get_account E a st1) = Inr acc" using get_account_view [OF E st1(2), of a] by simp
  ultimately show ?thesis using st1(1) st2(1) by blast
qed

theorem revert_drops_uncommitted_witness:
  "\<exists>st1 root st2. set_account sample_env 6 (new_eoa_with_balance 7) (funded 5 new_eoa) = (Inr (), st1) \<and>
     fst (get_account sample_env 6 st1) = Inr (new_eoa_with_balance 7) \<and>
     state_commit sample_env (revert sample_env (snapshot st1) st1) = (Inr root, st2) \<and>
     fst (get_account sample_env 6 (state_with_root (sdb_db st2) root)) = Inr new_eoa"
  using revert_drops_uncommitted [OF sample_env_ok funded_clean, of 6 "new_eoa_with_balance 7" 5 new_eoa] by simp

end
