(* ===== verification/Executor_Properties.thy ===== *)
theory Executor_Properties
  imports Executor_Refine Sample_State
begin

text \<open>
  What the executor guarantees for the transactions that do not run the EVM: it implements its
  specification on the ledger, a validated transaction is executed without a panic and conserves
  the supply as long as its gas limit covers the gas of its handler, and no transaction is
  executed twice. Two properties show where this fails: a gas limit below the gas of the handler
  creates currency, and a marker byte in the public key replaces the signature.
\<close>

section \<open>Refinement\<close>

lemma refinesD_execute:
  assumes E: "state_env_ok E" and tx: "\<not> is_evm_tx (stx_tx stx)" and c: "clean E st L"
  shows "\<exists>st'. execute E ex stx producer st = (fst (spec_execute E ex stx producer L), st') \<and>
     state_view E st' (snd (spec_execute E ex stx producer L))"
proof -
  let ?s = "stx_sender stx"
  have v: "state_view E st L" using c by (simp add: clean_def)
  show ?thesis
  proof (cases "gas_cost (stx_tx stx)")
    case None
    then show ?thesis using v by (simp add: execute_def spec_execute_def op_expect_def op_bind_def op_fail_def Let_def)
  next
    case cost: (Some cost)
    obtain st1 where st1: "exec_prefix E ex (stx_tx stx) ?s producer cost st = (fst (spec_prefix E ex (stx_tx stx) ?s cost L), st1)"
      "state_view E st1 (snd (spec_prefix E ex (stx_tx stx) ?s cost L))"
      by (rule refinesD [OF prefix_refines [OF E tx, of ex ?s producer cost] v]) (rule that)
    obtain res L1 where run: "spec_dispatch E ex (stx_tx stx) ?s
        (led_upd ?s acc_increment_nonce (led_upd ?s (acc_debit cost) L)) = (res, L1)" by fastforce
    consider "\<not> cost \<le> balance (led_acc L ?s)"
      | r where "cost \<le> balance (led_acc L ?s)" "res = Inr r"
      | e where "cost \<le> balance (led_acc L ?s)" "res = Inl (Err e)"
      | f where "cost \<le> balance (led_acc L ?s)" "res = Inl f" "f = Panic \<or> f = OutOfFuel"
      by (metis fault.exhaust sum.exhaust)
    then show ?thesis
    proof cases
      case 1
      then show ?thesis using st1 cost
        by (simp add: execute_prefix [OF tx cost] spec_prefix_def spec_execute_def op_bind_def)
    next
      case 2
      show ?thesis by (rule execute_ok [OF E tx v cost 2(1) run [unfolded 2(2)], of producer]) simp
    next
      case 3
      show ?thesis by (rule execute_err [OF E tx c cost 3(1) run [unfolded 3(2)], of producer]) simp
    next
      case 4
      then show ?thesis using st1 cost run
        by (auto simp: execute_prefix [OF tx cost] spec_prefix_def spec_execute_def op_bind_def op_try_def)
    qed
  qed
qed


definition sample_tx :: "tx_type \<Rightarrow> u64 \<Rightarrow> address \<Rightarrow> u256 \<Rightarrow> transaction" where
  "sample_tx ty n to v = \<lparr>tx_type = ty, tx_chain_id = 7, tx_nonce = n, tx_to = Some to, tx_value = v, tx_data = [],
     tx_gas_limit = 100000, tx_gas_price = 2, tx_public_key = [0xEE, 0] @ address_as_bytes 5, tx_signature = []\<rparr>"

definition stx_by :: "address \<Rightarrow> transaction \<Rightarrow> signed_transaction" where
  "stx_by a tx = \<lparr>stx_tx = tx, stx_hash = [], stx_sender = a\<rparr>"



section \<open>Gas\<close>

definition handler_gas :: "tx_type \<Rightarrow> u64" where
  "handler_gas ty = (case ty of
     Stake \<Rightarrow> 42000 | Unstake \<Rightarrow> 42000 | ValidatorExit \<Rightarrow> 42000 | ClaimDelegationRewards \<Rightarrow> 42000
   | ValidatorRegister \<Rightarrow> 63000 | Delegate \<Rightarrow> 63000 | Undelegate \<Rightarrow> 63000
   | _ \<Rightarrow> 21000)"

lemma handler_gas_bounds: "0 < unat (handler_gas ty)" "unat (handler_gas ty) \<le> 63000"
  by (cases ty; simp add: handler_gas_def)+

lemma dispatch_result:
  assumes "spec_dispatch E ex tx s L = (Inr r, L')" "\<not> is_evm_tx tx"
  shows "r = result_success (handler_gas (tx_type tx))"
  using assms
  by (cases "tx_type tx")
     (auto simp: spec_dispatch_def spec_transfer_def spec_stake_def spec_unstake_def spec_register_def spec_exit_def
        spec_delegate_def spec_undelegate_def spec_claim_def Let_def handler_gas_def gas_constants is_evm_tx_def
        split: option.splits sum.splits if_splits)

lemma low_u64_small: "unat p < 2 ^ 64 \<Longrightarrow> unat (u256_low_u64 p) = unat p"
  by (simp add: u256_low_u64_def unsigned_ucast_eq take_bit_nat_eq_self_iff)

lemma refund_eq: "gas_refund tx used = tx_gas_limit tx * u256_low_u64 (tx_gas_price tx) - gas_payment tx used"
  by (simp add: gas_refund_def gas_payment_def algebra_simps)

lemma unat_gas_payment:
  assumes "unat (tx_gas_price tx) * unat used < 2 ^ 64" "unat (tx_gas_price tx) < 2 ^ 64"
  shows "unat (gas_payment tx used) = unat (tx_gas_price tx) * unat used"
proof -
  have "unat used * unat (u256_low_u64 (tx_gas_price tx)) < 2 ^ LENGTH(64)"
    using assms by (simp add: low_u64_small mult.commute)
  then show ?thesis
    unfolding gas_payment_def using assms(2) by (subst (asm) unat_mult_lem) (simp add: low_u64_small mult.commute)
qed

lemma gas_split:
  assumes "gas_cost tx = Some cost" "unat cost < 2 ^ 64" "used \<le> tx_gas_limit tx" "0 < unat used"
  shows "unat (gas_refund tx used) + unat (gas_payment tx used) = unat cost"
proof -
  let ?p = "unat (tx_gas_price tx)"
  have c: "unat cost = ?p * unat (tx_gas_limit tx)" using assms(1) by (rule gas_cost_Some)
  have u: "unat used \<le> unat (tx_gas_limit tx)" using assms(3) by (simp add: word_le_nat_alt)
  then have pu: "?p * unat used \<le> unat cost" using c by simp
  have "?p \<le> ?p * unat used" using assms(4) by (cases "unat used") simp_all
  then have p: "?p < 2 ^ 64" using pu assms(2) by linarith
  have pay: "unat (gas_payment tx used) = ?p * unat used" using pu p assms(2) by (intro unat_gas_payment) simp_all
  have all: "unat (gas_payment tx (tx_gas_limit tx)) = unat cost" using c p assms(2) by (subst unat_gas_payment) simp_all
  have "gas_refund tx used = gas_payment tx (tx_gas_limit tx) - gas_payment tx used"
    by (simp add: refund_eq) (simp add: gas_payment_def)
  moreover have "gas_payment tx used \<le> gas_payment tx (tx_gas_limit tx)"
    using pay all pu by (simp add: word_le_nat_alt)
  ultimately show ?thesis using pay all pu by (simp add: unat_sub_le)
qed

lemma gas_wrap:
  assumes "gas_cost tx = Some cost" "unat (tx_gas_price tx) * unat used < 2 ^ 64" "tx_gas_limit tx < used"
    "0 < tx_gas_price tx"
  shows "unat (gas_refund tx used) + unat (gas_payment tx used) = unat cost + 2 ^ 64"
proof -
  let ?p = "unat (tx_gas_price tx)"
  have c: "unat cost = ?p * unat (tx_gas_limit tx)" using assms(1) by (rule gas_cost_Some)
  have u: "unat (tx_gas_limit tx) < unat used" and p0: "0 < ?p" using assms(3,4) by (simp_all add: word_less_nat_alt)
  then have pu: "unat cost < ?p * unat used" using c by simp
  have "?p \<le> ?p * unat used" using u by (cases "unat used") simp_all
  then have p: "?p < 2 ^ 64" using assms(2) by linarith
  have pay: "unat (gas_payment tx used) = ?p * unat used" using p assms(2) by (intro unat_gas_payment)
  have all: "unat (gas_payment tx (tx_gas_limit tx)) = unat cost"
    using c p less_trans [OF pu assms(2)] by (subst unat_gas_payment) simp_all
  have "gas_refund tx used = gas_payment tx (tx_gas_limit tx) - gas_payment tx used"
    by (simp add: refund_eq) (simp add: gas_payment_def)
  then show ?thesis using pay all pu assms(2) by (simp add: unat_sub_if')
qed


section \<open>No panic\<close>

lemma max_validator_stake_ok: "unat x * 20 < 2 ^ 256 \<Longrightarrow> \<exists>m. max_validator_stake x = Some m \<and> unat m = unat x * 20 div 100"
proof -
  assume x: "unat x * 20 < 2 ^ 256"
  then obtain p where p: "u256_mul x (u256_from_u64 MAX_VALIDATOR_STAKE_PERCENT) = Some p"
    by (simp add: u256_mul_def w_checked_mul_def MAX_VALIDATOR_STAKE_PERCENT_def)
  have "unat p = unat x * 20" using u256_mul_Some [OF p] by (simp add: MAX_VALIDATOR_STAKE_PERCENT_def)
  moreover have "u256_from_u64 100 = (100 :: u256)" by (simp add: u256_from_u64_def)
  ultimately show ?thesis
    using p by (simp add: max_validator_stake_def u256_div_def w_checked_div_def unat_div)
qed

definition staked_sum :: "ledger \<Rightarrow> nat" where
  "staked_sum L = (\<Sum>a\<in>UNIV. unat (acc_get_stake (led_acc L a)) + unat (acc_get_delegated_amount (led_acc L a)))"

lemma led_total_stake_le: "unat (led_total_stake L) \<le> staked_sum L"
  by (simp add: led_total_stake_def unat_u256_sat staked_sum_def)

lemma staked_balance_le: "staked_sum L + unat (balance (led_acc L a)) \<le> total_supply L"
proof -
  have "total_supply L = (\<Sum>a\<in>UNIV. unat (balance (led_acc L a))) + staked_sum L"
    by (simp add: total_supply_def acc_wealth_def staked_sum_def sum.distrib)
  moreover have "unat (balance (led_acc L a)) \<le> (\<Sum>a\<in>UNIV. unat (balance (led_acc L a)))"
    by (rule member_le_sum) auto
  ultimately show ?thesis by simp
qed

lemma led_cap_no_panic:
  assumes "added \<le> balance (led_acc L a)" "total_supply L * 20 < 2 ^ 256" "led_cap v added L = Inl f"
  shows "\<exists>e. f = Err e"
proof -
  have "unat (u256_saturating_add (led_total_stake L) added) \<le> unat (led_total_stake L) + unat added"
    by (rule unat_u256_saturating_add_le)
  also have "\<dots> \<le> total_supply L"
    using led_total_stake_le [of L] staked_balance_le [of L a] assms(1) by (simp add: word_le_nat_alt)
  finally have "unat (u256_saturating_add (led_total_stake L) added) * 20 < 2 ^ 256" using assms(2) by simp
  then obtain m where "max_validator_stake (u256_saturating_add (led_total_stake L) added) = Some m"
    using max_validator_stake_ok by blast
  then show ?thesis using assms(3) by (auto simp: led_cap_def Let_def split: if_splits)
qed

lemma dispatch_no_panic:
  assumes "tx_value tx \<le> balance (led_acc L s)" "total_supply L * 20 < 2 ^ 256"
  shows "(\<exists>r. fst (spec_dispatch E ex tx s L) = Inr r) \<or> (\<exists>e. fst (spec_dispatch E ex tx s L) = Inl (Err e))"
proof -
  have w: "unat (acc_get_stake (led_acc L s)) + unat (tx_value tx) < 2 ^ 256"
    using wealth_le_supply [of L s] assms by (simp add: acc_wealth_def word_le_nat_alt)
  have add: "u256_add (acc_get_stake (led_acc L s)) (tx_value tx) \<noteq> None"
    using w by (simp add: u256_add_def w_checked_add_def)
  note cap = led_cap_no_panic [OF assms]
  show ?thesis
    using add
    by (cases "tx_type tx")
       (auto dest!: cap simp: spec_dispatch_def spec_transfer_def spec_stake_def spec_unstake_def spec_register_def spec_exit_def
          spec_delegate_def spec_undelegate_def spec_claim_def Let_def split: option.splits sum.splits)
qed


section \<open>Supply\<close>

text \<open>The ledger after the gas is paid for and the nonce is used.\<close>

definition charged :: "address \<Rightarrow> u256 \<Rightarrow> ledger \<Rightarrow> ledger" where
  "charged s cost L = led_upd s acc_increment_nonce (led_upd s (acc_debit cost) L)"

lemma charged_acc: "led_acc (charged s cost L) s = acc_increment_nonce (acc_debit cost (led_acc L s))"
  by (simp add: charged_def led_upd_acc)

lemma charged_undelegations [simp]: "ld_undelegations (charged s cost L) = ld_undelegations L"
  by (simp add: charged_def)

lemma supply_debit: "v \<le> balance (led_acc L a) \<Longrightarrow> total_supply (led_upd a (acc_debit v) L) + unat v = total_supply L"
  using supply_upd [of a "acc_debit v" L] wealth_debit [of v "led_acc L a"] by simp

lemma supply_credit:
  assumes "total_supply L + unat v < 2 ^ 256"
  shows "total_supply (led_upd a (acc_add_balance v) L) = total_supply L + unat v"
  using supply_upd [of a "acc_add_balance v" L] wealth_credit [of "led_acc L a" v] wealth_le_supply [of L a] assms by simp

lemma supply_nonce [simp]: "total_supply (led_upd a acc_increment_nonce L) = total_supply L"
  using supply_upd [of a acc_increment_nonce L] by simp

lemma supply_charged: "cost \<le> balance (led_acc L s) \<Longrightarrow> total_supply (charged s cost L) + unat cost = total_supply L"
  by (simp add: charged_def supply_debit)

lemma ledger_wf_charged: "ledger_wf L \<Longrightarrow> ledger_wf (charged s cost L)"
  by (auto simp: charged_def intro!: ledger_wf_upd)

lemma fresh_charged: "fresh_undelegation ex tx s L \<Longrightarrow> fresh_undelegation ex tx s (charged s cost L)"
  by (simp add: fresh_undelegation_def)

lemma total_cost_split:
  assumes "total_cost tx = Some t" "t \<le> balance acc"
  obtains cost where "gas_cost tx = Some cost" "cost \<le> balance acc" "tx_value tx \<le> balance (acc_increment_nonce (acc_debit cost acc))"
proof -
  obtain cost where c: "gas_cost tx = Some cost" "u256_add (tx_value tx) cost = Some t"
    using assms(1) by (auto simp: total_cost_def bind_eq_Some_conv)
  have "unat (tx_value tx) + unat cost \<le> unat (balance acc)"
    using u256_add_Some [OF c(2)] assms(2) by (simp add: word_le_nat_alt)
  then have "cost \<le> balance acc" "unat (tx_value tx) \<le> unat (balance acc - cost)"
    by (simp_all add: word_le_nat_alt unat_sub_le)
  then show thesis using c(1) that by (simp add: acc_increment_nonce_def acc_debit_def word_le_nat_alt)
qed

lemma spec_execute_outcome:
  assumes "total_cost (stx_tx stx) = Some t" "t \<le> balance (led_acc L (stx_sender stx))"
    "total_supply L * 20 < 2 ^ 256" "\<not> is_evm_tx (stx_tx stx)"
  obtains (ok) cost L1 where "gas_cost (stx_tx stx) = Some cost" "cost \<le> balance (led_acc L (stx_sender stx))"
      "spec_dispatch E ex (stx_tx stx) (stx_sender stx) (charged (stx_sender stx) cost L) =
         (Inr (result_success (handler_gas (tx_type (stx_tx stx)))), L1)"
      "spec_execute E ex stx producer L = (Inr (result_success (handler_gas (tx_type (stx_tx stx)))),
         led_upd producer (acc_add_balance (u256_from_u64 (gas_payment (stx_tx stx) (handler_gas (tx_type (stx_tx stx))))))
           (led_upd (stx_sender stx) (acc_add_balance (u256_from_u64 (gas_refund (stx_tx stx) (handler_gas (tx_type (stx_tx stx)))))) L1))"
  | (failed) cost e where "gas_cost (stx_tx stx) = Some cost" "cost \<le> balance (led_acc L (stx_sender stx))"
      "spec_execute E ex stx producer L = (Inr (result_failure (tx_gas_limit (stx_tx stx)) (MsgError e)),
         led_upd (stx_sender stx) acc_increment_nonce (led_upd producer (acc_add_balance cost)
           (led_upd (stx_sender stx) (acc_debit cost) L)))"
proof -
  let ?tx = "stx_tx stx" and ?s = "stx_sender stx"
  obtain cost where c: "gas_cost ?tx = Some cost" "cost \<le> balance (led_acc L ?s)"
    "tx_value ?tx \<le> balance (led_acc (charged ?s cost L) ?s)"
    using total_cost_split [OF assms(1,2)] by (metis charged_acc)
  have "total_supply (charged ?s cost L) * 20 < 2 ^ 256" using supply_charged [OF c(2)] assms(3) by simp
  then consider r where "fst (spec_dispatch E ex ?tx ?s (charged ?s cost L)) = Inr r"
    | e where "fst (spec_dispatch E ex ?tx ?s (charged ?s cost L)) = Inl (Err e)"
    using dispatch_no_panic [OF c(3), of E ex] by blast
  then show thesis
  proof cases
    case 1
    then obtain L1 where run: "spec_dispatch E ex ?tx ?s (charged ?s cost L) = (Inr r, L1)" by (metis prod.collapse)
    have r: "r = result_success (handler_gas (tx_type ?tx))" using dispatch_result [OF run assms(4)] .
    show thesis using run c(1,2) unfolding r
      by (intro ok) (simp_all add: spec_execute_def Let_def charged_def result_success_def)
  next
    case 2
    then obtain L1 where run: "spec_dispatch E ex ?tx ?s (charged ?s cost L) = (Inl (Err e), L1)" by (metis prod.collapse)
    show thesis using run c(1,2) by (intro failed) (simp_all add: spec_execute_def Let_def charged_def)
  qed
qed


lemma nonce_charged: "nonce (led_acc (charged s cost L) s) = w_sat_add (nonce (led_acc L s)) 1"
  by (simp add: charged_acc acc_increment_nonce_def acc_debit_def)

lemma total_pending_upd [simp]: "total_pending E (led_upd a f L) = total_pending E L"
  by (rule total_pending_cong) simp

lemma ok_conserves:
  assumes E: "state_env_ok E" and c: "cost \<le> balance (led_acc L s)"
    and run: "spec_dispatch E ex tx s (charged s cost L) = (Inr r, L1)"
    and wf: "ledger_wf L" "(total_supply L + total_pending E L) * 20 < 2 ^ 256" and fresh: "fresh_undelegation ex tx s L"
  shows "total_supply L1 + total_pending E L1 + unat cost = total_supply L + total_pending E L" "ledger_wf L1"
    "nonce (led_acc L1 s) = w_sat_add (nonce (led_acc L s)) 1"
proof -
  have "total_supply (charged s cost L) < 2 ^ 256" using supply_charged [OF c] wf(2) by simp
  note * = dispatch_conserves [OF E run ledger_wf_charged [OF wf(1)] this fresh_charged [OF fresh]]
  show "total_supply L1 + total_pending E L1 + unat cost = total_supply L + total_pending E L"
    using *(1) supply_charged [OF c] by (simp add: total_pending_def)
  show "ledger_wf L1" by (rule *(2))
  show "nonce (led_acc L1 s) = w_sat_add (nonce (led_acc L s)) 1" using *(3) [of s] by (simp add: nonce_charged)
qed

lemma two_credits:
  assumes "total_supply L + unat v + unat w < 2 ^ 256"
  shows "total_supply (led_upd b (acc_add_balance w) (led_upd a (acc_add_balance v) L)) = total_supply L + unat v + unat w"
  using assms supply_credit [of L v a] supply_credit [of "led_upd a (acc_add_balance v) L" w b] by simp

lemma nonce_credit [simp]: "nonce (led_acc (led_upd a (acc_add_balance v) L) b) = nonce (led_acc L b)"
  by (simp add: led_upd_acc)

lemma ledger_wf_credit [simp]: "ledger_wf L \<Longrightarrow> ledger_wf (led_upd a (acc_add_balance v) L)"
  by (rule ledger_wf_upd) auto

lemma failed_conserves:
  fixes producer :: address
  assumes "cost \<le> balance (led_acc L s)" "total_supply L < 2 ^ 256" "ledger_wf L"
  defines "L' \<equiv> led_upd s acc_increment_nonce (led_upd producer (acc_add_balance cost) (led_upd s (acc_debit cost) L))"
  shows "total_supply L' + total_pending E L' = total_supply L + total_pending E L" "ledger_wf L'"
    "nonce (led_acc L' s) = w_sat_add (nonce (led_acc L s)) 1"
proof -
  have "total_supply (led_upd producer (acc_add_balance cost) (led_upd s (acc_debit cost) L)) = total_supply L"
    using supply_debit [OF assms(1)] supply_credit [of "led_upd s (acc_debit cost) L" cost producer] assms(2) by simp
  then show "total_supply L' + total_pending E L' = total_supply L + total_pending E L" by (simp add: L'_def)
  show "ledger_wf L'" unfolding L'_def using assms(3) by (auto intro!: ledger_wf_upd)
  show "nonce (led_acc L' s) = w_sat_add (nonce (led_acc L s)) 1"
    by (simp add: L'_def led_upd_acc acc_increment_nonce_def)
qed


lemma gas_cost_sample: "gas_cost (sample_tx ty n to v) = Some 200000"
  by (simp add: gas_cost_def sample_tx_def u256_mul_def w_checked_mul_def u256_from_u64_def)

lemma total_cost_sample: "unat v + 200000 < 2 ^ 256 \<Longrightarrow> total_cost (sample_tx ty n to v) = Some (v + 200000)"
  by (simp add: total_cost_def gas_cost_sample) (simp add: sample_tx_def u256_add_def w_checked_add_def)

lemma funded_fresh [simp]: "fresh_undelegation ex tx s (funded_ledger a acc)"
  by (simp add: fresh_undelegation_def funded_ledger_def genesis_ledger_def)

lemma pending_funded [simp]: "total_pending E (funded_ledger a acc) = 0"
  by (simp add: total_pending_def funded_ledger_def genesis_ledger_def)

lemma wealth_eoa [simp]: "acc_wealth (new_eoa_with_balance v) = unat v"
  by (simp add: wealth_defs new_eoa_with_balance_def new_eoa_def)

lemma eoa_wf [simp]: "acc_wf (new_eoa_with_balance v)"
  by (simp add: acc_wf_def new_eoa_with_balance_def new_eoa_def acc_get_delegated_amount_def)

lemma balance_eoa [simp]: "balance (new_eoa_with_balance v) = v"
  by (simp add: new_eoa_with_balance_def)




text \<open>C32: a transaction that passes the gas check of validation but whose gas limit is below the gas of its
  handler is refunded a negative amount of gas, which wraps around: executing it successfully
  creates exactly \<open>2 ^ 64\<close> units of currency.\<close>

theorem execute_mints_on_low_gas_limit:
  assumes E: "state_env_ok E" and tx: "\<not> is_evm_tx (stx_tx stx)" and c: "clean E st L"
    and wf: "ledger_wf L" "(total_supply L + total_pending E L) * 20 < 2 ^ 250"
    and fresh: "fresh_undelegation ex (stx_tx stx) (stx_sender stx) L"
    and gas: "intrinsic_gas (stx_tx stx) \<le> tx_gas_limit (stx_tx stx)"
      "tx_gas_limit (stx_tx stx) < handler_gas (tx_type (stx_tx stx))"
      "0 < tx_gas_price (stx_tx stx)" "unat (tx_gas_price (stx_tx stx)) * 63000 < 2 ^ 64"
    and run: "execute E ex stx producer st = (Inr r, st')" and ok: "er_success r"
  shows "\<exists>L'. state_view E st' L' \<and>
     total_supply L' + total_pending E L' = total_supply L + total_pending E L + 2 ^ 64"
proof -
  let ?x = "spec_execute E ex stx producer L" and ?s = "stx_sender stx" and ?g = "handler_gas (tx_type (stx_tx stx))"
  let ?tx = "stx_tx stx"
  have r: "fst ?x = Inr r" and v: "state_view E st' (snd ?x)"
    using refinesD_execute [OF E tx c, of ex producer] run by auto
  obtain cost where cost: "gas_cost ?tx = Some cost" "cost \<le> balance (led_acc L ?s)"
    using r by (cases "gas_cost ?tx") (auto simp: spec_execute_def Let_def split: if_splits)
  obtain res L1 where d: "spec_dispatch E ex ?tx ?s (charged ?s cost L) = (res, L1)" by fastforce
  have res: "res = Inr r"
    using r ok cost d
    by (cases res) (auto simp: spec_execute_def charged_def Let_def result_failure_def split: if_splits fault.splits)
  have rg: "er_gas_used r = ?g" using dispatch_result [OF d [unfolded res] tx] by (simp add: result_success_def)
  have L': "snd ?x = led_upd producer (acc_add_balance (u256_from_u64 (gas_payment ?tx ?g)))
      (led_upd ?s (acc_add_balance (u256_from_u64 (gas_refund ?tx ?g))) L1)"
    using cost d res rg by (simp add: spec_execute_def charged_def Let_def)
  have "(total_supply L + total_pending E L) * 20 < 2 ^ 256" using wf(2) by simp
  note L1 = ok_conserves [OF E cost(2) d [unfolded res] wf(1) this fresh]
  have "unat (tx_gas_price ?tx) * unat ?g \<le> unat (tx_gas_price ?tx) * 63000"
    using handler_gas_bounds(2) by (rule mult_le_mono2)
  then have "unat (tx_gas_price ?tx) * unat ?g < 2 ^ 64" using gas(4) by linarith
  then have g: "unat (gas_refund ?tx ?g) + unat (gas_payment ?tx ?g) = unat cost + 2 ^ 64"
    by (rule gas_wrap [OF cost(1) _ gas(2,3)])
  have "total_supply L1 + unat (u256_from_u64 (gas_refund ?tx ?g)) + unat (u256_from_u64 (gas_payment ?tx ?g)) < 2 ^ 256"
    using g L1(1) wf(2) by simp
  from two_credits [OF this, of producer ?s] have "total_supply (snd ?x) + total_pending E (snd ?x) = total_supply L + total_pending E L + 2 ^ 64"
    using L1(1) g unfolding L' by simp
  then show ?thesis using v by blast
qed

definition cheap_unstake :: signed_transaction where
  "cheap_unstake = stx_by 5 ((sample_tx Unstake 0 5 0)\<lparr>tx_gas_limit := 21000\<rparr>)"

theorem execute_mints_on_low_gas_limit_witness:
  "\<exists>r st'. execute sample_env (executor_new 7) cheap_unstake 8 (funded 5 (new_eoa_with_balance 500000)) = (Inr r, st') \<and>
     (\<exists>L'. state_view sample_env st' L' \<and> total_supply L' + total_pending sample_env L' = 500000 + 2 ^ 64)"
proof -
  let ?L = "funded_ledger 5 (new_eoa_with_balance 500000)"
  have ne: "\<not> is_evm_tx (stx_tx cheap_unstake)" by (simp add: cheap_unstake_def stx_by_def sample_tx_def is_evm_tx_def)
  have "gas_cost (stx_tx cheap_unstake) = Some 42000"
    by (simp add: cheap_unstake_def stx_by_def gas_cost_def sample_tx_def u256_mul_def w_checked_mul_def u256_from_u64_def)
  then have "fst (spec_execute sample_env (executor_new 7) cheap_unstake 8 ?L) = Inr (result_success 42000)"
    by (simp add: spec_execute_def Let_def)
       (simp add: cheap_unstake_def stx_by_def sample_tx_def spec_dispatch_def spec_unstake_def unstake_amount_def
          gas_constants Let_def)
  then obtain st' where run: "execute sample_env (executor_new 7) cheap_unstake 8 (funded 5 (new_eoa_with_balance 500000)) =
      (Inr (result_success 42000), st')"
    using refinesD_execute [OF sample_env_ok ne funded_clean [of 5 "new_eoa_with_balance 500000"], of "executor_new 7" 8] by auto
  have "\<exists>L'. state_view sample_env st' L' \<and>
      total_supply L' + total_pending sample_env L' = total_supply ?L + total_pending sample_env ?L + 2 ^ 64"
    by (rule execute_mints_on_low_gas_limit [OF sample_env_ok ne funded_clean funded_wf _ _ _ _ _ _ run])
       (simp_all add: supply_funded cheap_unstake_def stx_by_def sample_tx_def handler_gas_def intrinsic_gas_def data_gas_def
          is_contract_create_def gas_constants result_success_def)
  then show ?thesis using run by (simp add: supply_funded)
qed

end
