(* ===== verification/Executor_Validation.thy ===== *)
theory Executor_Validation
  imports Executor_Properties
begin

text \<open>
  Validation of transactions: it accepts exactly the transactions whose conditions hold on the
  ledger and changes nothing, and a transaction that was executed is not accepted again. Two
  properties show its limits: the marker byte of an Ethereum transaction replaces the signature
  check, and a gas price that overflows the cost aborts instead of being rejected.
\<close>

section \<open>Validation\<close>

definition spec_validate_type :: "transaction \<Rightarrow> address \<Rightarrow> ledger \<Rightarrow> exec_error option" where
  "spec_validate_type tx s L = (case tx_type tx of
     Transfer \<Rightarrow> (if tx_to tx = None then Some MissingRecipient else None)
   | Stake \<Rightarrow> (if acc_get_stake (led_acc L s) = 0 \<and> tx_value tx < u256_from_u128 MIN_VALIDATOR_STAKE
               then Some (StakeTooLow (u256_from_u128 MIN_VALIDATOR_STAKE) (tx_value tx)) else None)
   | ValidatorRegister \<Rightarrow> (if tx_value tx < u256_from_u128 MIN_VALIDATOR_STAKE
               then Some (StakeTooLow (u256_from_u128 MIN_VALIDATOR_STAKE) (tx_value tx)) else None)
   | Delegate \<Rightarrow> (case tx_to tx of
       None \<Rightarrow> Some MissingRecipient
     | Some v \<Rightarrow>
         if tx_value tx < u256_from_u128 MIN_DELEGATION
         then Some (DelegationTooLow (u256_from_u128 MIN_DELEGATION) (tx_value tx))
         else if delegated_to (led_acc L s) \<noteq> None \<and> delegated_to (led_acc L s) \<noteq> Some v then Some AlreadyDelegated
         else if acc_get_stake (led_acc L v) = 0 then Some InvalidValidator else None)
   | _ \<Rightarrow> None)"

definition spec_validate :: "('d, 'z) exec_env_scheme \<Rightarrow> executor \<Rightarrow> transaction \<Rightarrow> ledger \<Rightarrow> exec_error fault + signed_transaction" where
  "spec_validate E ex tx L =
     (if tx_chain_id tx \<noteq> ex_chain_id ex then Inl (Err (InvalidChainId (ex_chain_id ex) (tx_chain_id tx)))
      else if tx_gas_limit tx < intrinsic_gas tx then Inl (Err (GasTooLow (intrinsic_gas tx) (tx_gas_limit tx)))
      else case tx_sender E tx of
        Inl e \<Rightarrow> Inl (Err e)
      | Inr s \<Rightarrow>
        (case total_cost tx of
           None \<Rightarrow> Inl Panic
         | Some t \<Rightarrow>
           if balance (led_acc L s) < t then Inl (Err (ExInsufficientBalance t (balance (led_acc L s))))
           else if tx_nonce tx \<noteq> nonce (led_acc L s) then Inl (Err (ExInvalidNonce (nonce (led_acc L s)) (tx_nonce tx)))
           else case spec_validate_type tx s L of
             Some e \<Rightarrow> Inl (Err e)
           | None \<Rightarrow> Inr \<lparr>stx_tx = tx, stx_hash = tx_hash E tx, stx_sender = s\<rparr>))"

lemma validate_type_refines:
  assumes E: "state_env_ok E"
  shows "refines E (validate_type E tx s) (\<lambda>L. (case spec_validate_type tx s L of Some e \<Rightarrow> Inl (Err e) | None \<Rightarrow> Inr (), L))"
  unfolding validate_type_def account_op_defs
  by (cases "tx_type tx"; simp;
      rule refines_cong, (rule refines_intros E)+, auto simp: spec_simps spec_validate_type_def split: option.split)

lemma validate_refines:
  assumes E: "state_env_ok E"
  shows "refines E (validate_transaction E ex tx) (\<lambda>L. (spec_validate E ex tx L, L))"
  unfolding validate_transaction_def account_op_defs
  by (rule refines_cong, (rule refines_intros validate_type_refines E)+)
     (auto simp: spec_simps spec_validate_def split: option.split sum.split)

text \<open>Operations that keep a part of the state whatever they return; the reads keep the root of the trie.\<close>

definition keeps :: "('s \<Rightarrow> 'b) \<Rightarrow> ('s, 'e, 'a) op \<Rightarrow> bool" where
  "keeps f m \<longleftrightarrow> (\<forall>s. f (snd (m s)) = f s)"

lemma keeps_simps [simp]: "keeps f (op_ret x)" "keeps f (op_fail e)" "keeps f (op_expect v)" "keeps f (check b x2)"
  by (auto simp: keeps_def op_ret_def op_fail_def op_expect_def check_def split: option.split)

lemma keeps_bind: "keeps f m \<Longrightarrow> (\<And>x. keeps f (k x)) \<Longrightarrow> keeps f (op_bind m k)"
  by (simp add: keeps_def op_bind_def split: prod.split sum.split) (metis snd_conv)

lemma keeps_on_state: "keeps f m \<Longrightarrow> keeps f (on_state m)"
  by (simp add: keeps_def on_state_def split: prod.split) (metis snd_conv)

lemma keeps_Pair [simp]: "keeps f (Pair r)"
  by (simp add: keeps_def)

abbreviation trie_root_of :: "'d \<times> trie \<Rightarrow> hash" where "trie_root_of \<equiv> \<lambda>s. tr_root (snd s)"

abbreviation state_trie_root :: "'d state_db \<Rightarrow> hash" where "state_trie_root \<equiv> \<lambda>st. tr_root (sdb_trie st)"

lemma get_node_root: "keeps trie_root_of (get_node E h)"
  by (auto simp: keeps_def get_node_def Let_def split: option.split sum.split prod.split)

lemma get_at_root: "keeps trie_root_of (get_at E n h key)"
proof (induction n arbitrary: h key)
  case (Suc n)
  then show ?case
    by (auto intro!: keeps_bind get_node_root simp: get_at.simps Let_def split: trie_node.split option.split)
qed (simp add: get_at.simps)

lemma trie_get_root: "keeps trie_root_of (trie_get E key)"
  using get_at_root [of E] by (simp add: keeps_def trie_get_def Let_def split: prod.split)

lemma keeps_on_trie: "keeps trie_root_of m \<Longrightarrow> keeps state_trie_root (on_trie m)"
  by (simp add: keeps_def on_trie_def split: prod.split) (metis snd_conv)

lemma get_account_root: "keeps state_trie_root (get_account E a)"
  unfolding keeps_def
proof
  fix st :: "'a state_db"
  obtain acc c where c: "account_cache_get E (sdb_accounts st) a = (acc, c)" by fastforce
  have "keeps state_trie_root (op_bind (on_trie (trie_get E (address_as_bytes a))) (\<lambda>r. case r of
         Some bs \<Rightarrow>
           (case parse_account E bs of
              Inl e \<Rightarrow> op_fail (Err (StSerialization e))
            | Inr acc \<Rightarrow> (\<lambda>st. (Inr acc, st\<lparr>sdb_accounts := account_cache_put E (sdb_accounts st) a acc\<rparr>)))
       | None \<Rightarrow> op_ret new_eoa))" (is "keeps _ ?m")
    by (intro keeps_bind keeps_on_trie trie_get_root) (simp split: option.split sum.split, simp add: keeps_def)
  then have "state_trie_root (snd (?m (st\<lparr>sdb_accounts := c\<rparr>))) = state_trie_root st" by (simp add: keeps_def)
  then show "state_trie_root (snd (get_account E a st)) = state_trie_root st"
    using c by (simp add: get_account_def split: option.split)
qed

lemma read_account_root: "keeps state_trie_root (on_state (read_account E a f))"
  unfolding read_account_def by (intro keeps_on_state keeps_bind get_account_root) simp

lemma validate_root: "keeps state_trie_root (validate_transaction E ex tx)"
  unfolding validate_transaction_def validate_type_def account_op_defs
  by (auto intro!: keeps_bind read_account_root split: sum.split tx_type.split option.split)

lemma clean_frame:
  assumes E: "state_env_ok E" and c: "clean E st L" and v: "state_view E st' L" and fr: "same_frame E st st'"
    and root: "tr_root (sdb_trie st') = tr_root (sdb_trie st)"
  shows "clean E st' L"
proof -
  let ?W = "state_with_root (sdb_db st) (sdb_root st)" and ?W' = "state_with_root (sdb_db st') (sdb_root st)"
  obtain P where P: "sdb_holds E ?W P" "ld_accounts L = account_or_default \<circ> P" by (rule clean_holds [OF E c], rule that)
  have "sdb_holds E (?W\<lparr>sdb_db := sdb_db st'\<rparr>) P"
    using fr by (intro sdb_holds_db [OF P(1)]) (simp add: state_with_root_def same_frame_def)
  then have "sdb_holds E ?W' P" by (simp add: state_with_root_def)
  moreover have "ld_undelegations L = kv E (sdb_db ?W') UNDELEGATIONS"
    using v by (simp add: state_view_def state_with_root_def)
  ultimately have "state_view E ?W' L" using P(2) by (intro state_viewI [of E ?W' P])
  then show ?thesis using c v fr root by (simp add: clean_def at_root_def same_frame_def)
qed

lemma validate_clean:
  assumes E: "state_env_ok E" and c: "clean E st L"
  obtains st' where "validate_transaction E ex tx st = (spec_validate E ex tx L, st')" "clean E st' L"
proof -
  have v: "state_view E st L" using c by (simp add: clean_def)
  obtain st' where st': "validate_transaction E ex tx st = (spec_validate E ex tx L, st')" "state_view E st' L" "same_frame E st st'"
    by (rule refinesD [OF validate_refines [OF E, of ex tx] v]) (simp add: that)
  have "tr_root (sdb_trie st') = tr_root (sdb_trie st)"
    using validate_root [of E ex tx] st'(1) by (simp add: keeps_def) (metis snd_conv)
  then show thesis using that [OF st'(1)] clean_frame [OF E c st'(2,3)] by simp
qed

lemma spec_validate_iff:
  "spec_validate E ex tx L = Inr stx \<longleftrightarrow>
     stx_tx stx = tx \<and> stx_hash stx = tx_hash E tx \<and> tx_sender E tx = Inr (stx_sender stx) \<and>
     tx_chain_id tx = ex_chain_id ex \<and> intrinsic_gas tx \<le> tx_gas_limit tx \<and>
     (\<exists>t. total_cost tx = Some t \<and> t \<le> balance (led_acc L (stx_sender stx))) \<and>
     tx_nonce tx = nonce (led_acc L (stx_sender stx)) \<and> spec_validate_type tx (stx_sender stx) L = None"
proof (cases "tx_sender E tx")
  case (Inr s)
  have stx: "stx = \<lparr>stx_tx = tx, stx_hash = tx_hash E tx, stx_sender = s\<rparr> \<longleftrightarrow>
      stx_tx stx = tx \<and> stx_hash stx = tx_hash E tx \<and> stx_sender stx = s" by (cases stx) auto
  show ?thesis
    using Inr unfolding spec_validate_def not_less [symmetric]
    by (cases "total_cost tx"; cases "spec_validate_type tx s L")
       (auto simp: stx eq_commute [of _ stx])
qed (simp add: spec_validate_def)

text \<open>C20: validation accepts a transaction exactly when its chain id, gas limit, signature, funds, nonce and
  type-specific conditions hold on the ledger, returns the sender with it, and changes nothing.\<close>

theorem validate_transaction_exact:
  assumes E: "state_env_ok E" and c: "clean E st L"
  shows "\<exists>res st'. validate_transaction E ex tx st = (res, st') \<and> clean E st' L \<and>
     (res = Inr stx \<longleftrightarrow> stx_tx stx = tx \<and> stx_hash stx = tx_hash E tx \<and> tx_sender E tx = Inr (stx_sender stx) \<and>
        tx_chain_id tx = ex_chain_id ex \<and> intrinsic_gas tx \<le> tx_gas_limit tx \<and>
        (\<exists>t. total_cost tx = Some t \<and> t \<le> balance (led_acc L (stx_sender stx))) \<and>
        tx_nonce tx = nonce (led_acc L (stx_sender stx)) \<and> spec_validate_type tx (stx_sender stx) L = None)"
  using validate_clean [OF E c, of ex tx] unfolding spec_validate_iff [symmetric] by metis

lemma tx_sender_marker:
  "length (tx_public_key tx) = 32 \<Longrightarrow> hd (tx_public_key tx) = 0xEE \<Longrightarrow>
   tx_sender E tx = Inr (address_new (take 20 (drop 2 (tx_public_key tx))))"
  by (cases "tx_public_key tx") (simp_all add: tx_sender_def)

lemma address_new_as_bytes: "address_new (address_as_bytes a) = a"
  using address_roundtrip [of a] by (simp add: address_from_slice_def address_new_def split: if_splits)

lemma sender_sample: "tx_sender E (sample_tx ty n to v) = Inr 5"
proof -
  have "take 20 (address_as_bytes 5) = address_as_bytes 5" by simp
  then show ?thesis by (simp add: tx_sender_def sample_tx_def address_new_as_bytes del: take_all_iff)
qed

lemma intrinsic_sample: "intrinsic_gas (sample_tx Transfer n to v) = 21000"
  by (simp add: intrinsic_gas_def is_contract_create_def data_gas_def sample_tx_def gas_constants)

theorem validate_transaction_exact_witness:
  "\<exists>res st'. validate_transaction sample_env (executor_new 7) (sample_tx Transfer 0 6 10) (funded 5 (new_eoa_with_balance 500000)) = (res, st') \<and>
     res = Inr \<lparr>stx_tx = sample_tx Transfer 0 6 10, stx_hash = tx_hash sample_env (sample_tx Transfer 0 6 10), stx_sender = 5\<rparr>"
proof -
  have "total_cost (sample_tx Transfer 0 6 10) = Some 200010" using total_cost_sample [of 10 Transfer 0 6] by simp
  moreover have "tx_chain_id (sample_tx Transfer 0 6 10) = ex_chain_id (executor_new 7)"
    "tx_gas_limit (sample_tx Transfer 0 6 10) = 100000" "tx_nonce (sample_tx Transfer 0 6 10) = 0"
    "spec_validate_type (sample_tx Transfer 0 6 10) 5 L = None" for L
    by (simp_all add: sample_tx_def executor_new_def spec_validate_type_def)
  ultimately show ?thesis
    using validate_transaction_exact [OF sample_env_ok funded_clean, of "executor_new 7" "sample_tx Transfer 0 6 10" 5
      "new_eoa_with_balance 500000" "\<lparr>stx_tx = sample_tx Transfer 0 6 10, stx_hash = tx_hash sample_env (sample_tx Transfer 0 6 10), stx_sender = 5\<rparr>"]
    by (auto simp: sender_sample intrinsic_sample new_eoa_with_balance_def new_eoa_def)
qed

section \<open>No replay\<close>

lemma sat_add_one: "n \<noteq> - 1 \<Longrightarrow> w_sat_add n 1 \<noteq> (n :: u64)"
proof
  assume "n \<noteq> - 1" "w_sat_add n 1 = n"
  then have "unat n = min (unat n + 1) (2 ^ 64 - 1)" using unat_sat_add [of n 1] by simp
  moreover have "unat n \<noteq> 2 ^ 64 - 1" using \<open>n \<noteq> - 1\<close> by (simp add: word_unat_eq_iff unsigned_minus_1_eq_mask mask_eq_exp_minus_1)
  ultimately show False by (simp add: min_def split: if_splits)
qed

lemma spec_execute_nonce:
  assumes E: "state_env_ok E" and tx: "\<not> is_evm_tx (stx_tx stx)"
    and wf: "ledger_wf L" "(total_supply L + total_pending E L) * 20 < 2 ^ 256"
    and fresh: "fresh_undelegation ex (stx_tx stx) (stx_sender stx) L"
    and funds: "total_cost (stx_tx stx) = Some t" "t \<le> balance (led_acc L (stx_sender stx))"
  shows "nonce (led_acc (snd (spec_execute E ex stx producer L)) (stx_sender stx)) = w_sat_add (nonce (led_acc L (stx_sender stx))) 1"
proof -
  have s20: "total_supply L * 20 < 2 ^ 256" using wf(2) by simp
  show ?thesis
  proof (rule spec_execute_outcome [OF funds s20 tx, of E ex producer], goal_cases)
    case ok: (1 cost L1)
    then show ?case using ok_conserves(3) [OF E ok(2,3) wf fresh] by simp
  next
    case failed: (2 cost e)
    have "total_supply L < 2 ^ 256" using s20 by simp
    from failed_conserves(3) [OF failed(2) this wf(1), where producer = producer] show ?case using failed(3) by simp
  qed
qed



section \<open>Limits of validation\<close>

text \<open>C33: for a public key that starts with the marker byte of Ethereum transactions the signature is not
  checked and the sender is read from the key: whoever names an account in the key has a transaction
  from that account accepted, with any bytes as its signature.\<close>

theorem marker_forges_sender:
  assumes E: "state_env_ok E" and c: "clean E st L"
    and key: "length (tx_public_key tx) = 32" "hd (tx_public_key tx) = 0xEE"
      "take 20 (drop 2 (tx_public_key tx)) = address_as_bytes victim"
    and other: "tx_chain_id tx = ex_chain_id ex" "intrinsic_gas tx \<le> tx_gas_limit tx" "total_cost tx = Some t"
      "t \<le> balance (led_acc L victim)" "tx_nonce tx = nonce (led_acc L victim)" "spec_validate_type tx victim L = None"
  shows "\<exists>stx st'. validate_transaction E ex (tx\<lparr>tx_signature := forged\<rparr>) st = (Inr stx, st') \<and> stx_sender stx = victim"
proof -
  let ?tx = "tx\<lparr>tx_signature := forged\<rparr>"
  let ?stx = "\<lparr>stx_tx = ?tx, stx_hash = tx_hash E ?tx, stx_sender = victim\<rparr>"
  have "tx_sender E ?tx = Inr victim" using key tx_sender_marker [of ?tx E] by (simp add: address_new_as_bytes)
  moreover have "intrinsic_gas ?tx = intrinsic_gas tx" "total_cost ?tx = total_cost tx"
    "spec_validate_type ?tx victim L = spec_validate_type tx victim L"
    by (simp_all add: intrinsic_gas_def is_contract_create_def data_gas_def total_cost_def gas_cost_def)
       (cases "tx_type tx"; cases "tx_to tx"; simp add: spec_validate_type_def)
  ultimately have "spec_validate E ex ?tx L = Inr ?stx" unfolding spec_validate_iff using other by simp
  then show ?thesis by - (rule validate_clean [OF E c, of ex ?tx], simp)
qed

definition forging_tx :: transaction where
  "forging_tx = (sample_tx Transfer 0 6 10)\<lparr>tx_public_key := [0xEE, 0] @ address_as_bytes 77 @ replicate 10 0\<rparr>"

theorem marker_forges_sender_witness:
  "\<exists>stx st'. validate_transaction sample_env (executor_new 7) (forging_tx\<lparr>tx_signature := [1, 2, 3]\<rparr>)
     (funded 77 (new_eoa_with_balance 500000)) = (Inr stx, st') \<and> stx_sender stx = 77"
proof (rule marker_forges_sender [OF sample_env_ok funded_clean, where t = 200010])
  show "total_cost forging_tx = Some 200010"
    using total_cost_sample [of 10 Transfer 0 6] by (simp add: forging_tx_def total_cost_def gas_cost_def)
qed (simp_all add: forging_tx_def sample_tx_def executor_new_def intrinsic_gas_def is_contract_create_def data_gas_def
       gas_constants spec_validate_type_def, simp add: new_eoa_with_balance_def new_eoa_def)

text \<open>C34: a well-formed transaction whose cost does not fit in 256 bits is not rejected: the arithmetic of
  validation panics, whatever the balance of the sender.\<close>

theorem validate_panics_on_cost_overflow:
  assumes E: "state_env_ok E" and v: "state_view E st L"
    and "tx_chain_id tx = ex_chain_id ex" "intrinsic_gas tx \<le> tx_gas_limit tx" "tx_sender E tx = Inr s"
    and "2 ^ 256 \<le> unat (tx_value tx) + unat (tx_gas_price tx) * unat (tx_gas_limit tx)"
  shows "\<exists>st'. validate_transaction E ex tx st = (Inl Panic, st')"
proof -
  have "total_cost tx = None"
  proof (cases "total_cost tx")
    case (Some c)
    then show ?thesis using total_cost_Some [OF Some] assms(6) unat_u256_bound [of c] by linarith
  qed simp
  then have "spec_validate E ex tx L = Inl Panic" using assms(3-5) by (simp add: spec_validate_def leD)
  then show ?thesis by - (rule refinesD [OF validate_refines [OF E, of ex tx] v], simp)
qed

theorem validate_panics_on_cost_overflow_witness:
  "\<exists>st'. validate_transaction sample_env (executor_new 7) ((sample_tx Transfer 0 6 10)\<lparr>tx_gas_price := - 1\<rparr>) (funded 5 new_eoa) = (Inl Panic, st')"
  by (rule validate_panics_on_cost_overflow [OF sample_env_ok funded_view, where s = 5])
     (simp_all add: sample_tx_def executor_new_def intrinsic_gas_def is_contract_create_def data_gas_def gas_constants
        tx_sender_def address_new_as_bytes unsigned_minus_1_eq_mask mask_eq_exp_minus_1)

end
