(* ===== verification/Executor_Block.thy ===== *)
theory Executor_Block
  imports Executor_Validation State_Properties
begin

text \<open>
  What the executor does once per block: it pays out the undelegations that matured, and runs the
  transactions one after the other with a receipt for each. The cap on the stake of a validator
  is proved here too, since it relates the handlers to the sums over all accounts.
\<close>

section \<open>Undelegations that matured\<close>

definition u_key :: "undelegation \<Rightarrow> bytes" where
  "u_key u = undelegation_storage_key (u_delegator u) (u_validator u) (u_unlock_at u)"

definition keyed :: "('d, 'z) state_env_scheme \<Rightarrow> ledger \<Rightarrow> bool" where
  "keyed E L \<longleftrightarrow> (\<forall>k bs. ld_undelegations L k = Some bs \<longrightarrow> (\<exists>u. bs = undelegation_to_bytes E u \<and> k = u_key u))"

definition spec_pay :: "undelegation \<Rightarrow> ledger \<Rightarrow> ledger" where
  "spec_pay u L = (led_upd (u_delegator u) (acc_add_balance (u_amount u)) L)
     \<lparr>ld_undelegations := (ld_undelegations L)(u_key u := None)\<rparr>"

lemma mature_one_refines [refines_intros]:
  fixes E :: "('d, 'z) exec_env_scheme"
  assumes E: "state_env_ok E"
  shows "refines E (mature_one E u n) (\<lambda>L. (Inr (n + 1), spec_pay u L))"
  unfolding mature_one_def add_balance_def
  by (rule refines_cong, (rule refines_intros E)+)
     (auto simp: spec_simps op_try_def led_delete_undelegation_def spec_pay_def u_key_def)

lemma fold_pay: "op_fold (\<lambda>u n L. (Inr (n + 1), spec_pay u L)) us n L = (Inr (n + of_nat (length us)), fold spec_pay us L)"
  by (induction us arbitrary: n L) (simp_all add: op_ret_def op_bind_def algebra_simps)

lemma process_mature_refines:
  fixes E :: "('d, 'z) exec_env_scheme"
  assumes E: "state_env_ok E"
  shows "refines E (process_mature_undelegations E now)
     (\<lambda>L. (Inr (of_nat (length (led_mature E now L))), fold spec_pay (led_mature E now L) L))"
  unfolding process_mature_undelegations_def
  by (rule refines_cong, (rule refines_intros E)+) (simp add: op_bind_def op_try_def fold_pay)

lemma view_finite:
  assumes E: "state_env_ok E" and v: "state_view E st L"
  shows "finite (dom (ld_undelegations L))"
proof -
  obtain xs where xs: "sorted_wrt (<) (map fst xs)"
    "\<And>x v. (x, v) \<in> set xs \<longleftrightarrow> [] \<le> x \<and> kv E (sdb_db st) UNDELEGATIONS x = Some v"
    by (rule db_iter_from_ok [OF state_env_okD(2) [OF E], of UNDELEGATIONS "[]" "sdb_db st"], rule that)
  then show ?thesis using v by (intro sorted_entries_unique(2) [of xs]) (simp_all add: state_view_def)
qed

lemma parsed_keys:
  assumes E: "state_env_ok E" and "\<And>k bs. (k, bs) \<in> set xs \<Longrightarrow> \<exists>u. bs = undelegation_to_bytes E u \<and> k = u_key u"
  shows "map u_key (parsed_undelegations E xs) = map fst xs"
  using assms(2)
proof (induction xs)
  case (Cons x xs)
  obtain k bs where x: "x = (k, bs)" by (cases x)
  then obtain u where u: "bs = undelegation_to_bytes E u" "k = u_key u" using Cons.prems by auto
  have "map u_key (parsed_undelegations E xs) = map fst xs" using Cons.prems by (intro Cons.IH) auto
  then show ?case using x u state_env_okD(4) [OF E, of u] by (simp add: parsed_undelegations_def List.map_filter_simps)
qed (simp add: parsed_undelegations_def List.map_filter_simps)

lemma set_map_entries: "finite (dom U) \<Longrightarrow> (k, bs) \<in> set (map_entries U) \<longleftrightarrow> U k = Some bs"
  by (auto simp: map_entries_def)

lemma mature_keys:
  assumes E: "state_env_ok E" and k: "keyed E L" and fin: "finite (dom (ld_undelegations L))"
  shows "distinct (map u_key (led_mature E now L))"
    and "u \<in> set (led_mature E now L) \<longleftrightarrow> ld_undelegations L (u_key u) = Some (undelegation_to_bytes E u) \<and> u_unlock_at u \<le> now"
proof -
  let ?xs = "map_entries (ld_undelegations L)"
  have "map u_key (parsed_undelegations E ?xs) = map fst ?xs"
    using k fin by (intro parsed_keys [OF E]) (simp add: set_map_entries keyed_def)
  moreover have "distinct (map fst ?xs)" by (simp add: map_entries_def comp_def)
  ultimately show "distinct (map u_key (led_mature E now L))"
    unfolding led_mature_def by (metis distinct_map_filter)
  have "u \<in> set (parsed_undelegations E ?xs) \<longleftrightarrow> (\<exists>k w. ld_undelegations L k = Some w \<and> undelegation_from_bytes E w = Inr u)"
    unfolding parsed_iff using fin by (simp add: set_map_entries)
  also have "\<dots> \<longleftrightarrow> ld_undelegations L (u_key u) = Some (undelegation_to_bytes E u)"
    using k state_env_okD(4) [OF E] unfolding keyed_def by (metis sum.inject(2))
  finally show "u \<in> set (led_mature E now L) \<longleftrightarrow>
      ld_undelegations L (u_key u) = Some (undelegation_to_bytes E u) \<and> u_unlock_at u \<le> now"
    by (simp add: led_mature_def undelegation_is_unlocked_def)
qed

lemma pay_undelegations: "ld_undelegations (fold spec_pay us L) = ld_undelegations L |` (- u_key ` set us)"
  by (induction us arbitrary: L) (auto simp: spec_pay_def restrict_map_def fun_eq_iff)

lemma pay_step:
  assumes E: "state_env_ok E" and stored: "ld_undelegations L (u_key u) = Some (undelegation_to_bytes E u)"
    and fin: "finite (dom (ld_undelegations L))" and small: "total_supply L + total_pending E L < 2 ^ 256"
  shows "total_supply (spec_pay u L) + total_pending E (spec_pay u L) = total_supply L + total_pending E L"
    and "led_acc (spec_pay u L) a = (led_acc L a)\<lparr>balance := balance (led_acc (spec_pay u L) a)\<rparr>"
    and "unat (balance (led_acc (spec_pay u L) a)) = unat (balance (led_acc L a)) + (if u_delegator u = a then unat (u_amount u) else 0)"
proof -
  let ?U = "ld_undelegations L" and ?amt = "\<lambda>k. undelegation_amount E (the (ld_undelegations L k))"
  have amt: "?amt (u_key u) = unat (u_amount u)"
    using stored state_env_okD(4) [OF E, of u] by (simp add: undelegation_amount_def)
  have "total_pending E L = ?amt (u_key u) + (\<Sum>k\<in>dom ?U - {u_key u}. ?amt k)"
    unfolding total_pending_def using fin stored by (intro sum.remove) auto
  moreover have "total_pending E (spec_pay u L) = (\<Sum>k\<in>dom ?U - {u_key u}. ?amt k)"
    unfolding total_pending_def by (simp add: spec_pay_def)
  ultimately have pend: "total_pending E L = unat (u_amount u) + total_pending E (spec_pay u L)" using amt by simp
  then have "total_supply (led_upd (u_delegator u) (acc_add_balance (u_amount u)) L) = total_supply L + unat (u_amount u)"
    using small by (intro supply_credit) simp
  moreover have "total_supply (spec_pay u L) = total_supply (led_upd (u_delegator u) (acc_add_balance (u_amount u)) L)"
    by (simp add: total_supply_def spec_pay_def)
  ultimately show "total_supply (spec_pay u L) + total_pending E (spec_pay u L) = total_supply L + total_pending E L"
    using pend by simp
  show "led_acc (spec_pay u L) a = (led_acc L a)\<lparr>balance := balance (led_acc (spec_pay u L) a)\<rparr>"
    by (simp add: spec_pay_def led_upd_acc acc_add_balance_def)
  have "unat (balance (led_acc L a)) \<le> total_supply L" using wealth_le_supply [of L a] by (simp add: acc_wealth_def)
  then have "unat (balance (led_acc L a)) + unat (u_amount u) < 2 ^ 256" using pend small by linarith
  then show "unat (balance (led_acc (spec_pay u L) a)) = unat (balance (led_acc L a)) + (if u_delegator u = a then unat (u_amount u) else 0)"
    by (auto simp: spec_pay_def led_upd_acc acc_add_balance_def u256_saturating_add_exact)
qed

definition paid_to :: "address \<Rightarrow> undelegation list \<Rightarrow> nat" where
  "paid_to a us = sum_list (map (unat \<circ> u_amount) (filter (\<lambda>u. u_delegator u = a) us))"

lemma balance_upd_trans: "x = y\<lparr>balance := b\<rparr> \<Longrightarrow> y = z\<lparr>balance := c\<rparr> \<Longrightarrow> x = z\<lparr>balance := b\<rparr>"
  by simp

lemma pay_all:
  assumes E: "state_env_ok E"
  shows "distinct (map u_key us) \<Longrightarrow> (\<And>u. u \<in> set us \<Longrightarrow> ld_undelegations L (u_key u) = Some (undelegation_to_bytes E u)) \<Longrightarrow>
    finite (dom (ld_undelegations L)) \<Longrightarrow> total_supply L + total_pending E L < 2 ^ 256 \<Longrightarrow>
    total_supply (fold spec_pay us L) + total_pending E (fold spec_pay us L) = total_supply L + total_pending E L \<and>
    led_acc (fold spec_pay us L) a = (led_acc L a)\<lparr>balance := balance (led_acc (fold spec_pay us L) a)\<rparr> \<and>
    unat (balance (led_acc (fold spec_pay us L) a)) = unat (balance (led_acc L a)) + paid_to a us"
proof (induction us arbitrary: L)
  case (Cons u us)
  let ?L = "spec_pay u L"
  have st: "ld_undelegations L (u_key u) = Some (undelegation_to_bytes E u)" using Cons.prems by simp
  note step = pay_step [OF E st Cons.prems(3,4)]
  have IH: "total_supply (fold spec_pay us ?L) + total_pending E (fold spec_pay us ?L) = total_supply ?L + total_pending E ?L \<and>
    led_acc (fold spec_pay us ?L) a = (led_acc ?L a)\<lparr>balance := balance (led_acc (fold spec_pay us ?L) a)\<rparr> \<and>
    unat (balance (led_acc (fold spec_pay us ?L) a)) = unat (balance (led_acc ?L a)) + paid_to a us"
  proof (rule Cons.IH)
    show "ld_undelegations ?L (u_key w) = Some (undelegation_to_bytes E w)" if "w \<in> set us" for w
    proof -
      have "u_key w \<in> u_key ` set us" using that by (rule imageI)
      moreover have "u_key u \<notin> u_key ` set us" using Cons.prems(1) by simp
      ultimately have "u_key w \<noteq> u_key u" by metis
      then show ?thesis using that Cons.prems(2) by (simp add: spec_pay_def)
    qed
    show "finite (dom (ld_undelegations ?L))" using Cons.prems(3) by (simp add: spec_pay_def)
  qed (use Cons.prems step(1) in simp_all)
  have "led_acc (fold spec_pay us ?L) a = (led_acc L a)\<lparr>balance := balance (led_acc (fold spec_pay us ?L) a)\<rparr>"
    using IH by (intro balance_upd_trans [OF _ step(2) [of a]]) blast
  then show ?case using IH step(1) step(3) [of a] by (simp add: paid_to_def)
qed (simp add: paid_to_def)

text \<open>C19: processing pays every undelegation whose unlock time has come, and no other, to its delegator in
  full and removes it, exactly once: the undelegations that are left are the locked ones and all
  currency is conserved.\<close>

theorem process_mature_pays_unlocked:
  assumes E: "state_env_ok E" and v: "state_view E st L" and k: "keyed E L"
    and small: "total_supply L + total_pending E L < 2 ^ 256"
  shows "\<exists>us st' L'. distinct us \<and>
     set us = {u. ld_undelegations L (u_key u) = Some (undelegation_to_bytes E u) \<and> u_unlock_at u \<le> now} \<and>
     process_mature_undelegations E now st = (Inr (of_nat (length us)), st') \<and> state_view E st' L' \<and>
     ld_undelegations L' = ld_undelegations L |` (- u_key ` set us) \<and>
     (\<forall>a. unat (balance (led_acc L' a)) = unat (balance (led_acc L a)) + paid_to a us \<and>
        led_acc L' a = (led_acc L a)\<lparr>balance := balance (led_acc L' a)\<rparr>) \<and>
     total_supply L' + total_pending E L' = total_supply L + total_pending E L"
proof -
  let ?us = "led_mature E now L" and ?L' = "fold spec_pay (led_mature E now L) L"
  have fin: "finite (dom (ld_undelegations L))" by (rule view_finite [OF E v])
  note us = mature_keys [OF E k fin, where now = now]
  obtain st' where st': "process_mature_undelegations E now st = (Inr (of_nat (length ?us)), st')" "state_view E st' ?L'"
    by (rule refinesD [OF process_mature_refines [OF E, of now] v]) (simp add: that)
  have all: "total_supply ?L' + total_pending E ?L' = total_supply L + total_pending E L \<and>
    led_acc ?L' a = (led_acc L a)\<lparr>balance := balance (led_acc ?L' a)\<rparr> \<and>
    unat (balance (led_acc ?L' a)) = unat (balance (led_acc L a)) + paid_to a ?us" for a
    using us(1) us(2) fin small by (intro pay_all [OF E]) simp_all
  have set_us: "set ?us = {u. ld_undelegations L (u_key u) = Some (undelegation_to_bytes E u) \<and> u_unlock_at u \<le> now}"
    using us(2) by blast
  have "distinct ?us" using us(1) by (simp add: distinct_map)
  then show ?thesis
    using set_us st' pay_undelegations [of ?us L] all by blast
qed

lemma pending_view: "state_view sample_env (snd (store_undelegation sample_env pending_sample (funded 5 new_eoa))) pending_ledger"
  by (rule refinesD [OF store_undelegation_refines [OF sample_env_ok, of pending_sample] funded_view [of 5 new_eoa]])
     (simp add: led_store_undelegation_def pending_ledger_def pending_sample_def funded_ledger_def genesis_ledger_def)

lemma pending_keyed: "keyed sample_env pending_ledger"
  by (auto simp: keyed_def pending_ledger_def u_key_def pending_sample_def split: if_splits intro!: exI [of _ pending_sample])

lemma pending_total: "total_supply pending_ledger + total_pending sample_env pending_ledger = 3"
proof -
  have "total_supply pending_ledger = 0"
    using supply_funded [of 5 new_eoa] by (simp add: pending_ledger_def total_supply_def)
  then show ?thesis
    by (simp add: total_pending_def pending_ledger_def undelegation_amount_def sample_undelegation_roundtrip)
       (simp add: pending_sample_def)
qed

theorem process_mature_pays_unlocked_witness:
  "\<exists>us st' L'. distinct us \<and>
     set us = {u. ld_undelegations pending_ledger (u_key u) = Some (undelegation_to_bytes sample_env u) \<and> u_unlock_at u \<le> 800} \<and>
     process_mature_undelegations sample_env 800 (snd (store_undelegation sample_env pending_sample (funded 5 new_eoa))) =
       (Inr (of_nat (length us)), st') \<and> state_view sample_env st' L' \<and>
     ld_undelegations L' = ld_undelegations pending_ledger |` (- u_key ` set us) \<and>
     (\<forall>a. unat (balance (led_acc L' a)) = unat (balance (led_acc pending_ledger a)) + paid_to a us \<and>
        led_acc L' a = (led_acc pending_ledger a)\<lparr>balance := balance (led_acc L' a)\<rparr>) \<and>
     total_supply L' + total_pending sample_env L' = total_supply pending_ledger + total_pending sample_env pending_ledger"
  by (rule process_mature_pays_unlocked [OF sample_env_ok pending_view pending_keyed]) (simp add: pending_total)

section \<open>The transactions of a block\<close>

lemma execute_one_result:
  assumes "execute_one E ex producer (i, tx) (rs, cum) st = (Inr (rs', cum'), st')"
  shows "\<exists>r. rs' = rs @ [r] \<and> r_tx_hash r = tx_hash E tx \<and> r_tx_index r = of_nat i \<and>
     r_cumulative_gas_used r = cum' \<and> cum' = cum + r_gas_used r"
  using assms
  by (auto simp: execute_one_def op_bind_def op_try_def op_ret_def Let_def failed_receipt_def result_receipt_def
      split: prod.splits sum.splits fault.splits)

lemma execute_one_no_error: "fst (execute_one E ex producer x y st) \<noteq> Inl (Err e)"
  by (cases x; cases y)
     (auto simp: execute_one_def op_bind_def op_try_def op_ret_def Let_def split: prod.splits sum.splits fault.splits)

definition receipts_ok :: "('d, 'z) exec_env_scheme \<Rightarrow> nat \<Rightarrow> u64 \<Rightarrow> transaction list \<Rightarrow> exec_receipt list \<Rightarrow> bool" where
  "receipts_ok E k cum txs rs \<longleftrightarrow> length rs = length txs \<and> (\<forall>i < length txs.
     r_tx_hash (rs ! i) = tx_hash E (txs ! i) \<and> r_tx_index (rs ! i) = of_nat (k + i) \<and>
     r_cumulative_gas_used (rs ! i) = cum + sum_list (map r_gas_used (take (Suc i) rs)))"

lemma receipts_ok_Cons:
  assumes "r_tx_hash r = tx_hash E tx" "r_tx_index r = of_nat k" "r_cumulative_gas_used r = cum + r_gas_used r"
    "receipts_ok E (Suc k) (cum + r_gas_used r) txs rs"
  shows "receipts_ok E k cum (tx # txs) (r # rs)"
  unfolding receipts_ok_def
proof (intro conjI allI impI)
  fix i
  assume i: "i < length (tx # txs)"
  show "r_tx_hash ((r # rs) ! i) = tx_hash E ((tx # txs) ! i)" "r_tx_index ((r # rs) ! i) = of_nat (k + i)"
    "r_cumulative_gas_used ((r # rs) ! i) = cum + sum_list (map r_gas_used (take (Suc i) (r # rs)))"
    using i assms by (cases i; simp add: receipts_ok_def add.assoc)+
qed (use assms(4) in \<open>simp add: receipts_ok_def\<close>)

lemma execute_fold:
  assumes "op_fold (execute_one E ex producer) (zip [k..<k + length txs] txs) (rs, cum) st = (Inr (rs', cum'), st')"
  shows "\<exists>new. rs' = rs @ new \<and> receipts_ok E k cum txs new \<and> cum' = cum + sum_list (map r_gas_used new)"
  using assms
proof (induction txs arbitrary: k rs cum st)
  case (Cons tx txs)
  have z: "zip [k..<k + length (tx # txs)] (tx # txs) = (k, tx) # zip [Suc k..<Suc k + length txs] txs"
    by (simp add: upt_rec)
  obtain rs1 cum1 st1 where one: "execute_one E ex producer (k, tx) (rs, cum) st = (Inr (rs1, cum1), st1)"
    "op_fold (execute_one E ex producer) (zip [Suc k..<Suc k + length txs] txs) (rs1, cum1) st1 = (Inr (rs', cum'), st')"
    using Cons.prems unfolding z by (auto simp: op_bind_def split: prod.splits sum.splits)
  obtain r where r: "rs1 = rs @ [r]" "r_tx_hash r = tx_hash E tx" "r_tx_index r = of_nat k"
    "r_cumulative_gas_used r = cum1" "cum1 = cum + r_gas_used r" using execute_one_result [OF one(1)] by blast
  obtain new where new: "rs' = rs1 @ new" "receipts_ok E (Suc k) cum1 txs new" "cum' = cum1 + sum_list (map r_gas_used new)"
    using Cons.IH [OF one(2)] by blast
  have "receipts_ok E k cum (tx # txs) (r # new)" using r new(2) by (intro receipts_ok_Cons) simp_all
  then show ?case using new r by (intro exI [of _ "r # new"]) (simp add: add.assoc)
qed (simp add: op_ret_def receipts_ok_def)



section \<open>The stake cap\<close>

definition staked_of :: "account \<Rightarrow> nat" where
  "staked_of acc = unat (acc_get_stake acc) + unat (acc_get_delegated_amount acc)"

definition delegated_by :: "address \<Rightarrow> account \<Rightarrow> nat" where
  "delegated_by v acc = (if delegated_to acc = Some v then unat (acc_get_delegated_amount acc) else 0)"

definition validator_total :: "address \<Rightarrow> ledger \<Rightarrow> nat" where
  "validator_total v L = unat (acc_get_stake (led_acc L v)) + (\<Sum>a\<in>UNIV. delegated_by v (led_acc L a))"

lemma staked_sum_of: "staked_sum L = (\<Sum>a\<in>UNIV. staked_of (led_acc L a))"
  by (simp add: staked_sum_def staked_of_def)

lemma staked_upd: "staked_sum (led_upd a f L) + staked_of (led_acc L a) = staked_sum L + staked_of (f (led_acc L a))"
  unfolding staked_sum_of led_upd_def using sum_fun_upd [of staked_of "led_acc L" a "f (led_acc L a)"] by simp

lemma delegated_upd:
  "(\<Sum>b\<in>UNIV. delegated_by v (led_acc (led_upd a f L) b)) + delegated_by v (led_acc L a) =
   (\<Sum>b\<in>UNIV. delegated_by v (led_acc L b)) + delegated_by v (f (led_acc L a))"
  unfolding led_upd_def using sum_fun_upd [of "delegated_by v" "led_acc L" a "f (led_acc L a)"] by simp

lemma validator_le_staked: "validator_total v L \<le> staked_sum L"
proof -
  have "unat (acc_get_stake (led_acc L v)) \<le> (\<Sum>a\<in>UNIV. unat (acc_get_stake (led_acc L a)))"
    by (rule member_le_sum) auto
  moreover have "(\<Sum>a\<in>UNIV. delegated_by v (led_acc L a)) \<le> (\<Sum>a\<in>UNIV. unat (acc_get_delegated_amount (led_acc L a)))"
    by (rule sum_mono) (simp add: delegated_by_def)
  ultimately show ?thesis by (simp add: validator_total_def staked_sum_def sum.distrib)
qed

lemma led_cap_bound:
  assumes cap: "led_cap v added L = Inr ()" and pos: "added \<noteq> 0" "0 < staked_sum L"
    and small: "(staked_sum L + unat added) * 20 < 2 ^ 256"
  shows "(validator_total v L + unat added) * 100 \<le> (staked_sum L + unat added) * 20"
proof -
  have total: "unat (led_total_stake L) = staked_sum L"
    using small by (simp add: led_total_stake_def staked_sum_def unat_u256_sat)
  have vs: "validator_total v L \<le> staked_sum L" by (rule validator_le_staked)
  have del: "unat (led_total_delegated_to v L) = (\<Sum>a\<in>UNIV. delegated_by v (led_acc L a))"
    using small vs by (simp add: led_total_delegated_to_def delegated_by_def unat_u256_sat validator_total_def)
  let ?net = "u256_saturating_add (led_total_stake L) added"
  let ?after = "u256_saturating_add (u256_saturating_add (acc_get_stake (led_acc L v)) (led_total_delegated_to v L)) added"
  have net: "unat ?net = staked_sum L + unat added" using small total by (simp add: u256_saturating_add_exact)
  have own: "unat (u256_saturating_add (acc_get_stake (led_acc L v)) (led_total_delegated_to v L)) = validator_total v L"
    using small vs del by (subst u256_saturating_add_exact) (simp_all add: validator_total_def)
  have after: "unat ?after = validator_total v L + unat added"
    using small vs own by (subst u256_saturating_add_exact) simp_all
  obtain m where m: "max_validator_stake ?net = Some m" "unat m = (staked_sum L + unat added) * 20 div 100"
    using max_validator_stake_ok [of ?net] net small by auto
  have "led_total_stake L \<noteq> 0" using total pos(2) by auto
  then have "?after \<le> m" using cap pos(1) m(1) by (simp add: led_cap_def Let_def split: if_splits)
  then have "validator_total v L + unat added \<le> (staked_sum L + unat added) * 20 div 100"
    using after m(2) by (simp add: word_le_nat_alt)
  then show ?thesis by (simp add: less_eq_div_iff_mult_less_eq)
qed

definition cap_validator :: "transaction \<Rightarrow> address \<Rightarrow> address" where
  "cap_validator tx s = (case tx_type tx of Delegate \<Rightarrow> the (tx_to tx) | _ \<Rightarrow> s)"

definition locks :: "address \<Rightarrow> nat \<Rightarrow> address \<Rightarrow> ledger \<Rightarrow> ledger \<Rightarrow> bool" where
  "locks w n s L L' \<longleftrightarrow> (\<exists>f. L' = led_upd s f L \<and> staked_of (f (led_acc L s)) = staked_of (led_acc L s) + n \<and>
     unat (acc_get_stake (f (led_acc L s))) + delegated_by w (f (led_acc L s)) =
       unat (acc_get_stake (led_acc L s)) + delegated_by w (led_acc L s) + n \<and>
     (s \<noteq> w \<longrightarrow> acc_get_stake (f (led_acc L s)) = acc_get_stake (led_acc L s)))"

lemma locksI:
  "L' = led_upd s f L \<Longrightarrow> staked_of (f (led_acc L s)) = staked_of (led_acc L s) + n \<Longrightarrow>
   unat (acc_get_stake (f (led_acc L s))) + delegated_by w (f (led_acc L s)) =
     unat (acc_get_stake (led_acc L s)) + delegated_by w (led_acc L s) + n \<Longrightarrow>
   (s \<noteq> w \<Longrightarrow> acc_get_stake (f (led_acc L s)) = acc_get_stake (led_acc L s)) \<Longrightarrow> locks w n s L L'"
  unfolding locks_def by blast

lemma locks_total:
  assumes "locks w n s L L'"
  shows "staked_sum L' = staked_sum L + n" "validator_total w L' = validator_total w L + n"
proof -
  obtain f where f: "L' = led_upd s f L" "staked_of (f (led_acc L s)) = staked_of (led_acc L s) + n"
    "unat (acc_get_stake (f (led_acc L s))) + delegated_by w (f (led_acc L s)) =
       unat (acc_get_stake (led_acc L s)) + delegated_by w (led_acc L s) + n"
    "s \<noteq> w \<Longrightarrow> acc_get_stake (f (led_acc L s)) = acc_get_stake (led_acc L s)"
    using assms unfolding locks_def by blast
  show "staked_sum L' = staked_sum L + n" using staked_upd [of s f L] f(1,2) by simp
  show "validator_total w L' = validator_total w L + n"
    using delegated_upd [of w s f L] f(3,4) unfolding validator_total_def f(1)
    by (cases "s = w") (simp_all add: led_upd_acc)
qed

lemmas lock_defs = staked_of_def delegated_by_def acc_get_stake_def acc_get_delegated_amount_def acc_set_stake_def
  acc_debit_def acc_set_contribution_score_def Let_def

lemma stake_locks:
  assumes "spec_stake tx s L = (Inr r, L')"
  shows "led_cap s (tx_value tx) L = Inr () \<and> tx_value tx \<le> balance (led_acc L s) \<and> locks s (unat (tx_value tx)) s L L'"
proof -
  obtain new where new: "u256_add (acc_get_stake (led_acc L s)) (tx_value tx) = Some new"
    "led_cap s (tx_value tx) L = Inr ()" "tx_value tx \<le> balance (led_acc L s)"
    "L' = led_upd s (\<lambda>acc. acc_set_stake new (acc_debit (tx_value tx) acc)) L"
    using assms by (auto simp: spec_stake_def split: option.splits sum.splits if_splits)
  have "locks s (unat (tx_value tx)) s L L'"
    using new(4) by (rule locksI) (use u256_add_Some [OF new(1)] in \<open>simp_all add: lock_defs\<close>)
  then show ?thesis using new by simp
qed

lemma register_locks:
  assumes "spec_register tx s L = (Inr r, L')"
  shows "led_cap s (tx_value tx) L = Inr () \<and> tx_value tx \<le> balance (led_acc L s) \<and> locks s (unat (tx_value tx)) s L L'"
proof -
  have new: "acc_get_stake (led_acc L s) = 0" "led_cap s (tx_value tx) L = Inr ()" "tx_value tx \<le> balance (led_acc L s)"
    "L' = led_upd s (\<lambda>acc. acc_set_contribution_score 0 (acc_set_stake (tx_value tx) (acc_debit (tx_value tx) acc))) L"
    using assms by (auto simp: spec_register_def Let_def split: sum.splits if_splits)
  have "locks s (unat (tx_value tx)) s L L'"
    using new(4) by (rule locksI) (use new(1) in \<open>simp_all add: lock_defs\<close>)
  then show ?thesis using new by simp
qed

lemma delegate_locks:
  assumes run: "spec_delegate tx s L = (Inr r, L')" and wf: "acc_wf (led_acc L s)" "acc_wealth (led_acc L s) < 2 ^ 256"
  shows "led_cap (the (tx_to tx)) (tx_value tx) L = Inr () \<and> tx_value tx \<le> balance (led_acc L s) \<and>
     locks (the (tx_to tx)) (unat (tx_value tx)) s L L'"
proof -
  let ?v = "tx_value tx" and ?acc = "led_acc L s"
  obtain w where w: "tx_to tx = Some w" "delegated_to ?acc = None \<or> delegated_to ?acc = Some w"
    "led_cap w ?v L = Inr ()" "?v \<le> balance ?acc" "L' = led_upd s (acc_delegate w ?v) L"
    using run by (auto simp: spec_delegate_def Let_def split: option.splits sum.splits if_splits)
  have "unat (acc_get_delegated_amount ?acc) + unat ?v < 2 ^ 256"
    using wf(2) w(4) by (simp add: acc_wealth_def word_le_nat_alt)
  then have add: "unat (u256_saturating_add (acc_get_delegated_amount ?acc) ?v) = unat (acc_get_delegated_amount ?acc) + unat ?v"
    by (rule u256_saturating_add_exact)
  have "locks w (unat ?v) s L L'"
    using w(5) by (rule locksI) (use w(2) add wf(1) in \<open>auto simp: acc_delegate_def acc_add_delegated_amount_def
      acc_set_delegation_def acc_wf_def lock_defs\<close>)
  then show ?thesis using w by simp
qed

lemma capped_handlers:
  assumes run: "spec_dispatch E ex tx s L = (Inr r, L')" and ty: "tx_type tx \<in> {Stake, ValidatorRegister, Delegate}"
    and wf: "ledger_wf L" "total_supply L < 2 ^ 256"
  shows "led_cap (cap_validator tx s) (tx_value tx) L = Inr () \<and> tx_value tx \<le> balance (led_acc L s) \<and>
    locks (cap_validator tx s) (unat (tx_value tx)) s L L'"
proof -
  have w: "acc_wf (led_acc L s)" "acc_wealth (led_acc L s) < 2 ^ 256"
    using wf wealth_le_supply [of L s] by (simp_all add: ledger_wf_def)
  show ?thesis using run ty stake_locks register_locks delegate_locks [OF _ w]
    by (auto simp: spec_dispatch_def cap_validator_def)
qed


text \<open>Two validators, one of which stakes more.\<close>

definition small_validator :: account where
  "small_validator = (new_eoa_with_balance 1000)\<lparr>stake := Some 1\<rparr>"

definition large_validator :: account where
  "large_validator = new_eoa\<lparr>stake := Some 1000\<rparr>"

definition two_validators :: ledger where
  "two_validators = led_upd 9 (\<lambda>_. large_validator) (funded_ledger 5 small_validator)"

lemma two_validators_view:
  "state_view sample_env (snd (set_account sample_env 9 large_validator (funded 5 small_validator))) two_validators"
  by (rule refinesD [OF set_account_refines [OF sample_env_ok, of 9 large_validator] funded_view [of 5 small_validator]])
     (simp add: led_set_def two_validators_def led_upd_def)

lemma two_validators_sums:
  "staked_sum two_validators = 1001" "total_supply two_validators = 2001" "led_total_delegated_to 5 two_validators = 0"
  "ledger_wf two_validators"
proof -
  have f: "funded_ledger 5 small_validator = led_upd 5 (\<lambda>_. small_validator) genesis_ledger"
    by (simp add: funded_ledger_def led_upd_def genesis_ledger_def)
  have g: "staked_sum genesis_ledger = 0"
    by (simp add: staked_sum_def genesis_ledger_def new_eoa_def acc_get_stake_def acc_get_delegated_amount_def)
  have "staked_sum (funded_ledger 5 small_validator) = 1"
    using staked_upd [of 5 "\<lambda>_. small_validator" genesis_ledger] g f
    by (simp add: genesis_ledger_def new_eoa_def lock_defs small_validator_def new_eoa_with_balance_def)
  then show "staked_sum two_validators = 1001"
    using staked_upd [of 9 "\<lambda>_. large_validator" "funded_ledger 5 small_validator"]
    by (simp add: two_validators_def lock_defs new_eoa_def large_validator_def)
  show "total_supply two_validators = 2001"
    using supply_upd [of 9 "\<lambda>_. large_validator" "funded_ledger 5 small_validator"] supply_funded [of 5 small_validator]
    by (simp add: two_validators_def wealth_defs new_eoa_def large_validator_def small_validator_def new_eoa_with_balance_def)
  show "led_total_delegated_to 5 two_validators = 0"
  proof -
    have "delegated_to (led_acc two_validators a) = None" for a
      by (simp add: two_validators_def led_upd_acc large_validator_def small_validator_def new_eoa_with_balance_def new_eoa_def)
    then show ?thesis by (simp add: led_total_delegated_to_def u256_sat_def)
  qed
  show "ledger_wf two_validators"
    by (simp add: ledger_wf_def acc_wf_def two_validators_def led_upd_acc large_validator_def small_validator_def
        new_eoa_with_balance_def new_eoa_def acc_get_delegated_amount_def)
qed


end
