(* ===== verification/Ordered_Map.thy ===== *)
theory Ordered_Map
  imports Prelude "HOL-Library.AList" "HOL-Library.Product_Lexorder"
begin

text \<open>
  The maps of the Rust standard library that the mempool and the consensus engine iterate over: a
  \<open>BTreeMap\<close> is an association list sorted by its keys, a \<open>DashMap\<close> or \<open>HashMap\<close> an association list
  in insertion order. A locale states what an invariant of a transition system gives for
  every state that can be reached.
\<close>

section \<open>Sorted association lists\<close>

type_synonym ('k, 'v) btree = "('k \<times> 'v) list"

fun bt_insert :: "'k::linorder \<Rightarrow> 'v \<Rightarrow> ('k, 'v) btree \<Rightarrow> ('k, 'v) btree" where
  "bt_insert k v [] = [(k, v)]"
| "bt_insert k v ((k', v') # xs) =
     (if k < k' then (k, v) # (k', v') # xs
      else if k = k' then (k, v) # xs
      else (k', v') # bt_insert k v xs)"

definition bt_remove :: "'k \<Rightarrow> ('k, 'v) btree \<Rightarrow> ('k, 'v) btree" where
  "bt_remove k xs = filter (\<lambda>(k', v). k' \<noteq> k) xs"

definition bt_ok :: "('k::linorder, 'v) btree \<Rightarrow> bool" where
  "bt_ok xs \<longleftrightarrow> sorted_wrt (<) (map fst xs)"

lemma bt_ok_Nil [simp]: "bt_ok []"
  by (simp add: bt_ok_def)

lemma bt_ok_Cons: "bt_ok ((k, v) # xs) \<longleftrightarrow> bt_ok xs \<and> (\<forall>x\<in>set xs. k < fst x)"
  by (auto simp: bt_ok_def)

lemma bt_ok_distinct: "bt_ok xs \<Longrightarrow> distinct (map fst xs)"
  by (simp add: bt_ok_def strict_sorted_iff)

lemma set_bt_insert: "bt_ok xs \<Longrightarrow> set (bt_insert k v xs) = insert (k, v) {x \<in> set xs. fst x \<noteq> k}"
proof (induction k v xs rule: bt_insert.induct)
  case (2 k v k' v' xs)
  have gt: "x \<in> set xs \<Longrightarrow> k' < fst x" for x using 2(2) by (simp add: bt_ok_Cons)
  then have ne: "k \<le> k' \<Longrightarrow> x \<in> set xs \<Longrightarrow> fst x \<noteq> k" for x using leD by blast
  consider "k < k'" | "k = k'" | "k' < k" by fastforce
  then show ?case
  proof cases
    case 1
    moreover have "\<forall>x\<in>set xs. fst x \<noteq> k" using ne 1 by simp
    ultimately show ?thesis by auto
  next
    case 2
    moreover have "\<forall>x\<in>set xs. fst x \<noteq> k" using ne 2 by simp
    ultimately show ?thesis by auto
  next
    case 3
    then show ?thesis using 2(1,2) by (auto simp: bt_ok_Cons)
  qed
qed simp

lemma bt_ok_insert [simp]: "bt_ok xs \<Longrightarrow> bt_ok (bt_insert k v xs)"
proof (induction k v xs rule: bt_insert.induct)
  case (2 k v k' v' xs)
  then have xs: "bt_ok xs" "\<And>x. x \<in> set xs \<Longrightarrow> k' < fst x" by (auto simp: bt_ok_Cons)
  show ?case
  proof (cases "k < k'")
    case True
    then show ?thesis using xs by (auto simp: bt_ok_Cons intro: less_trans)
  next
    case False
    then show ?thesis using 2 xs by (auto simp: bt_ok_Cons set_bt_insert)
  qed
qed (simp add: bt_ok_Cons)

lemma bt_ok_remove [simp]: "bt_ok xs \<Longrightarrow> bt_ok (bt_remove k xs)"
  by (simp add: bt_ok_def bt_remove_def sorted_wrt_map sorted_wrt_filter)

lemma set_bt_remove: "set (bt_remove k xs) = {x \<in> set xs. fst x \<noteq> k}"
  by (auto simp: bt_remove_def)

lemma map_of_bt_insert: "map_of (bt_insert k v xs) = (map_of xs)(k \<mapsto> v)"
  by (induction k v xs rule: bt_insert.induct) (auto simp: fun_eq_iff)

lemma map_of_bt_remove: "map_of (bt_remove k xs) = (map_of xs)(k := None)"
  by (induction xs) (auto simp: bt_remove_def fun_eq_iff)

lemma length_bt_insert: "length (bt_insert k v xs) \<le> Suc (length xs)"
  by (induction k v xs rule: bt_insert.induct) auto

lemma length_bt_insert_new: "bt_ok xs \<Longrightarrow> k \<notin> fst ` set xs \<Longrightarrow> length (bt_insert k v xs) = Suc (length xs)"
  by (induction k v xs rule: bt_insert.induct) (auto simp: bt_ok_Cons)

lemma length_bt_insert_old: "bt_ok xs \<Longrightarrow> k \<in> fst ` set xs \<Longrightarrow> length (bt_insert k v xs) = length xs"
proof (induction k v xs rule: bt_insert.induct)
  case (2 k v k' v' xs)
  have "x \<in> set xs \<Longrightarrow> k' < fst x" for x using 2(2) by (simp add: bt_ok_Cons)
  then have "\<not> k < k'" using 2(3) by force
  then show ?case using 2 by (auto simp: bt_ok_Cons)
qed simp

lemma length_bt_remove: "length (bt_remove k xs) \<le> length xs"
  by (simp add: bt_remove_def)

section \<open>Association lists with distinct keys\<close>

lemma length_delete:
  "distinct (map fst xs) \<Longrightarrow> map_of xs k = Some v \<Longrightarrow> Suc (length (AList.delete k xs)) = length xs"
proof (induction xs)
  case (Cons x xs)
  obtain a b where x: "x = (a, b)" by (cases x)
  have "AList.delete k xs = xs" if "k \<notin> fst ` set xs" using that by (simp add: AList.delete_idem image_iff)
  then show ?case using Cons x by (auto split: if_splits)
qed simp

lemma length_update_new: "map_of xs k = None \<Longrightarrow> length (AList.update k v xs) = Suc (length xs)"
  by (induction xs) (auto split: if_splits)

lemma in_set_map_of: "distinct (map fst xs) \<Longrightarrow> (k, v) \<in> set xs \<longleftrightarrow> map_of xs k = Some v"
  by (simp add: map_of_eq_Some_iff)

section \<open>Transition systems\<close>

locale invariant_system =
  fixes init :: "'s \<Rightarrow> bool" and step :: "'s \<Rightarrow> 's \<Rightarrow> bool" and inv :: "'s \<Rightarrow> bool"
  assumes inv_init: "init s \<Longrightarrow> inv s"
    and inv_step: "inv s \<Longrightarrow> step s t \<Longrightarrow> inv t"
begin

lemma reachable_inv: "init s \<Longrightarrow> step\<^sup>*\<^sup>* s t \<Longrightarrow> inv t"
proof -
  assume "init s" "step\<^sup>*\<^sup>* s t"
  from this(2,1) show "inv t" by (induction rule: rtranclp_induct) (auto intro: inv_init inv_step)
qed

end

end
