(* ===== verification/Mempool.thy ===== *)
theory Mempool
  imports Executor Ordered_Map
begin

text \<open>
  The transaction pool (\<open>pool.rs\<close> in \<open>qfc-mempool\<close>): transactions by hash, an index by sender and
  nonce, an index by gas price, and a counter. The operations lock the maps one after the
  other; they are modelled as one step each. Time is in nanoseconds and an argument of the
  operations that read the clock. The lookup of the nonce of an account is an argument, as in
  the code.
\<close>

section \<open>The pool\<close>

type_synonym usize = u64

type_synonym nonce_lookup = "address \<Rightarrow> string + u64"

datatype mempool_error =
    AlreadyKnown
  | PoolFull
  | AccountPoolFull
  | GasPriceTooLow u256 u256
  | Expired
  | MpInvalidNonce u64 u64
  | MpState string

record mempool_config =
  mc_max_size :: usize
  mc_max_per_account :: usize
  mc_min_gas_price :: u256
  mc_tx_lifetime :: nat

definition default_config :: mempool_config where
  "default_config = \<lparr>mc_max_size = 10000, mc_max_per_account = 64,
     mc_min_gas_price = u256_from_u64 1000000000, mc_tx_lifetime = 3600 * 10 ^ 9\<rparr>"

record pooled_tx =
  pt_tx :: transaction
  pt_hash :: hash
  pt_sender :: address
  pt_added_at :: nat

definition pooled_new :: "transaction \<Rightarrow> hash \<Rightarrow> address \<Rightarrow> nat \<Rightarrow> pooled_tx" where
  "pooled_new tx h sender now = \<lparr>pt_tx = tx, pt_hash = h, pt_sender = sender, pt_added_at = now\<rparr>"

definition pt_is_expired :: "pooled_tx \<Rightarrow> nat \<Rightarrow> nat \<Rightarrow> bool" where
  "pt_is_expired p lifetime now \<longleftrightarrow> lifetime < now - pt_added_at p"

record mempool =
  mp_config :: mempool_config
  mp_by_hash :: "(hash \<times> pooled_tx) list"
  mp_by_sender :: "(address \<times> (u64, hash) btree) list"
  mp_by_price :: "(u256 \<times> hash, hash) btree"
  mp_size :: usize

definition mempool_new :: "mempool_config \<Rightarrow> mempool" where
  "mempool_new c = \<lparr>mp_config = c, mp_by_hash = [], mp_by_sender = [], mp_by_price = [], mp_size = 0\<rparr>"

section \<open>Lookup and removal\<close>

definition mp_get :: "hash \<Rightarrow> mempool \<Rightarrow> pooled_tx option" where
  "mp_get h mp = map_of (mp_by_hash mp) h"

definition mp_contains :: "hash \<Rightarrow> mempool \<Rightarrow> bool" where
  "mp_contains h mp \<longleftrightarrow> mp_get h mp \<noteq> None"

definition indexed :: "mempool \<Rightarrow> (u64, hash) btree \<Rightarrow> pooled_tx list" where
  "indexed mp nonce_map = List.map_filter (\<lambda>(_, h). mp_get h mp) nonce_map"

definition get_by_sender :: "address \<Rightarrow> mempool \<Rightarrow> pooled_tx list" where
  "get_by_sender sender mp =
     (case map_of (mp_by_sender mp) sender of None \<Rightarrow> [] | Some nonce_map \<Rightarrow> indexed mp nonce_map)"

definition get_all_by_sender :: "mempool \<Rightarrow> (address \<times> pooled_tx list) list" where
  "get_all_by_sender mp = map (\<lambda>(sender, nonce_map). (sender, indexed mp nonce_map)) (mp_by_sender mp)"

definition mp_remove :: "hash \<Rightarrow> mempool \<Rightarrow> pooled_tx option \<times> mempool" where
  "mp_remove h mp = (case mp_get h mp of
     None \<Rightarrow> (None, mp)
   | Some pooled \<Rightarrow> (Some pooled, mp\<lparr>
       mp_by_hash := AList.delete h (mp_by_hash mp),
       mp_by_sender := (case map_of (mp_by_sender mp) (pt_sender pooled) of
           None \<Rightarrow> mp_by_sender mp
         | Some nonce_map \<Rightarrow>
             AList.update (pt_sender pooled) (bt_remove (tx_nonce (pt_tx pooled)) nonce_map) (mp_by_sender mp)),
       mp_by_price := bt_remove (tx_gas_price (pt_tx pooled), h) (mp_by_price mp),
       mp_size := mp_size mp - 1\<rparr>))"

definition remove_many :: "hash list \<Rightarrow> mempool \<Rightarrow> mempool" where
  "remove_many hs mp = fold (\<lambda>h. snd \<circ> mp_remove h) hs mp"

text \<open>One round of the loop of \<open>remove_confirmed\<close>, on the nonce map it holds a reference to.\<close>

definition confirm_nonce :: "u64 \<Rightarrow> (u64, hash) btree \<times> mempool \<Rightarrow> (u64, hash) btree \<times> mempool" where
  "confirm_nonce n = (\<lambda>(nonce_map, mp). case map_of nonce_map n of
     None \<Rightarrow> (nonce_map, mp)
   | Some h \<Rightarrow> (bt_remove n nonce_map, (case mp_get h mp of
       None \<Rightarrow> mp
     | Some pooled \<Rightarrow> mp\<lparr>
         mp_by_hash := AList.delete h (mp_by_hash mp),
         mp_by_price := bt_remove (tx_gas_price (pt_tx pooled), h) (mp_by_price mp),
         mp_size := mp_size mp - 1\<rparr>)))"

definition remove_confirmed :: "address \<Rightarrow> u64 \<Rightarrow> mempool \<Rightarrow> mempool" where
  "remove_confirmed sender confirmed mp = (case map_of (mp_by_sender mp) sender of
     None \<Rightarrow> mp
   | Some nonce_map \<Rightarrow>
       (let to_remove = filter (\<lambda>n. n \<le> confirmed) (map fst nonce_map) in
        case fold confirm_nonce to_remove (nonce_map, mp) of
          (nonce_map', mp') \<Rightarrow> mp'\<lparr>mp_by_sender := AList.update sender nonce_map' (mp_by_sender mp')\<rparr>))"

definition remove_expired :: "nat \<Rightarrow> mempool \<Rightarrow> nat \<times> mempool" where
  "remove_expired now mp =
     (let expired = map (pt_hash \<circ> snd)
            (filter (\<lambda>(_, p). pt_is_expired p (mc_tx_lifetime (mp_config mp)) now) (mp_by_hash mp))
      in (length expired, remove_many expired mp))"

definition mp_clear :: "mempool \<Rightarrow> mempool" where
  "mp_clear mp = mp\<lparr>mp_by_hash := [], mp_by_sender := [], mp_by_price := [], mp_size := 0\<rparr>"

definition evict_one :: "mempool \<Rightarrow> bool \<times> mempool" where
  "evict_one mp = (case mp_by_price mp of
     ((_, h), _) # _ \<Rightarrow> (True, snd (mp_remove h mp))
   | [] \<Rightarrow> (False, mp))"

section \<open>Insertion\<close>

text \<open>The last part of \<open>add_with_nonce_check\<close>: the transaction is entered in every map.\<close>

definition mp_insert :: "transaction \<Rightarrow> hash \<Rightarrow> address \<Rightarrow> nat \<Rightarrow> mempool \<Rightarrow> mempool" where
  "mp_insert tx h sender now mp = mp\<lparr>
     mp_by_hash := AList.update h (pooled_new tx h sender now) (mp_by_hash mp),
     mp_by_sender := AList.update sender
       (bt_insert (tx_nonce tx) h (case map_of (mp_by_sender mp) sender of None \<Rightarrow> [] | Some m \<Rightarrow> m)) (mp_by_sender mp),
     mp_by_price := bt_insert (tx_gas_price tx, h) h (mp_by_price mp),
     mp_size := mp_size mp + 1\<rparr>"

definition sender_count :: "address \<Rightarrow> mempool \<Rightarrow> usize" where
  "sender_count sender mp = (case map_of (mp_by_sender mp) sender of None \<Rightarrow> 0 | Some m \<Rightarrow> of_nat (length m))"

definition check_nonce :: "nonce_lookup option \<Rightarrow> address \<Rightarrow> u64 \<Rightarrow> mempool_error + unit" where
  "check_nonce lookup sender n = (case lookup of
     None \<Rightarrow> Inr ()
   | Some l \<Rightarrow>
     (case l sender of
        Inl e \<Rightarrow> Inl (MpState e)
      | Inr on_chain \<Rightarrow> if n < on_chain then Inl (MpInvalidNonce on_chain n) else Inr ()))"

definition add_with_nonce_check :: "('d, 'z) exec_env_scheme \<Rightarrow> transaction \<Rightarrow> address \<Rightarrow> nonce_lookup option \<Rightarrow> nat \<Rightarrow>
    mempool \<Rightarrow> (mempool_error + hash) \<times> mempool" where
  "add_with_nonce_check E tx sender lookup now mp =
     (let h = tx_hash E tx; c = mp_config mp in
      if mp_contains h mp then (Inl AlreadyKnown, mp)
      else if tx_gas_price tx < mc_min_gas_price c
      then (Inl (GasPriceTooLow (mc_min_gas_price c) (tx_gas_price tx)), mp)
      else case check_nonce lookup sender (tx_nonce tx) of
        Inl e \<Rightarrow> (Inl e, mp)
      | Inr _ \<Rightarrow>
        (case (if mc_max_size c \<le> mp_size mp then evict_one mp else (True, mp)) of
           (room, mp1) \<Rightarrow>
             if \<not> room then (Inl PoolFull, mp1)
             else if mc_max_per_account c \<le> sender_count sender mp1 then (Inl AccountPoolFull, mp1)
             else (Inr h, mp_insert tx h sender now mp1)))"

definition mp_add :: "('d, 'z) exec_env_scheme \<Rightarrow> transaction \<Rightarrow> address \<Rightarrow> nat \<Rightarrow> mempool \<Rightarrow> (mempool_error + hash) \<times> mempool" where
  "mp_add E tx sender now mp = add_with_nonce_check E tx sender None now mp"

section \<open>Selection\<close>

definition next_expected :: "nonce_lookup \<Rightarrow> address \<Rightarrow> (address \<times> u64) list \<Rightarrow> u64" where
  "next_expected l sender next_nonce = (case map_of next_nonce sender of
     Some n \<Rightarrow> n
   | None \<Rightarrow> (case l sender of Inr n \<Rightarrow> n | Inl _ \<Rightarrow> 0))"

fun select_loop :: "mempool \<Rightarrow> nonce_lookup option \<Rightarrow> u64 \<Rightarrow> usize \<Rightarrow> nat \<Rightarrow> hash list \<Rightarrow>
    transaction list \<Rightarrow> u64 \<Rightarrow> (address \<times> u64) list \<Rightarrow> transaction list" where
  "select_loop mp lookup max_gas max_count now [] selected gas_used next_nonce = selected"
| "select_loop mp lookup max_gas max_count now (h # hs) selected gas_used next_nonce =
     (if max_count \<le> of_nat (length selected) then selected
      else case mp_get h mp of
        None \<Rightarrow> select_loop mp lookup max_gas max_count now hs selected gas_used next_nonce
      | Some pooled \<Rightarrow>
        let tx = pt_tx pooled in
        if max_gas < gas_used + tx_gas_limit tx \<or> pt_is_expired pooled (mc_tx_lifetime (mp_config mp)) now
        then select_loop mp lookup max_gas max_count now hs selected gas_used next_nonce
        else (case lookup of
            None \<Rightarrow> select_loop mp lookup max_gas max_count now hs (selected @ [tx]) (gas_used + tx_gas_limit tx) next_nonce
          | Some l \<Rightarrow>
            let expected = next_expected l (pt_sender pooled) next_nonce;
                entered = AList.update (pt_sender pooled) expected next_nonce in
            if tx_nonce tx \<noteq> expected
            then select_loop mp lookup max_gas max_count now hs selected gas_used entered
            else select_loop mp lookup max_gas max_count now hs (selected @ [tx]) (gas_used + tx_gas_limit tx)
                   (AList.update (pt_sender pooled) (expected + 1) entered)))"

definition select_with_nonce :: "u64 \<Rightarrow> usize \<Rightarrow> nonce_lookup option \<Rightarrow> nat \<Rightarrow> mempool \<Rightarrow> transaction list" where
  "select_with_nonce max_gas max_count lookup now mp =
     select_loop mp lookup max_gas max_count now (rev (map (snd \<circ> fst) (mp_by_price mp))) [] 0 []"

definition mp_select :: "u64 \<Rightarrow> usize \<Rightarrow> nat \<Rightarrow> mempool \<Rightarrow> transaction list" where
  "mp_select max_gas max_count now mp = select_with_nonce max_gas max_count None now mp"

section \<open>Statistics\<close>

definition oldest_tx_age :: "nat \<Rightarrow> mempool \<Rightarrow> nat option" where
  "oldest_tx_age now mp = (case mp_by_hash mp of
     [] \<Rightarrow> None
   | x # xs \<Rightarrow> Some (fold (\<lambda>(_, p). max (now - pt_added_at p)) xs (now - pt_added_at (snd x))))"

definition mp_is_empty :: "mempool \<Rightarrow> bool" where
  "mp_is_empty mp \<longleftrightarrow> mp_size mp = 0"

record mempool_stats =
  ms_size :: usize
  ms_max_size :: usize
  ms_unique_senders :: usize

definition mp_stats :: "mempool \<Rightarrow> mempool_stats" where
  "mp_stats mp = \<lparr>ms_size = mp_size mp, ms_max_size = mc_max_size (mp_config mp),
     ms_unique_senders = of_nat (length (mp_by_sender mp))\<rparr>"

section \<open>The nonce lookup of the state database\<close>

definition state_nonce_lookup :: "('d, 'z) state_env_scheme \<Rightarrow> 'd state_db \<Rightarrow> (state_error fault \<Rightarrow> string) \<Rightarrow> nonce_lookup" where
  "state_nonce_lookup E st to_string a = (case fst (get_nonce E a st) of Inl e \<Rightarrow> Inl (to_string e) | Inr n \<Rightarrow> Inr n)"

end
