(* ===== verification/Mempool_Properties.thy ===== *)
theory Mempool_Properties
  imports Mempool Executor_Validation "HOL-Library.Sublist"
begin

text \<open>
  The transaction pool keeps its four data structures in agreement and within its limits, and the
  transactions it selects for a block fit the limits of the block and continue the nonces of
  their senders.
\<close>

section \<open>The invariant\<close>

definition hashes_ok :: "mempool \<Rightarrow> bool" where
  "hashes_ok mp \<longleftrightarrow> distinct (map fst (mp_by_hash mp)) \<and> (\<forall>h p. mp_get h mp = Some p \<longrightarrow> pt_hash p = h)"

definition price_ok :: "mempool \<Rightarrow> bool" where
  "price_ok mp \<longleftrightarrow> bt_ok (mp_by_price mp) \<and>
     (\<forall>x. x \<in> set (mp_by_price mp) \<longleftrightarrow> (\<exists>h p. mp_get h mp = Some p \<and> x = ((tx_gas_price (pt_tx p), h), h)))"

definition entry_ok :: "mempool \<Rightarrow> address \<Rightarrow> (u64, hash) btree \<Rightarrow> bool" where
  "entry_ok mp s m \<longleftrightarrow> bt_ok m \<and> length m \<le> unat (mc_max_per_account (mp_config mp)) \<and>
     (\<forall>n h. map_of m n = Some h \<longrightarrow> (\<exists>p. mp_get h mp = Some p \<and> pt_sender p = s \<and> tx_nonce (pt_tx p) = n))"

definition index_ok :: "mempool \<Rightarrow> bool" where
  "index_ok mp \<longleftrightarrow> distinct (map fst (mp_by_sender mp)) \<and> (\<forall>s m. map_of (mp_by_sender mp) s = Some m \<longrightarrow> entry_ok mp s m)"

definition size_ok :: "mempool \<Rightarrow> bool" where
  "size_ok mp \<longleftrightarrow> unat (mp_size mp) = length (mp_by_hash mp) \<and> mp_size mp \<le> mc_max_size (mp_config mp)"

definition pool_ok :: "mempool \<Rightarrow> bool" where
  "pool_ok mp \<longleftrightarrow> hashes_ok mp \<and> price_ok mp \<and> index_ok mp \<and> size_ok mp"

lemma pool_okI: "hashes_ok mp \<Longrightarrow> price_ok mp \<Longrightarrow> index_ok mp \<Longrightarrow> size_ok mp \<Longrightarrow> pool_ok mp"
  by (simp add: pool_ok_def)

lemma pool_okD: "pool_ok mp \<Longrightarrow> hashes_ok mp" "pool_ok mp \<Longrightarrow> price_ok mp" "pool_ok mp \<Longrightarrow> index_ok mp" "pool_ok mp \<Longrightarrow> size_ok mp"
  by (simp_all add: pool_ok_def)

lemma pool_ok_empty: "mp_by_hash mp = [] \<Longrightarrow> mp_by_sender mp = [] \<Longrightarrow> mp_by_price mp = [] \<Longrightarrow> mp_size mp = 0 \<Longrightarrow> pool_ok mp"
  by (simp add: pool_ok_def hashes_ok_def price_ok_def index_ok_def size_ok_def mp_get_def)

section \<open>Removal\<close>

lemma get_remove: "mp_get k (snd (mp_remove h mp)) = (if k = h then None else mp_get k mp)"
  by (auto simp: mp_remove_def mp_get_def AList.delete_conv' split: option.split)

lemma config_remove [simp]: "mp_config (snd (mp_remove h mp)) = mp_config mp"
  by (simp add: mp_remove_def split: option.split)

lemma unat_dec: "0 < unat x \<Longrightarrow> unat (x - 1) = unat x - 1" for x :: u64
  by (simp add: unat_sub_le word_le_nat_alt)

lemma unat_inc: "unat x + 1 < 2 ^ 64 \<Longrightarrow> unat (x + 1) = unat x + 1" for x :: u64
  by (simp add: unat_word_ariths)

lemma remove_entry:
  assumes "index_ok mp" "mp_get h mp = Some p" "map_of (mp_by_sender (snd (mp_remove h mp))) s = Some m'"
  shows "entry_ok (snd (mp_remove h mp)) s m'"
proof -
  obtain m where m: "map_of (mp_by_sender mp) s = Some m"
    "m' = (if s = pt_sender p then bt_remove (tx_nonce (pt_tx p)) m else m)"
    using assms(2,3) by (cases "s = pt_sender p") (auto simp: mp_remove_def AList.update_conv' split: option.splits if_splits)
  have e: "entry_ok mp s m" using assms(1) m(1) by (simp add: index_ok_def)
  have "\<exists>q. mp_get k (snd (mp_remove h mp)) = Some q \<and> pt_sender q = s \<and> tx_nonce (pt_tx q) = n"
    if "map_of m' n = Some k" for n k
  proof -
    have k: "map_of m n = Some k" "s = pt_sender p \<longrightarrow> n \<noteq> tx_nonce (pt_tx p)"
      using that m(2) by (auto simp: map_of_bt_remove split: if_splits)
    obtain q where q: "mp_get k mp = Some q" "pt_sender q = s" "tx_nonce (pt_tx q) = n"
      using e k(1) by (auto simp: entry_ok_def)
    then show ?thesis using k(2) assms(2) by (auto simp: get_remove)
  qed
  moreover have "bt_ok m'" using e m(2) by (simp add: entry_ok_def)
  moreover have "length m' \<le> unat (mc_max_per_account (mp_config mp))"
    using e m(2) length_bt_remove [of "tx_nonce (pt_tx p)" m] by (auto simp: entry_ok_def)
  ultimately show ?thesis by (simp add: entry_ok_def)
qed

lemma pool_ok_remove:
  assumes ok: "pool_ok mp"
  shows "pool_ok (snd (mp_remove h mp))"
proof (cases "mp_get h mp")
  case None
  then show ?thesis using ok by (simp add: mp_remove_def)
next
  case (Some p)
  let ?mp = "snd (mp_remove h mp)"
  have d: "distinct (map fst (mp_by_hash mp))" using ok by (simp add: pool_ok_def hashes_ok_def)
  have "hashes_ok ?mp"
    using ok Some d by (auto simp: pool_ok_def hashes_ok_def get_remove) (simp add: mp_remove_def distinct_delete)
  moreover have "price_ok ?mp"
  proof -
    have p: "bt_ok (mp_by_price mp)"
      "\<And>x. x \<in> set (mp_by_price mp) \<longleftrightarrow> (\<exists>h p. mp_get h mp = Some p \<and> x = ((tx_gas_price (pt_tx p), h), h))"
      using pool_okD(2) [OF ok] unfolding price_ok_def by blast+
    have eq: "mp_by_price ?mp = bt_remove (tx_gas_price (pt_tx p), h) (mp_by_price mp)" using Some by (simp add: mp_remove_def)
    have "x \<in> set (mp_by_price ?mp) \<longleftrightarrow> (\<exists>k q. mp_get k ?mp = Some q \<and> x = ((tx_gas_price (pt_tx q), k), k))" for x
    proof
      assume "x \<in> set (mp_by_price ?mp)"
      then obtain k q where k: "mp_get k mp = Some q" "x = ((tx_gas_price (pt_tx q), k), k)"
        "(tx_gas_price (pt_tx q), k) \<noteq> (tx_gas_price (pt_tx p), h)"
        unfolding eq set_bt_remove p(2) by auto
      then have "k \<noteq> h" using Some by auto
      then show "\<exists>k q. mp_get k ?mp = Some q \<and> x = ((tx_gas_price (pt_tx q), k), k)" using k by (simp add: get_remove)
    qed (auto simp: get_remove eq set_bt_remove p(2) split: if_splits)
    then show ?thesis using p(1) eq by (simp add: price_ok_def)
  qed
  moreover have "index_ok ?mp"
  proof -
    have "distinct (map fst (mp_by_sender ?mp))"
      using ok Some by (auto simp: pool_ok_def index_ok_def mp_remove_def distinct_update split: option.split)
    then show ?thesis using remove_entry [OF pool_okD(3) [OF ok] Some] by (simp add: index_ok_def)
  qed
  moreover have "size_ok ?mp"
  proof -
    have "Suc (length (AList.delete h (mp_by_hash mp))) = length (mp_by_hash mp)"
      using length_delete [OF d] Some by (simp add: mp_get_def)
    moreover have s: "unat (mp_size mp) = length (mp_by_hash mp)" "mp_size mp \<le> mc_max_size (mp_config mp)"
      using ok by (simp_all add: pool_ok_def size_ok_def)
    ultimately have "0 < unat (mp_size mp)" "unat (mp_size mp) = Suc (length (AList.delete h (mp_by_hash mp)))" by linarith+
    then have "unat (mp_size mp - 1) = length (AList.delete h (mp_by_hash mp))"
      using unat_dec [of "mp_size mp"] by linarith
    moreover have "length (AList.delete h (mp_by_hash mp)) \<le> length (mp_by_hash mp)" by (rule AList.length_delete_le)
    ultimately have "mp_size mp - 1 \<le> mc_max_size (mp_config mp)"
      using s by (simp add: word_le_nat_alt)
    then show ?thesis
      using \<open>unat (mp_size mp - 1) = length (AList.delete h (mp_by_hash mp))\<close> Some by (simp add: size_ok_def mp_remove_def)
  qed
  ultimately show ?thesis by (rule pool_okI)
qed

lemma pool_ok_remove_many: "pool_ok mp \<Longrightarrow> pool_ok (remove_many hs mp)"
  unfolding remove_many_def by (induction hs arbitrary: mp) (simp_all add: pool_ok_remove)

lemma pool_ok_clear: "pool_ok (mp_clear mp)"
  by (rule pool_ok_empty) (simp_all add: mp_clear_def)

text \<open>The loop of \<open>remove_confirmed\<close> removes the transactions its nonce map points to.\<close>

definition joined :: "address \<Rightarrow> (u64, hash) btree \<times> mempool \<Rightarrow> mempool" where
  "joined s = (\<lambda>(m, mp). mp\<lparr>mp_by_sender := AList.update s m (mp_by_sender mp)\<rparr>)"

lemma joined_confirm:
  assumes ok: "pool_ok (joined s (m, mp))"
  shows "joined s (confirm_nonce n (m, mp)) = (case map_of m n of None \<Rightarrow> joined s (m, mp) | Some h \<Rightarrow> snd (mp_remove h (joined s (m, mp))))"
proof (cases "map_of m n")
  case None
  then show ?thesis by (simp add: confirm_nonce_def)
next
  case (Some h)
  have "entry_ok (joined s (m, mp)) s m" using ok by (simp add: pool_ok_def index_ok_def joined_def AList.update_conv')
  then obtain p where p: "mp_get h (joined s (m, mp)) = Some p" "pt_sender p = s" "tx_nonce (pt_tx p) = n"
    using Some by (auto simp: entry_ok_def)
  then have "mp_get h mp = Some p" by (simp add: joined_def mp_get_def)
  then show ?thesis using Some p by (simp add: confirm_nonce_def mp_remove_def joined_def AList.update_conv' AList.update_last)
qed

lemma pool_ok_confirm: "pool_ok (joined s x) \<Longrightarrow> pool_ok (joined s (confirm_nonce n x))"
  by (cases x) (simp add: joined_confirm pool_ok_remove split: option.split)

lemma pool_ok_remove_confirmed:
  assumes ok: "pool_ok mp"
  shows "pool_ok (remove_confirmed s n mp)"
proof (cases "map_of (mp_by_sender mp) s")
  case None
  then show ?thesis using ok by (simp add: remove_confirmed_def)
next
  case (Some m)
  have "pool_ok (joined s (m, mp))"
    using ok Some by (simp add: joined_def AList.update_triv)
  then have "pool_ok (joined s (fold confirm_nonce ns (m, mp)))" for ns
    by (induction ns arbitrary: m mp) (simp, metis fold_simps(2) pool_ok_confirm surj_pair)
  then show ?thesis using Some by (simp add: remove_confirmed_def joined_def Let_def split: prod.splits)
qed

section \<open>Insertion\<close>

lemma get_insert: "mp_get k (mp_insert tx h s now mp) = (if k = h then Some (pooled_new tx h s now) else mp_get k mp)"
  by (simp add: mp_get_def mp_insert_def AList.update_conv')

lemma insert_entry:
  assumes ok: "index_ok mp" "mp_get h mp = None" and room: "sender_count s mp < mc_max_per_account (mp_config mp)"
    and m': "map_of (mp_by_sender (mp_insert tx h s now mp)) a = Some m'"
  shows "entry_ok (mp_insert tx h s now mp) a m'"
proof (cases "a = s")
  case False
  then have "map_of (mp_by_sender mp) a = Some m'" using m' by (simp add: mp_insert_def AList.update_conv')
  then have e: "entry_ok mp a m'" using ok(1) by (simp add: index_ok_def)
  have "\<exists>p. mp_get k (mp_insert tx h s now mp) = Some p \<and> pt_sender p = a \<and> tx_nonce (pt_tx p) = n"
    if nk: "map_of m' n = Some k" for n k
  proof -
    obtain p where p: "mp_get k mp = Some p" "pt_sender p = a" "tx_nonce (pt_tx p) = n"
      using e nk unfolding entry_ok_def by blast
    then have "k \<noteq> h" using ok(2) by auto
    then show ?thesis using p by (simp add: get_insert)
  qed
  then show ?thesis using e by (simp add: entry_ok_def mp_insert_def)
next
  case True
  define m where "m = (case map_of (mp_by_sender mp) s of None \<Rightarrow> [] | Some m \<Rightarrow> m)"
  have m'eq: "m' = bt_insert (tx_nonce tx) h m" using m' True by (simp add: mp_insert_def AList.update_conv' m_def)
  have e: "entry_ok mp s m" using ok(1) by (auto simp: index_ok_def m_def entry_ok_def split: option.split)
  then have "length m \<le> unat (mc_max_per_account (mp_config mp))" by (simp add: entry_ok_def)
  moreover have "length m < 2 ^ 64" using calculation unat_u64_bound [of "mc_max_per_account (mp_config mp)"] by linarith
  moreover have "sender_count s mp = of_nat (length m)" by (simp add: sender_count_def m_def split: option.split)
  ultimately have "length m < unat (mc_max_per_account (mp_config mp))"
    using room by (simp add: word_less_nat_alt unat_of_nat)
  then have len: "length m' \<le> unat (mc_max_per_account (mp_config mp))"
    using length_bt_insert [of "tx_nonce tx" h m] m'eq by simp
  have "\<exists>p. mp_get k (mp_insert tx h s now mp) = Some p \<and> pt_sender p = a \<and> tx_nonce (pt_tx p) = n"
    if nk: "map_of m' n = Some k" for n k
  proof (cases "n = tx_nonce tx")
    case True
    then show ?thesis using nk \<open>a = s\<close> m'eq by (simp add: map_of_bt_insert get_insert pooled_new_def)
  next
    case False
    then have "map_of m n = Some k" using nk m'eq by (simp add: map_of_bt_insert)
    then obtain p where p: "mp_get k mp = Some p" "pt_sender p = s" "tx_nonce (pt_tx p) = n"
      using e unfolding entry_ok_def by blast
    then have "k \<noteq> h" using ok(2) by auto
    then show ?thesis using p \<open>a = s\<close> by (simp add: get_insert)
  qed
  then show ?thesis using e len m'eq by (simp add: entry_ok_def mp_insert_def)
qed

lemma pool_ok_insert:
  assumes ok: "pool_ok mp" and new: "mp_get h mp = None" and size: "mp_size mp < mc_max_size (mp_config mp)"
    and room: "sender_count s mp < mc_max_per_account (mp_config mp)"
  shows "pool_ok (mp_insert tx h s now mp)"
proof (rule pool_okI)
  let ?mp = "mp_insert tx h s now mp"
  show "hashes_ok ?mp"
    using ok by (auto simp: pool_ok_def hashes_ok_def get_insert pooled_new_def)
      (simp add: mp_insert_def distinct_update)
  have p: "bt_ok (mp_by_price mp)"
    "\<And>x. x \<in> set (mp_by_price mp) \<longleftrightarrow> (\<exists>h p. mp_get h mp = Some p \<and> x = ((tx_gas_price (pt_tx p), h), h))"
    using pool_okD(2) [OF ok] unfolding price_ok_def by blast+
  have eq: "mp_by_price ?mp = bt_insert (tx_gas_price tx, h) h (mp_by_price mp)" by (simp add: mp_insert_def)
  have "x \<in> set (mp_by_price ?mp) \<longleftrightarrow> (\<exists>k q. mp_get k ?mp = Some q \<and> x = ((tx_gas_price (pt_tx q), k), k))" for x
  proof
    assume "x \<in> set (mp_by_price ?mp)"
    then consider "x = ((tx_gas_price tx, h), h)" | k q where "mp_get k mp = Some q" "x = ((tx_gas_price (pt_tx q), k), k)"
      unfolding eq set_bt_insert [OF p(1)] using p(2) by blast
    then show "\<exists>k q. mp_get k ?mp = Some q \<and> x = ((tx_gas_price (pt_tx q), k), k)"
    proof cases
      case 1
      then show ?thesis by (simp add: get_insert pooled_new_def)
    next
      case 2
      then have "k \<noteq> h" using new by auto
      then show ?thesis using 2 by (simp add: get_insert)
    qed
  next
    assume "\<exists>k q. mp_get k ?mp = Some q \<and> x = ((tx_gas_price (pt_tx q), k), k)"
    then show "x \<in> set (mp_by_price ?mp)"
      unfolding eq set_bt_insert [OF p(1)] using p(2) by (auto simp: get_insert pooled_new_def split: if_splits)
  qed
  then show "price_ok ?mp" using p(1) eq by (simp add: price_ok_def)
  have "distinct (map fst (mp_by_sender ?mp))"
    using ok by (simp add: pool_ok_def index_ok_def mp_insert_def distinct_update)
  then show "index_ok ?mp" using insert_entry [OF pool_okD(3) [OF ok] new room] by (simp add: index_ok_def)
  have "length (mp_by_hash ?mp) = Suc (length (mp_by_hash mp))"
    using new by (simp add: mp_insert_def mp_get_def length_update_new)
  moreover have "unat (mp_size mp + 1) = unat (mp_size mp) + 1" "mp_size mp + 1 \<le> mc_max_size (mp_config mp)"
    using unat_inc [of "mp_size mp"] size unat_u64_bound [of "mc_max_size (mp_config mp)"]
    by (simp_all add: word_le_nat_alt word_less_nat_alt)
  ultimately show "size_ok ?mp" using ok by (simp add: pool_ok_def size_ok_def mp_insert_def)
qed

lemma evict_ok:
  assumes ok: "pool_ok mp" and full: "mc_max_size (mp_config mp) \<le> mp_size mp" and ev: "evict_one mp = (room, mp1)"
  shows "pool_ok mp1" "mp_config mp1 = mp_config mp" "room \<Longrightarrow> mp_size mp1 < mc_max_size (mp_config mp)"
    "mp_get h mp = None \<Longrightarrow> mp_get h mp1 = None" "room \<Longrightarrow> Suc (length (mp_by_hash mp1)) = length (mp_by_hash mp)"
proof -
  have "pool_ok mp1 \<and> mp_config mp1 = mp_config mp \<and> (room \<longrightarrow> mp_size mp1 < mc_max_size (mp_config mp)) \<and>
    (mp_get h mp = None \<longrightarrow> mp_get h mp1 = None) \<and> (room \<longrightarrow> Suc (length (mp_by_hash mp1)) = length (mp_by_hash mp))"
  proof (cases "mp_by_price mp")
    case Nil
    then show ?thesis using ok ev by (simp add: evict_one_def)
  next
    case (Cons x xs)
    obtain pr k k' where x: "x = ((pr, k), k')" by (metis surj_pair)
    have "x \<in> set (mp_by_price mp)" using Cons by simp
    then obtain p where p: "mp_get k mp = Some p" using pool_okD(2) [OF ok] x unfolding price_ok_def by blast
    have mp1: "room" "mp1 = snd (mp_remove k mp)" using ev Cons x by (simp_all add: evict_one_def)
    have d: "distinct (map fst (mp_by_hash mp))" using ok by (simp add: pool_ok_def hashes_ok_def)
    have len: "Suc (length (mp_by_hash mp1)) = length (mp_by_hash mp)"
      using length_delete [OF d, of k p] p mp1 by (simp add: mp_remove_def mp_get_def)
    have ok1: "pool_ok mp1" using pool_ok_remove [OF ok] mp1 by simp
    have "unat (mp_size mp1) < unat (mp_size mp)"
      using ok ok1 len by (simp add: pool_ok_def size_ok_def)
    then have "mp_size mp1 < mc_max_size (mp_config mp)"
      using ok by (simp add: pool_ok_def size_ok_def word_less_nat_alt word_le_nat_alt)
    then show ?thesis using ok1 mp1 len by (auto simp: get_remove)
  qed
  then show "pool_ok mp1" "mp_config mp1 = mp_config mp" "room \<Longrightarrow> mp_size mp1 < mc_max_size (mp_config mp)"
    "mp_get h mp = None \<Longrightarrow> mp_get h mp1 = None" "room \<Longrightarrow> Suc (length (mp_by_hash mp1)) = length (mp_by_hash mp)" by blast+
qed

lemma make_room_ok:
  assumes ok: "pool_ok mp" and ev: "(if mc_max_size (mp_config mp) \<le> mp_size mp then evict_one mp else (True, mp)) = (room, mp1)"
  shows "pool_ok mp1 \<and> mp_config mp1 = mp_config mp \<and> (room \<longrightarrow> mp_size mp1 < mc_max_size (mp_config mp)) \<and>
    (mp_get h mp = None \<longrightarrow> mp_get h mp1 = None)"
proof (cases "mc_max_size (mp_config mp) \<le> mp_size mp")
  case True
  then have "evict_one mp = (room, mp1)" using ev by simp
  from evict_ok [OF ok True this] show ?thesis by blast
next
  case False
  then have "mp1 = mp" "mp_size mp < mc_max_size (mp_config mp)" using ev by simp_all
  then show ?thesis using ok by simp
qed

lemma pool_ok_add:
  assumes ok: "pool_ok mp"
  shows "pool_ok (snd (add_with_nonce_check E tx s lookup now mp))"
proof -
  let ?h = "tx_hash E tx"
  obtain room mp1 where ev: "(if mc_max_size (mp_config mp) \<le> mp_size mp then evict_one mp else (True, mp)) = (room, mp1)"
    by fastforce
  note r = make_room_ok [OF ok ev, of ?h]
  have "pool_ok (mp_insert tx ?h s now mp1)"
    if "\<not> mp_contains ?h mp" "room" "\<not> mc_max_per_account (mp_config mp) \<le> sender_count s mp1"
    using r that by (intro pool_ok_insert) (simp_all add: mp_contains_def not_le)
  then show ?thesis
    unfolding add_with_nonce_check_def Let_def ev using ok r by (simp split: sum.split)
qed

section \<open>Reachable pools\<close>

inductive mempool_step :: "('d, 'z) exec_env_scheme \<Rightarrow> mempool \<Rightarrow> mempool \<Rightarrow> bool" for E where
  step_add: "add_with_nonce_check E tx s lookup now mp = (r, mp') \<Longrightarrow> mempool_step E mp mp'"
| step_remove: "mp_remove h mp = (r, mp') \<Longrightarrow> mempool_step E mp mp'"
| step_remove_many: "mempool_step E mp (remove_many hs mp)"
| step_confirmed: "mempool_step E mp (remove_confirmed s n mp)"
| step_expired: "remove_expired now mp = (k, mp') \<Longrightarrow> mempool_step E mp mp'"
| step_clear: "mempool_step E mp (mp_clear mp)"

interpretation pool: invariant_system "\<lambda>mp. \<exists>c. mp = mempool_new c" "mempool_step E" pool_ok
proof
  show "pool_ok mp" if "\<exists>c. mp = mempool_new c" for mp
    using that by (auto simp: mempool_new_def intro!: pool_ok_empty)
  show "pool_ok mp'" if ok: "pool_ok mp" and st: "mempool_step E mp mp'" for mp mp'
    using st
  proof cases
    case (step_add tx s lookup now r)
    then show ?thesis using pool_ok_add [OF ok, of E tx s lookup now] by simp
  next
    case (step_remove h r)
    then show ?thesis using pool_ok_remove [OF ok, of h] by simp
  next
    case (step_expired now k)
    then show ?thesis using pool_ok_remove_many [OF ok] by (auto simp: remove_expired_def Let_def)
  qed (simp_all add: ok pool_ok_remove_many pool_ok_remove_confirmed pool_ok_clear)
qed



section \<open>Selection\<close>

definition on_chain :: "nonce_lookup \<Rightarrow> address \<Rightarrow> u64" where
  "on_chain l s = (case l s of Inr n \<Rightarrow> n | Inl _ \<Rightarrow> 0)"

definition nonces_from :: "address \<Rightarrow> pooled_tx list \<Rightarrow> u64 list" where
  "nonces_from s ps = map (tx_nonce \<circ> pt_tx) (filter (\<lambda>p. pt_sender p = s) ps)"

definition sequential :: "nonce_lookup option \<Rightarrow> pooled_tx list \<Rightarrow> bool" where
  "sequential lookup ps \<longleftrightarrow> (\<forall>l s. lookup = Some l \<longrightarrow>
     nonces_from s ps = map (\<lambda>i. on_chain l s + of_nat i) [0..<length (nonces_from s ps)])"

definition gas_of :: "pooled_tx list \<Rightarrow> nat" where
  "gas_of ps = sum_list (map (unat \<circ> tx_gas_limit \<circ> pt_tx) ps)"

text \<open>What holds of the transactions selected so far.\<close>

definition selection_ok :: "mempool \<Rightarrow> nonce_lookup option \<Rightarrow> u64 \<Rightarrow> usize \<Rightarrow> nat \<Rightarrow> pooled_tx list \<Rightarrow> bool" where
  "selection_ok mp lookup max_gas max_count now ps \<longleftrightarrow>
     (\<forall>p\<in>set ps. mp_get (pt_hash p) mp = Some p \<and> \<not> pt_is_expired p (mc_tx_lifetime (mp_config mp)) now) \<and>
     gas_of ps \<le> unat max_gas \<and> length ps \<le> unat max_count \<and> sequential lookup ps"

definition loop_ok :: "mempool \<Rightarrow> nonce_lookup option \<Rightarrow> u64 \<Rightarrow> usize \<Rightarrow> nat \<Rightarrow> pooled_tx list \<Rightarrow> u64 \<Rightarrow> (address \<times> u64) list \<Rightarrow> bool" where
  "loop_ok mp lookup max_gas max_count now ps gas nn \<longleftrightarrow> selection_ok mp lookup max_gas max_count now ps \<and>
     unat gas = gas_of ps \<and>
     (\<forall>l s. lookup = Some l \<longrightarrow> next_expected l s nn = on_chain l s + of_nat (length (nonces_from s ps)))"

lemma next_expected_update:
  "next_expected l s (AList.update a e nn) = (if s = a then e else next_expected l s nn)"
  by (simp add: next_expected_def AList.update_conv')

lemma nonces_from_snoc:
  "nonces_from s (ps @ [p]) = nonces_from s ps @ (if pt_sender p = s then [tx_nonce (pt_tx p)] else [])"
  by (simp add: nonces_from_def)

lemma loop_skip:
  assumes "loop_ok mp (Some l) max_gas max_count now ps gas nn"
  shows "loop_ok mp (Some l) max_gas max_count now ps gas (AList.update a (next_expected l a nn) nn)"
  using assms by (auto simp: loop_ok_def next_expected_update)

lemma loop_push:
  assumes ok: "loop_ok mp lookup max_gas max_count now ps gas nn" and p: "mp_get (pt_hash p) mp = Some p"
    and count: "\<not> max_count \<le> of_nat (length ps)"
    and gas: "\<not> max_gas < gas + tx_gas_limit (pt_tx p)" "unat (tx_gas_limit (pt_tx p)) + unat max_gas < 2 ^ 64"
    and fresh: "\<not> pt_is_expired p (mc_tx_lifetime (mp_config mp)) now"
    and nn: "\<And>l. lookup = Some l \<Longrightarrow> tx_nonce (pt_tx p) = next_expected l (pt_sender p) nn \<and>
       (\<forall>s. next_expected l s nn' = (if s = pt_sender p then tx_nonce (pt_tx p) + 1 else next_expected l s nn))"
  shows "loop_ok mp lookup max_gas max_count now (ps @ [p]) (gas + tx_gas_limit (pt_tx p)) nn'"
proof -
  have g: "unat gas = gas_of ps" "gas_of ps \<le> unat max_gas" using ok by (simp_all add: loop_ok_def selection_ok_def)
  then have g': "unat (gas + tx_gas_limit (pt_tx p)) = gas_of (ps @ [p])"
    using gas(2) by (simp add: unat_word_ariths gas_of_def)
  have c: "length ps \<le> unat max_count" using ok by (simp add: loop_ok_def selection_ok_def)
  then have "length ps < 2 ^ 64" using unat_u64_bound [of max_count] by linarith
  then have "length ps < unat max_count" using count by (simp add: word_le_nat_alt unat_of_nat)
  moreover have "gas_of (ps @ [p]) \<le> unat max_gas" using gas(1) g' by (simp add: word_less_nat_alt)
  moreover have "sequential lookup (ps @ [p])"
    using ok nn by (auto simp: loop_ok_def selection_ok_def sequential_def nonces_from_snoc)
  moreover have "next_expected l s nn' = on_chain l s + of_nat (length (nonces_from s (ps @ [p])))"
    if "lookup = Some l" for l s
    using ok nn [OF that] that by (auto simp: loop_ok_def nonces_from_snoc)
  ultimately show ?thesis using ok p fresh g' by (auto simp: loop_ok_def selection_ok_def)
qed

text \<open>No gas limit in the pool overflows the counter of the loop.\<close>

definition gas_fits :: "mempool \<Rightarrow> u64 \<Rightarrow> bool" where
  "gas_fits mp max_gas \<longleftrightarrow> (\<forall>h p. mp_get h mp = Some p \<longrightarrow> unat (tx_gas_limit (pt_tx p)) + unat max_gas < 2 ^ 64)"

text \<open>One round of the loop ends it, skips a transaction or selects it.\<close>

lemma select_round:
  assumes hash: "hashes_ok mp" and small: "gas_fits mp max_gas"
    and ok: "loop_ok mp lookup max_gas max_count now ps gas nn"
  obtains (stop) "select_loop mp lookup max_gas max_count now (h # hs) (map pt_tx ps) gas nn = map pt_tx ps"
  | (skip) nn' where "select_loop mp lookup max_gas max_count now (h # hs) (map pt_tx ps) gas nn =
      select_loop mp lookup max_gas max_count now hs (map pt_tx ps) gas nn'"
      "loop_ok mp lookup max_gas max_count now ps gas nn'"
  | (push) p gas' nn' where "select_loop mp lookup max_gas max_count now (h # hs) (map pt_tx ps) gas nn =
      select_loop mp lookup max_gas max_count now hs (map pt_tx (ps @ [p])) gas' nn'"
      "loop_ok mp lookup max_gas max_count now (ps @ [p]) gas' nn'" "pt_hash p = h"
proof -
  consider "max_count \<le> of_nat (length ps)" | "\<not> max_count \<le> of_nat (length ps)" "mp_get h mp = None"
    | p where "\<not> max_count \<le> of_nat (length ps)" "mp_get h mp = Some p"
        "max_gas < gas + tx_gas_limit (pt_tx p) \<or> pt_is_expired p (mc_tx_lifetime (mp_config mp)) now"
    | p where "\<not> max_count \<le> of_nat (length ps)" "mp_get h mp = Some p" "\<not> max_gas < gas + tx_gas_limit (pt_tx p)"
        "\<not> pt_is_expired p (mc_tx_lifetime (mp_config mp)) now"
    by (cases "mp_get h mp") auto
  then show thesis
  proof cases
    case (4 p)
    have p: "pt_hash p = h" "mp_get (pt_hash p) mp = Some p" using hash 4(2) by (auto simp: hashes_ok_def)
    have "unat (tx_gas_limit (pt_tx p)) + unat max_gas < 2 ^ 64" using small 4(2) by (auto simp: gas_fits_def)
    note pushed = loop_push [OF ok p(2) 4(1,3) this 4(4)]
    show thesis
    proof (cases lookup)
      case None
      show thesis by (rule push [OF _ pushed p(1), of nn]) (use 4 None in \<open>simp_all add: Let_def\<close>)
    next
      case (Some l)
      let ?e = "next_expected l (pt_sender p) nn"
      show thesis
      proof (cases "tx_nonce (pt_tx p) = ?e")
        case True
        show thesis
          by (rule push [OF _ pushed p(1), of "AList.update (pt_sender p) (?e + 1) (AList.update (pt_sender p) ?e nn)"])
             (use 4 Some True in \<open>simp_all add: next_expected_update Let_def\<close>)
      next
        case False
        show thesis
          by (rule skip [OF _ loop_skip [OF ok [unfolded Some], folded Some, of "pt_sender p"]]) (use 4 Some False in \<open>simp add: Let_def\<close>)
      qed
    qed
  qed (auto intro: stop skip [OF _ ok] simp: Let_def)
qed

lemma select_loop_ok:
  assumes hash: "hashes_ok mp" and small: "gas_fits mp max_gas"
  shows "loop_ok mp lookup max_gas max_count now ps gas nn \<Longrightarrow>
    \<exists>ps'. select_loop mp lookup max_gas max_count now hs (map pt_tx ps) gas nn = map pt_tx (ps @ ps') \<and>
      selection_ok mp lookup max_gas max_count now (ps @ ps') \<and> subseq (map pt_hash ps') hs"
proof (induction hs arbitrary: ps gas nn)
  case Nil
  then show ?case by (intro exI [of _ "[]"]) (simp add: loop_ok_def)
next
  case (Cons h hs)
  show ?case
  proof (rule select_round [OF hash small Cons.prems, of h hs], goal_cases)
    case stop: 1
    then show ?case using Cons.prems by (intro exI [of _ "[]"]) (simp add: loop_ok_def del: select_loop.simps)
  next
    case skip: (2 nn')
    show ?case using Cons.IH [OF skip(2)] unfolding skip(1) by (blast intro: list_emb_Cons)
  next
    case push: (3 p gas' nn')
    obtain ps' where "select_loop mp lookup max_gas max_count now hs (map pt_tx (ps @ [p])) gas' nn' = map pt_tx ((ps @ [p]) @ ps')"
      "selection_ok mp lookup max_gas max_count now ((ps @ [p]) @ ps')" "subseq (map pt_hash ps') hs"
      using Cons.IH [OF push(2)] by blast
    then show ?case unfolding push(1) using push(3) by (intro exI [of _ "p # ps'"]) simp
  qed
qed


definition one_tx_pool :: mempool where
  "one_tx_pool = mp_insert (sample_tx Transfer 0 6 10) [1] 5 0 (mempool_new default_config)"

lemma one_tx_pool_ok: "pool_ok one_tx_pool"
  unfolding one_tx_pool_def
  by (rule pool_ok_insert) (simp_all add: mempool_new_def default_config_def sender_count_def mp_get_def pool_ok_empty)


section \<open>Limits of the pool\<close>

text \<open>C35: a full pool makes room before it checks the limit of the sender, so that a transaction it rejects
  because its sender has too many still costs the pool one of its transactions.\<close>

theorem rejected_add_evicts:
  assumes ok: "pool_ok mp" and full: "mc_max_size (mp_config mp) \<le> mp_size mp"
    and add: "add_with_nonce_check E tx s lookup now mp = (Inl AccountPoolFull, mp')"
  shows "Suc (length (mp_by_hash mp')) = length (mp_by_hash mp)"
proof -
  obtain room mp1 where ev: "evict_one mp = (room, mp1)" by fastforce
  have "check_nonce lookup s n \<noteq> Inl AccountPoolFull" for n by (auto simp: check_nonce_def split: option.split sum.split)
  then have "room" "mp' = mp1"
    using add full ev by (auto simp: add_with_nonce_check_def Let_def split: if_splits sum.splits)
  then show ?thesis using evict_ok(5) [OF ok full ev] by simp
qed

definition tiny_config :: mempool_config where
  "tiny_config = \<lparr>mc_max_size = 2, mc_max_per_account = 1, mc_min_gas_price = 0, mc_tx_lifetime = 1\<rparr>"

definition full_pool :: mempool where
  "full_pool = mp_insert (sample_tx Transfer 0 6 10) [1] 5 0
     (mp_insert ((sample_tx Transfer 0 6 10)\<lparr>tx_gas_price := 1\<rparr>) [2] 6 0 (mempool_new tiny_config))"

lemma full_pool_ok: "pool_ok full_pool"
proof -
  let ?mp = "mp_insert ((sample_tx Transfer 0 6 10)\<lparr>tx_gas_price := 1\<rparr>) [2] 6 0 (mempool_new tiny_config)"
  have "pool_ok ?mp"
    by (rule pool_ok_insert) (simp_all add: mempool_new_def tiny_config_def sender_count_def mp_get_def pool_ok_empty)
  then show ?thesis unfolding full_pool_def
    by (rule pool_ok_insert)
       (simp_all add: get_insert, simp_all add: mp_get_def mempool_new_def mp_insert_def tiny_config_def sender_count_def)
qed

theorem rejected_add_evicts_witness:
  "fst (mp_add sample_env (sample_tx Transfer 1 6 10) 5 0 full_pool) = Inl AccountPoolFull \<and>
   Suc (length (mp_by_hash (snd (mp_add sample_env (sample_tx Transfer 1 6 10) 5 0 full_pool)))) = length (mp_by_hash full_pool)"
proof -
  have "mp_contains (tx_hash sample_env (sample_tx Transfer 1 6 10)) full_pool = False"
    by (simp add: mp_contains_def full_pool_def get_insert tx_hash_def sample_trie_env_def rocks.defs)
       (simp add: mp_get_def mempool_new_def)
  then have a: "fst (mp_add sample_env (sample_tx Transfer 1 6 10) 5 0 full_pool) = Inl AccountPoolFull"
    by (simp add: mp_add_def add_with_nonce_check_def Let_def)
       (simp add: full_pool_def mp_insert_def mempool_new_def tiny_config_def sample_tx_def check_nonce_def evict_one_def
          mp_remove_def mp_get_def sender_count_def pooled_new_def bt_remove_def word_le_nat_alt word_less_nat_alt)
  have "Suc (length (mp_by_hash (snd (mp_add sample_env (sample_tx Transfer 1 6 10) 5 0 full_pool)))) = length (mp_by_hash full_pool)"
    by (rule rejected_add_evicts [OF full_pool_ok, where E = sample_env and tx = "sample_tx Transfer 1 6 10" and s = 5 and lookup = None and now = 0])
       (simp add: full_pool_def mp_insert_def mempool_new_def tiny_config_def, simp add: prod_eq_iff a [unfolded mp_add_def] mp_add_def)
  then show ?thesis using a by simp
qed

end
