(* ===== verification/Blocks.thy ===== *)
theory Blocks
  imports Executor State_Refine
begin

text \<open>
  The types the consensus engine and the chain exchange: blocks (\<open>block.rs\<close>), validators, votes, epochs,
  checkpoints and evidence (\<open>validator.rs\<close>) and inference proofs (\<open>pow.rs\<close>), all in \<open>qfc-types\<close>.
  Their borsh encodings are fields of the record \<open>chain_env\<close>, which extends the environment of the
  executor; \<open>chain_env_ok\<close> says that what was encoded is decoded again.
\<close>

section \<open>Inference proofs\<close>

datatype backend_type = Cuda | Metal | Rocm | Cpu | OpenCl

record model_id =
  md_name :: string
  md_version :: string

datatype compute_task_type =
    TextGeneration model_id hash u32 u32 u64
  | ImageClassification model_id hash
  | Embedding model_id hash
  | SpeechToText model_id hash string
  | ImageGeneration model_id hash hash u32 u32 u32 u64
  | OnnxInference hash hash

datatype canonical_format = SafetensorsFp32 | GgufQ4KM | GgufQ5KM

record unsigned_inference_proof =
  uip_validator :: address
  uip_epoch :: u64
  uip_task_type :: compute_task_type
  uip_input_hash :: hash
  uip_output_hash :: hash
  uip_execution_time_ms :: u64
  uip_flops_estimated :: u64
  uip_backend :: backend_type
  uip_canonical_format :: canonical_format
  uip_timestamp :: u64

record inference_proof =
  ip_validator :: address
  ip_epoch :: u64
  ip_task_type :: compute_task_type
  ip_input_hash :: hash
  ip_output_hash :: hash
  ip_execution_time_ms :: u64
  ip_flops_estimated :: u64
  ip_backend :: backend_type
  ip_canonical_format :: canonical_format
  ip_timestamp :: u64
  ip_signature :: bytes

definition inference_proof_new ::
  "address \<Rightarrow> u64 \<Rightarrow> compute_task_type \<Rightarrow> hash \<Rightarrow> hash \<Rightarrow> u64 \<Rightarrow> u64 \<Rightarrow> backend_type \<Rightarrow> canonical_format \<Rightarrow> u64 \<Rightarrow> inference_proof" where
  "inference_proof_new v ep ty inp out ms flops be fmt ts =
     \<lparr>ip_validator = v, ip_epoch = ep, ip_task_type = ty, ip_input_hash = inp, ip_output_hash = out,
      ip_execution_time_ms = ms, ip_flops_estimated = flops, ip_backend = be,
      ip_canonical_format = fmt, ip_timestamp = ts, ip_signature = SIGNATURE_ZERO\<rparr>"

definition unsigned_proof :: "inference_proof \<Rightarrow> unsigned_inference_proof" where
  "unsigned_proof p =
     \<lparr>uip_validator = ip_validator p, uip_epoch = ip_epoch p, uip_task_type = ip_task_type p,
      uip_input_hash = ip_input_hash p, uip_output_hash = ip_output_hash p,
      uip_execution_time_ms = ip_execution_time_ms p, uip_flops_estimated = ip_flops_estimated p,
      uip_backend = ip_backend p, uip_canonical_format = ip_canonical_format p,
      uip_timestamp = ip_timestamp p\<rparr>"

section \<open>Votes\<close>

datatype vote_decision = Accept | Reject | Abstain

datatype reject_reason = RejInvalidProducer | RejInvalidVRF | RejInvalidStateTransition
  | RejInvalidSignature | RejInvalidTimestamp | RejBlockTooLarge | RejOther string

record unsigned_vote =
  uv_block_hash :: hash
  uv_block_height :: u64
  uv_voter :: address
  uv_decision :: vote_decision
  uv_reject_reason :: "reject_reason option"
  uv_timestamp :: u64

record vote =
  vo_block_hash :: hash
  vo_block_height :: u64
  vo_voter :: address
  vo_decision :: vote_decision
  vo_reject_reason :: "reject_reason option"
  vo_timestamp :: u64
  vo_signature :: bytes

definition vote_accept :: "hash \<Rightarrow> u64 \<Rightarrow> address \<Rightarrow> u64 \<Rightarrow> vote" where
  "vote_accept h n v ts = \<lparr>vo_block_hash = h, vo_block_height = n, vo_voter = v, vo_decision = Accept,
     vo_reject_reason = None, vo_timestamp = ts, vo_signature = SIGNATURE_ZERO\<rparr>"

definition vote_reject :: "hash \<Rightarrow> u64 \<Rightarrow> address \<Rightarrow> reject_reason \<Rightarrow> u64 \<Rightarrow> vote" where
  "vote_reject h n v reason ts = \<lparr>vo_block_hash = h, vo_block_height = n, vo_voter = v, vo_decision = Reject,
     vo_reject_reason = Some reason, vo_timestamp = ts, vo_signature = SIGNATURE_ZERO\<rparr>"

definition is_accept :: "vote \<Rightarrow> bool" where
  "is_accept v \<longleftrightarrow> vo_decision v = Accept"

definition is_reject :: "vote \<Rightarrow> bool" where
  "is_reject v \<longleftrightarrow> vo_decision v = Reject"

definition unsigned_vote_of :: "vote \<Rightarrow> unsigned_vote" where
  "unsigned_vote_of v = \<lparr>uv_block_hash = vo_block_hash v, uv_block_height = vo_block_height v,
     uv_voter = vo_voter v, uv_decision = vo_decision v, uv_reject_reason = vo_reject_reason v,
     uv_timestamp = vo_timestamp v\<rparr>"

section \<open>Blocks\<close>

definition vrf_proof_default :: vrf_proof where
  "vrf_proof_default = \<lparr>vrf_output = replicate 32 0, vrf_sig = replicate 64 0\<rparr>"

record block_header =
  bh_version :: u32
  bh_number :: u64
  bh_parent_hash :: hash
  bh_state_root :: hash
  bh_transactions_root :: hash
  bh_receipts_root :: hash
  bh_proofs_root :: hash
  bh_producer :: address
  bh_contribution_score :: u64
  bh_vrf_proof :: vrf_proof
  bh_timestamp :: u64
  bh_gas_limit :: u64
  bh_gas_used :: u64
  bh_extra_data :: bytes

definition block_header_default :: block_header where
  "block_header_default = \<lparr>bh_version = 1, bh_number = 0, bh_parent_hash = hash_ZERO,
     bh_state_root = hash_ZERO, bh_transactions_root = hash_ZERO, bh_receipts_root = hash_ZERO,
     bh_proofs_root = hash_ZERO, bh_producer = 0, bh_contribution_score = 0,
     bh_vrf_proof = vrf_proof_default, bh_timestamp = 0, bh_gas_limit = DEFAULT_BLOCK_GAS_LIMIT,
     bh_gas_used = 0, bh_extra_data = []\<rparr>"

record block =
  bl_header :: block_header
  bl_transactions :: "transaction list"
  bl_votes :: "vote list"
  bl_inference_proofs :: "inference_proof list"
  bl_signature :: bytes

definition block_new :: "block_header \<Rightarrow> transaction list \<Rightarrow> block" where
  "block_new h txs = \<lparr>bl_header = h, bl_transactions = txs, bl_votes = [], bl_inference_proofs = [],
     bl_signature = SIGNATURE_ZERO\<rparr>"

definition block_default :: block where
  "block_default = \<lparr>bl_header = block_header_default, bl_transactions = [], bl_votes = [],
     bl_inference_proofs = [], bl_signature = SIGNATURE_ZERO\<rparr>"

definition block_number :: "block \<Rightarrow> u64" where
  "block_number b = bh_number (bl_header b)"

definition block_parent_hash :: "block \<Rightarrow> hash" where
  "block_parent_hash b = bh_parent_hash (bl_header b)"

definition block_state_root :: "block \<Rightarrow> hash" where
  "block_state_root b = bh_state_root (bl_header b)"

definition block_producer :: "block \<Rightarrow> address" where
  "block_producer b = bh_producer (bl_header b)"

definition block_timestamp :: "block \<Rightarrow> u64" where
  "block_timestamp b = bh_timestamp (bl_header b)"

definition block_gas_used :: "block \<Rightarrow> u64" where
  "block_gas_used b = bh_gas_used (bl_header b)"

definition block_vrf_proof :: "block \<Rightarrow> vrf_proof" where
  "block_vrf_proof b = bh_vrf_proof (bl_header b)"

definition is_genesis :: "block \<Rightarrow> bool" where
  "is_genesis b \<longleftrightarrow> bh_number (bl_header b) = 0"

definition block_add_vote :: "vote \<Rightarrow> block \<Rightarrow> block" where
  "block_add_vote v b = b\<lparr>bl_votes := bl_votes b @ [v]\<rparr>"

record block_body =
  bb_transactions :: "transaction list"
  bb_votes :: "vote list"
  bb_inference_proofs :: "inference_proof list"
  bb_signature :: bytes

definition body_from_block :: "block \<Rightarrow> block_body" where
  "body_from_block b = \<lparr>bb_transactions = bl_transactions b, bb_votes = bl_votes b,
     bb_inference_proofs = bl_inference_proofs b, bb_signature = bl_signature b\<rparr>"

record sealed_block =
  sb_hash :: hash
  sb_block :: block

lemmas block_fields = block_number_def block_parent_hash_def block_state_root_def block_producer_def
  block_timestamp_def block_gas_used_def block_vrf_proof_def

section \<open>Validators\<close>

record validator_node =
  vn_address :: address
  vn_public_key :: bytes
  vn_stake :: u256
  vn_delegated_stake :: u256
  vn_commission_rate :: u32
  vn_delegator_count :: u32
  vn_contribution_score :: u64
  vn_uptime :: u32
  vn_accuracy :: u32
  vn_avg_latency_ms :: u32
  vn_bandwidth_mbps :: u32
  vn_storage_provided_gb :: u32
  vn_provides_compute :: bool
  vn_hashrate :: u64
  vn_compute_backend :: "backend_type option"
  vn_supported_models :: "model_id list"
  vn_gpu_memory_mb :: u64
  vn_gpu_model :: string
  vn_benchmark_score :: u32
  vn_gpu_tier :: u8
  vn_inference_score :: u64
  vn_tasks_completed :: u64
  vn_verification_pass_rate :: u32
  vn_reputation :: u32
  vn_registered_at :: u64
  vn_last_active :: u64
  vn_is_jailed :: bool
  vn_jail_until :: u64
  vn_blocks_produced :: u64
  vn_valid_votes :: u64
  vn_invalid_votes :: u64
  vn_pending_rewards :: u256

definition validator_default :: validator_node where
  "validator_default = \<lparr>vn_address = 0, vn_public_key = PUBLIC_KEY_ZERO, vn_stake = 0,
     vn_delegated_stake = 0, vn_commission_rate = 1000, vn_delegator_count = 0,
     vn_contribution_score = 0, vn_uptime = 10000, vn_accuracy = 10000, vn_avg_latency_ms = 100,
     vn_bandwidth_mbps = 100, vn_storage_provided_gb = 0, vn_provides_compute = False,
     vn_hashrate = 0, vn_compute_backend = None, vn_supported_models = [], vn_gpu_memory_mb = 0,
     vn_gpu_model = [], vn_benchmark_score = 0, vn_gpu_tier = 0, vn_inference_score = 0,
     vn_tasks_completed = 0, vn_verification_pass_rate = 10000, vn_reputation = 5000,
     vn_registered_at = 0, vn_last_active = 0, vn_is_jailed = False, vn_jail_until = 0,
     vn_blocks_produced = 0, vn_valid_votes = 0, vn_invalid_votes = 0, vn_pending_rewards = 0\<rparr>"

definition validator_new :: "address \<Rightarrow> bytes \<Rightarrow> u256 \<Rightarrow> u64 \<Rightarrow> validator_node" where
  "validator_new a pk st now = validator_default\<lparr>vn_address := a, vn_public_key := pk, vn_stake := st,
     vn_registered_at := now\<rparr>"

definition vn_total_stake :: "validator_node \<Rightarrow> u256" where
  "vn_total_stake v = u256_saturating_add (vn_stake v) (vn_delegated_stake v)"

definition vn_is_active :: "validator_node \<Rightarrow> bool" where
  "vn_is_active v \<longleftrightarrow> \<not> vn_is_jailed v \<and> \<not> u256_is_zero (vn_total_stake v)"

definition is_permanently_jailed :: "validator_node \<Rightarrow> bool" where
  "is_permanently_jailed v \<longleftrightarrow> vn_is_jailed v \<and> vn_jail_until v = - 1"

definition can_unjail :: "validator_node \<Rightarrow> u64 \<Rightarrow> bool" where
  "can_unjail v current_time \<longleftrightarrow>
     vn_is_jailed v \<and> \<not> is_permanently_jailed v \<and> vn_jail_until v \<le> current_time"

section \<open>Epochs, checkpoints and evidence\<close>

definition EPOCH_DURATION_MS :: u64 where "EPOCH_DURATION_MS = 10000"
definition EPOCH_DURATION_SECS :: u64 where "EPOCH_DURATION_SECS = EPOCH_DURATION_MS div 1000"

record epoch =
  ep_number :: u64
  ep_seed :: bytes
  ep_start_time :: u64
  ep_duration_ms :: u64
  ep_validators :: "address list"

definition epoch_new :: "u64 \<Rightarrow> bytes \<Rightarrow> u64 \<Rightarrow> epoch" where
  "epoch_new n seed start = \<lparr>ep_number = n, ep_seed = seed, ep_start_time = start,
     ep_duration_ms = EPOCH_DURATION_SECS * 1000, ep_validators = []\<rparr>"

definition epoch_default :: epoch where
  "epoch_default = \<lparr>ep_number = 0, ep_seed = replicate 32 0, ep_start_time = 0,
     ep_duration_ms = EPOCH_DURATION_SECS * 1000, ep_validators = []\<rparr>"

definition epoch_contains :: "epoch \<Rightarrow> u64 \<Rightarrow> bool" where
  "epoch_contains e ts \<longleftrightarrow> ep_start_time e \<le> ts \<and> ts < ep_start_time e + ep_duration_ms e"

record validator_checkpoint =
  cp_epoch :: u64
  cp_block_height :: u64
  cp_timestamp :: u64
  cp_validators :: "validator_node list"
  cp_epoch_seed :: bytes
  cp_finalized_height :: u64

record double_sign_evidence =
  ds_validator :: address
  ds_block_hash_1 :: hash
  ds_block_hash_2 :: hash
  ds_height :: u64
  ds_signature_1 :: bytes
  ds_signature_2 :: bytes
  ds_timestamp :: u64

definition encode_miner_earning_key :: "address \<Rightarrow> u64 \<Rightarrow> bytes" where
  "encode_miner_earning_key miner height = address_as_bytes miner @ be_bytes 8 (unat height)"

definition decode_miner_earning_key :: "bytes \<Rightarrow> (address \<times> u64) option" where
  "decode_miner_earning_key bs =
     (if length bs \<noteq> 28 then None
      else case address_from_slice (take 20 bs) of
        None \<Rightarrow> None
      | Some a \<Rightarrow> Some (a, of_nat (be_nat (drop 20 bs))))"

section \<open>The environment\<close>

record 'd chain_env = "'d exec_env" +
  rk_iter_rev :: "'d \<Rightarrow> cf \<Rightarrow> (string + bytes \<times> bytes) list"
  header_to_bytes :: "block_header \<Rightarrow> bytes"
  header_from_bytes :: "bytes \<Rightarrow> string + block_header"
  body_to_bytes :: "block_body \<Rightarrow> bytes"
  body_from_bytes :: "bytes \<Rightarrow> string + block_body"
  block_to_bytes :: "block \<Rightarrow> bytes"
  block_from_bytes :: "bytes \<Rightarrow> string + block"
  transaction_to_bytes :: "transaction \<Rightarrow> bytes"
  transaction_from_bytes :: "bytes \<Rightarrow> string + transaction"
  receipt_to_bytes :: "exec_receipt \<Rightarrow> bytes"
  receipt_from_bytes :: "bytes \<Rightarrow> string + exec_receipt"
  unsigned_vote_bytes :: "unsigned_vote \<Rightarrow> bytes"
  unsigned_proof_bytes :: "unsigned_inference_proof \<Rightarrow> bytes"
  validator_to_bytes :: "validator_node \<Rightarrow> bytes"
  checkpoint_to_bytes :: "validator_checkpoint \<Rightarrow> bytes"
  checkpoint_from_bytes :: "bytes \<Rightarrow> string + validator_checkpoint"
  evidence_to_bytes :: "double_sign_evidence \<Rightarrow> bytes"

definition chain_env_ok :: "('d, 'z) chain_env_scheme \<Rightarrow> bool" where
  "chain_env_ok E \<longleftrightarrow> state_env_ok E \<and>
     (\<forall>d c. rk_iter_rev E d c = rev (rk_iter_from E d c [])) \<and>
     (\<forall>h. header_from_bytes E (header_to_bytes E h) = Inr h) \<and>
     (\<forall>b. body_from_bytes E (body_to_bytes E b) = Inr b) \<and>
     (\<forall>b. block_from_bytes E (block_to_bytes E b) = Inr b) \<and>
     (\<forall>t. transaction_from_bytes E (transaction_to_bytes E t) = Inr t) \<and>
     (\<forall>r. receipt_from_bytes E (receipt_to_bytes E r) = Inr r) \<and>
     (\<forall>c. checkpoint_from_bytes E (checkpoint_to_bytes E c) = Inr c)"

definition block_hash :: "('d, 'z) chain_env_scheme \<Rightarrow> block \<Rightarrow> hash" where
  "block_hash E b = blake3_hash E (header_to_bytes E (bl_header b))"

definition proof_hash :: "('d, 'z) chain_env_scheme \<Rightarrow> inference_proof \<Rightarrow> hash" where
  "proof_hash E p = blake3_hash E (unsigned_proof_bytes E (unsigned_proof p))"

lemma decode_encode_miner_earning_key:
  "decode_miner_earning_key (encode_miner_earning_key a h) = Some (a, h)"
  using unat_u64_bound [of h]
  by (simp add: decode_miner_earning_key_def encode_miner_earning_key_def be_nat_be_bytes)

end
