(* ===== verification/Pow.thy ===== *)
theory Pow
  imports Blocks
begin

text \<open>
  The work proofs of the optional compute contribution: the types of \<open>pow.rs\<close> in \<open>qfc-types\<close> and
  the crate \<open>qfc-pow\<close> (\<open>lib.rs\<close>, \<open>difficulty.rs\<close> and the single-threaded part of \<open>mining.rs\<close>).
  A difficulty is a target: a hash must be below it, so a smaller number is harder. The
  operators on \<open>U256\<close> panic on overflow, which is \<open>None\<close>.
\<close>

unbundle bit_operations_syntax

section \<open>Work proofs and tasks\<close>

record work_proof =
  wp_validator :: address
  wp_epoch :: u64
  wp_nonce :: u64
  wp_hash :: hash
  wp_work_count :: u64
  wp_timestamp :: u64
  wp_signature :: bytes

definition work_proof_new :: "address \<Rightarrow> u64 \<Rightarrow> u64 \<Rightarrow> hash \<Rightarrow> u64 \<Rightarrow> u64 \<Rightarrow> work_proof" where
  "work_proof_new v ep n h wc ts = \<lparr>wp_validator = v, wp_epoch = ep, wp_nonce = n, wp_hash = h,
     wp_work_count = wc, wp_timestamp = ts, wp_signature = SIGNATURE_ZERO\<rparr>"

definition u64_le_bytes :: "u64 \<Rightarrow> bytes" where
  "u64_le_bytes n = rev (be_bytes 8 (unat n))"

definition work_proof_unsigned_bytes :: "work_proof \<Rightarrow> bytes" where
  "work_proof_unsigned_bytes p = address_as_bytes (wp_validator p) @ u64_le_bytes (wp_epoch p) @
     u64_le_bytes (wp_nonce p) @ wp_hash p @ u64_le_bytes (wp_work_count p) @ u64_le_bytes (wp_timestamp p)"

record mining_task =
  mt_epoch :: u64
  mt_seed :: bytes
  mt_difficulty :: u256
  mt_epoch_start :: u64
  mt_epoch_end :: u64

definition task_is_active :: "mining_task \<Rightarrow> u64 \<Rightarrow> bool" where
  "task_is_active t now \<longleftrightarrow> mt_epoch_start t \<le> now \<and> now < mt_epoch_end t"

record difficulty_config =
  dc_target_proofs_per_epoch :: u64
  dc_min_difficulty :: u256
  dc_max_difficulty :: u256
  dc_max_adjustment_percent :: u64

definition difficulty_config_default :: difficulty_config where
  "difficulty_config_default =
     \<lparr>dc_target_proofs_per_epoch = 10000,
      dc_min_difficulty = u256_from_be_bytes (replicate 2 0 @ replicate 30 255),
      dc_max_difficulty = u256_from_be_bytes (replicate 8 0 @ replicate 24 255),
      dc_max_adjustment_percent = 10\<rparr>"

record mining_stats =
  ms_total_proofs :: u64
  ms_total_work_count :: u64
  ms_last_proof_epoch :: u64
  ms_hashrate :: u64

definition record_proof :: "work_proof \<Rightarrow> mining_stats \<Rightarrow> mining_stats" where
  "record_proof p m = m\<lparr>ms_total_proofs := ms_total_proofs m + 1,
     ms_total_work_count := ms_total_work_count m + wp_work_count p, ms_last_proof_epoch := wp_epoch p\<rparr>"

datatype compute_proof = PowV1 work_proof | InferenceV2 inference_proof

section \<open>Verification\<close>

datatype pow_error = EpochMismatch u64 u64 | InvalidHash | DifficultyNotMet | PowInvalidSignature
  | TaskExpired | MinerNotRunning | ChannelError string

definition mine_once :: "(bytes \<Rightarrow> hash) \<Rightarrow> bytes \<Rightarrow> address \<Rightarrow> u64 \<Rightarrow> hash" where
  "mine_once H seed validator n = H (seed @ address_as_bytes validator @ u64_le_bytes n)"

definition meets_difficulty :: "hash \<Rightarrow> u256 \<Rightarrow> bool" where
  "meets_difficulty h difficulty \<longleftrightarrow> u256_from_be_bytes h < difficulty"

definition verify_proof :: "(bytes \<Rightarrow> hash) \<Rightarrow> work_proof \<Rightarrow> mining_task \<Rightarrow> pow_error + bool" where
  "verify_proof H p t =
     (if wp_epoch p \<noteq> mt_epoch t then Inl (EpochMismatch (mt_epoch t) (wp_epoch p))
      else if mine_once H (mt_seed t) (wp_validator p) (wp_nonce p) \<noteq> wp_hash p then Inl InvalidHash
      else if \<not> meets_difficulty (wp_hash p) (mt_difficulty t) then Inl DifficultyNotMet
      else Inr True)"

definition verify_inference_proof :: "inference_proof \<Rightarrow> u64 \<Rightarrow> pow_error + bool" where
  "verify_inference_proof p expected_epoch =
     (if ip_epoch p \<noteq> expected_epoch then Inl (EpochMismatch expected_epoch (ip_epoch p))
      else if ip_output_hash p = hash_ZERO then Inl InvalidHash
      else if ip_execution_time_ms p = 0 then Inl InvalidHash
      else Inr True)"

definition verify_compute_proof ::
  "(bytes \<Rightarrow> hash) \<Rightarrow> compute_proof \<Rightarrow> mining_task option \<Rightarrow> u64 \<Rightarrow> pow_error + bool" where
  "verify_compute_proof H p task expected_epoch =
     (case p of
        PowV1 w \<Rightarrow> (case task of None \<Rightarrow> Inl InvalidHash | Some t \<Rightarrow> verify_proof H w t)
      | InferenceV2 i \<Rightarrow> verify_inference_proof i expected_epoch)"

section \<open>Hashrate\<close>

definition u8_leading_zeros :: "u8 \<Rightarrow> nat" where
  "u8_leading_zeros b = length (takeWhile (\<lambda>i. \<not> bit b i) [7, 6, 5, 4, 3, 2, 1, 0])"

fun leading_zeros_of :: "bytes \<Rightarrow> nat" where
  "leading_zeros_of [] = 0"
| "leading_zeros_of (b # bs) = (if b = 0 then 8 + leading_zeros_of bs else u8_leading_zeros b)"

definition count_leading_zeros :: "u256 \<Rightarrow> nat" where
  "count_leading_zeros v = leading_zeros_of (u256_to_be_bytes v)"

definition calculate_hashrate :: "work_proof \<Rightarrow> mining_task \<Rightarrow> u64" where
  "calculate_hashrate p t =
     (if wp_work_count p = 0 then 0
      else let epoch_duration_secs = (mt_epoch_end t - mt_epoch_start t) div 1000 in
        if epoch_duration_secs = 0 then 0
        else let hashes_per_proof = push_bit (min (count_leading_zeros (mt_difficulty t)) 63) 1;
                 total_hashes = w_sat_mul (wp_work_count p) hashes_per_proof
             in total_hashes div epoch_duration_secs)"

section \<open>Difficulty\<close>

definition clamp_difficulty :: "u256 \<Rightarrow> difficulty_config \<Rightarrow> u256" where
  "clamp_difficulty d c =
     (if dc_min_difficulty c < d then dc_min_difficulty c
      else if d < dc_max_difficulty c then dc_max_difficulty c
      else d)"

definition adjust_difficulty :: "u256 \<Rightarrow> u64 \<Rightarrow> difficulty_config \<Rightarrow> u256 option" where
  "adjust_difficulty current actual_proofs c =
     (if actual_proofs = 0 then
        map_option (\<lambda>d. clamp_difficulty d c)
          (u256_div (u256_saturating_mul current (u256_from_u64 (100 + dc_max_adjustment_percent c * 2)))
                    (u256_from_u64 100))
      else if dc_target_proofs_per_epoch c = 0 then None
      else
        let ratio_scaled = (ucast actual_proofs * 100 :: u128) div ucast (dc_target_proofs_per_epoch c) in
        map_option (\<lambda>d. clamp_difficulty d c)
          (if 100 < ratio_scaled then
             let adjustment = min (ratio_scaled - 100) (ucast (dc_max_adjustment_percent c)) in
             Option.bind (u256_mul current (u256_from_u64 100))
               (\<lambda>x. u256_div x (u256_from_u64 (ucast (100 + adjustment))))
           else if ratio_scaled < 100 then
             let adjustment = min (100 - ratio_scaled) (ucast (dc_max_adjustment_percent c)) in
             Option.bind (u256_mul current (u256_from_u64 (ucast (100 + adjustment))))
               (\<lambda>x. u256_div x (u256_from_u64 100))
           else Some current))"

definition initial_difficulty :: "difficulty_config \<Rightarrow> u256" where
  "initial_difficulty c =
     min (max (u256_from_be_bytes (replicate 3 0 @ replicate 29 255)) (dc_max_difficulty c))
         (dc_min_difficulty c)"

section \<open>Mining\<close>

definition mine_simple :: "(bytes \<Rightarrow> hash) \<Rightarrow> mining_task \<Rightarrow> address \<Rightarrow> u64 \<Rightarrow> (u64 \<times> hash) option" where
  "mine_simple H t validator max_attempts =
     map_option (\<lambda>n. (of_nat n, mine_once H (mt_seed t) validator (of_nat n)))
       (List.find (\<lambda>n. meets_difficulty (mine_once H (mt_seed t) validator (of_nat n)) (mt_difficulty t))
         [0..<unat max_attempts])"

record mining_result =
  mr_best_nonce :: u64
  mr_best_hash :: hash
  mr_work_count :: u64
  mr_total_hashes :: u64
  mr_duration_ms :: u64

definition create_proof :: "address \<Rightarrow> mining_task \<Rightarrow> mining_result \<Rightarrow> u64 \<Rightarrow> work_proof" where
  "create_proof validator t r now =
     work_proof_new validator (mt_epoch t) (mr_best_nonce r) (mr_best_hash r) (mr_work_count r) now"

end
