(* ===== verification/Floats.thy ===== *)
theory Floats
  imports Complex_Main
begin

text \<open>
  The \<open>f64\<close> arithmetic the consensus engine uses, on non-negative numbers: a value is a rational,
  and every operation rounds its exact result to 53 significant bits, ties to even. Numbers below
  the smallest normal one keep fewer bits; overflow to infinity does not occur for the operands
  of the engine and is left out.
\<close>

section \<open>Rounding\<close>

definition rne :: "rat \<Rightarrow> int" where
  "rne x = (let f = \<lfloor>x\<rfloor>; r = x - of_int f in
     if r < 1 / 2 then f else if 1 / 2 < r then f + 1 else if even f then f else f + 1)"

fun norm_up :: "nat \<Rightarrow> rat \<Rightarrow> nat" where
  "norm_up 0 x = 0"
| "norm_up (Suc n) x = (if 2 ^ 52 \<le> x then 0 else Suc (norm_up n (2 * x)))"

fun norm_down :: "nat \<Rightarrow> rat \<Rightarrow> nat" where
  "norm_down 0 x = 0"
| "norm_down (Suc n) x = (if x < 2 ^ 53 then 0 else Suc (norm_down n (x / 2)))"

definition f64_rnd :: "rat \<Rightarrow> rat" where
  "f64_rnd x =
     (if x = 0 then 0
      else if x < 2 ^ 52 then (let k = norm_up 1074 x in of_int (rne (x * 2 ^ k)) / 2 ^ k)
      else (let k = norm_down 1024 x in of_int (rne (x / 2 ^ k)) * 2 ^ k))"

definition f64_add :: "rat \<Rightarrow> rat \<Rightarrow> rat" where
  "f64_add a b = f64_rnd (a + b)"

definition f64_mul :: "rat \<Rightarrow> rat \<Rightarrow> rat" where
  "f64_mul a b = f64_rnd (a * b)"

definition f64_div :: "rat \<Rightarrow> rat \<Rightarrow> rat" where
  "f64_div a b = f64_rnd (a / b)"

definition f64_of_nat :: "nat \<Rightarrow> rat" where
  "f64_of_nat n = f64_rnd (of_nat n)"

definition f64_to_u64 :: "rat \<Rightarrow> nat" where
  "f64_to_u64 x = min (nat \<lfloor>x\<rfloor>) (2 ^ 64 - 1)"

section \<open>Error of rounding\<close>

lemma rne_error: "\<bar>of_int (rne x) - x\<bar> \<le> 1 / 2"
proof -
  have "of_int \<lfloor>x\<rfloor> \<le> x" "x < of_int \<lfloor>x\<rfloor> + 1" by linarith+
  then show ?thesis unfolding rne_def Let_def abs_if by (simp split: if_split) linarith
qed

lemma rne_int [simp]: "rne (of_int n) = n"
  by (simp add: rne_def)

lemma norm_up_range:
  "x < 2 ^ 53 \<Longrightarrow> 2 ^ 52 \<le> x * 2 ^ n \<Longrightarrow> 2 ^ 52 \<le> x * 2 ^ norm_up n x \<and> x * 2 ^ norm_up n x < 2 ^ 53"
proof (induction n arbitrary: x)
  case (Suc n)
  show ?case
  proof (cases "2 ^ 52 \<le> x")
    case False
    then have "2 ^ 52 \<le> 2 * x * 2 ^ norm_up n (2 * x) \<and> 2 * x * 2 ^ norm_up n (2 * x) < 2 ^ 53"
      using Suc.prems by (intro Suc.IH) (simp_all add: algebra_simps)
    then show ?thesis using False by (simp add: algebra_simps)
  qed (use Suc.prems in simp)
qed simp

lemma norm_down_small: "x < 2 ^ 53 \<Longrightarrow> norm_down n x = 0"
  by (cases n) simp_all

lemma f64_rnd_normal:
  assumes "0 < x" "x < 2 ^ 53" "2 ^ 52 \<le> x * 2 ^ 1074"
  obtains k where "f64_rnd x = of_int (rne (x * 2 ^ k)) / 2 ^ k" "2 ^ 52 \<le> x * 2 ^ k"
proof (cases "x < 2 ^ 52")
  case True
  then have "f64_rnd x = of_int (rne (x * 2 ^ norm_up 1074 x)) / 2 ^ norm_up 1074 x"
    using assms(1) by (simp add: f64_rnd_def Let_def)
  then show thesis using norm_up_range [OF assms(2,3)] that by blast
next
  case False
  have "norm_down 1024 x = 0" by (rule norm_down_small [OF assms(2)])
  then show thesis using False assms(1) by (intro that [of 0]) (simp_all add: f64_rnd_def)
qed

lemma f64_rnd_error:
  assumes "0 < x" "x < 2 ^ 53" "2 ^ 52 \<le> x * 2 ^ 1074"
  shows "\<bar>f64_rnd x - x\<bar> \<le> x / 2 ^ 53"
proof -
  obtain k where k: "f64_rnd x = of_int (rne (x * 2 ^ k)) / 2 ^ k" "2 ^ 52 \<le> x * 2 ^ k"
    using f64_rnd_normal [OF assms] .
  have "f64_rnd x - x = (of_int (rne (x * 2 ^ k)) - x * 2 ^ k) / 2 ^ k"
    by (simp add: k(1) field_simps)
  then have "\<bar>f64_rnd x - x\<bar> = \<bar>of_int (rne (x * 2 ^ k)) - x * 2 ^ k\<bar> / 2 ^ k" by (simp add: abs_divide)
  also have "\<dots> \<le> 1 / 2 / 2 ^ k" by (intro divide_right_mono rne_error) simp
  also have "\<dots> \<le> x / 2 ^ 53" using k(2) by (simp add: field_simps)
  finally show ?thesis .
qed

lemma f64_of_nat_exact:
  assumes "n < 2 ^ 53"
  shows "f64_of_nat n = of_nat n"
proof (cases "n = 0")
  case False
  have "(1 :: rat) \<le> of_nat n" using False by (simp add: Suc_leI)
  then have "2 ^ 52 * 1 \<le> (2 :: rat) ^ 1074 * of_nat n" by (intro mult_mono) simp_all
  moreover have "(of_nat n :: rat) < 2 ^ 53"
    using assms by (metis of_nat_less_iff of_nat_numeral of_nat_power)
  ultimately obtain k where k: "f64_rnd (of_nat n) = of_int (rne (of_nat n * 2 ^ k)) / 2 ^ k"
    using f64_rnd_normal [of "of_nat n"] False by (metis mult.commute mult.right_neutral of_nat_0_less_iff neq0_conv)
  have "(of_nat n * 2 ^ k :: rat) = of_int (int n * 2 ^ k)" by simp
  then have "rne (of_nat n * 2 ^ k) = int n * 2 ^ k" using rne_int by metis
  then show ?thesis using k by (simp add: f64_of_nat_def)
qed (simp add: f64_of_nat_def f64_rnd_def)

section \<open>Comparing a ratio with a threshold\<close>

text \<open>The literal \<open>0.67\<close>.\<close>

definition f64_067 :: rat where
  "f64_067 = f64_rnd (67 / 100)"

lemma f64_067_error: "\<bar>f64_067 - 67 / 100\<bar> \<le> 67 / 100 / 2 ^ 53"
  unfolding f64_067_def by (rule f64_rnd_error) simp_all

lemma nat_rat_bounds:
  assumes "0 < n" "n < 2 ^ 32"
  shows "1 \<le> (of_nat n :: rat)" "(of_nat n :: rat) \<le> 2 ^ 32"
proof -
  show "1 \<le> (of_nat n :: rat)" using assms(1) by (simp add: Suc_leI)
  have "n \<le> 2 ^ 32" using assms(2) by (rule less_imp_le)
  then have "(of_nat n :: rat) \<le> of_nat (2 ^ 32)" by (rule of_nat_mono)
  then show "(of_nat n :: rat) \<le> 2 ^ 32" by simp
qed

lemma ratio_gap:
  assumes "0 < t" "t < 2 ^ 32" "(67 * t :: nat) < 100 * a"
  shows "(67 / 100 :: rat) + 1 / (100 * 2 ^ 32) \<le> of_nat a / of_nat t"
proof -
  have t: "0 < (of_nat t :: rat)" "(of_nat t :: rat) \<le> 2 ^ 32"
    using nat_rat_bounds [OF assms(1,2)] by simp_all
  have "67 * t + 1 \<le> 100 * a" using assms(3) by simp
  then have "(of_nat (67 * t + 1) :: rat) \<le> of_nat (100 * a)" by (rule of_nat_mono)
  then have "(67 * of_nat t + 1 :: rat) \<le> 100 * of_nat a" by simp
  then have "(67 * of_nat t + 1) / (100 * of_nat t) \<le> (100 * of_nat a / (100 * of_nat t) :: rat)"
    using t(1) by (intro divide_right_mono) simp_all
  then have "67 / 100 + 1 / (100 * of_nat t) \<le> (of_nat a / of_nat t :: rat)"
    using t(1) by (simp add: add_divide_distrib)
  moreover have "1 / (100 * 2 ^ 32) \<le> 1 / (100 * of_nat t :: rat)" using t by (intro divide_left_mono) simp_all
  ultimately show ?thesis by linarith
qed

lemma ratio_gap_below:
  assumes "0 < t" "t < 2 ^ 32" "(100 * a :: nat) < 67 * t"
  shows "(of_nat a / of_nat t :: rat) \<le> 67 / 100 - 1 / (100 * 2 ^ 32)"
proof -
  have t: "0 < (of_nat t :: rat)" "(of_nat t :: rat) \<le> 2 ^ 32"
    using nat_rat_bounds [OF assms(1,2)] by simp_all
  have "100 * a + 1 \<le> 67 * t" using assms(3) by simp
  then have "(of_nat (100 * a + 1) :: rat) \<le> of_nat (67 * t)" by (rule of_nat_mono)
  then have "(100 * of_nat a + 1 :: rat) \<le> 67 * of_nat t" by simp
  then have "(of_nat a / of_nat t :: rat) \<le> 67 / 100 - 1 / (100 * of_nat t)"
    using t(1) by (simp add: field_simps)
  moreover have "1 / (100 * 2 ^ 32) \<le> 1 / (100 * of_nat t :: rat)" using t by (intro divide_left_mono) simp_all
  ultimately show ?thesis by linarith
qed

lemma ratio_error:
  assumes "0 < t" "t < 2 ^ 32" "0 < a" "a < 2 ^ 32"
  shows "\<bar>f64_rnd (of_nat a / of_nat t) - of_nat a / of_nat t\<bar> \<le> (of_nat a / of_nat t :: rat) / 2 ^ 53"
proof (rule f64_rnd_error)
  have t: "1 \<le> (of_nat t :: rat)" "(of_nat t :: rat) \<le> 2 ^ 32" and a: "1 \<le> (of_nat a :: rat)" "(of_nat a :: rat) \<le> 2 ^ 32"
    using assms nat_rat_bounds by blast+
  show "0 < (of_nat a / of_nat t :: rat)" using assms by simp
  have "(of_nat a / of_nat t :: rat) \<le> 2 ^ 32 / 1" using t a by (intro frac_le) simp_all
  then show "(of_nat a / of_nat t :: rat) < 2 ^ 53" by simp
  have "1 / 2 ^ 32 \<le> (of_nat a / of_nat t :: rat)" using t a by (intro frac_le) simp_all
  then have "1 / 2 ^ 32 * 2 ^ 1074 \<le> (of_nat a / of_nat t * 2 ^ 1074 :: rat)" by (rule mult_right_mono) simp
  moreover have "(2 :: rat) ^ 52 \<le> 1 / 2 ^ 32 * 2 ^ 1074" by simp
  ultimately show "2 ^ 52 \<le> (of_nat a / of_nat t * 2 ^ 1074 :: rat)" by linarith
qed

lemma f64_ratio_ge:
  assumes t: "0 < t" "t < 2 ^ 32" and a: "a < 2 ^ 32"
  shows "f64_067 \<le> f64_div (f64_of_nat a) (f64_of_nat t) \<longleftrightarrow> 67 * t \<le> 100 * a"
proof -
  have ex: "f64_of_nat a = of_nat a" "f64_of_nat t = of_nat t" using t a by (simp_all add: f64_of_nat_exact)
  let ?x = "of_nat a / of_nat t :: rat"
  have lit: "f64_067 \<le> 67 / 100 + 67 / 100 / 2 ^ 53" "67 / 100 - 67 / 100 / 2 ^ 53 \<le> f64_067"
    using f64_067_error unfolding abs_le_iff by linarith+
  consider "a = 0" | "0 < a" "67 * t = 100 * a" | "0 < a" "67 * t < 100 * a" | "0 < a" "100 * a < 67 * t" by linarith
  then show ?thesis
  proof cases
    case 1
    then have "?x = 0" by simp
    then have "f64_div (f64_of_nat a) (f64_of_nat t) = 0" unfolding ex f64_div_def by (simp add: f64_rnd_def)
    moreover have "0 < f64_067" using lit(2) by simp
    ultimately show ?thesis using 1 t(1) by simp
  next
    case 2
    then have "(67 * of_nat t :: rat) = 100 * of_nat a" by (metis of_nat_mult of_nat_numeral)
    then have "?x = 67 / 100" using t(1) by (simp add: field_simps)
    then have "f64_067 = f64_div (f64_of_nat a) (f64_of_nat t)" by (simp only: ex f64_div_def f64_067_def)
    then show ?thesis using 2(2) by simp
  next
    case 3
    have "?x - ?x / 2 ^ 53 \<le> f64_rnd ?x" using ratio_error [OF t 3(1) a] unfolding abs_le_iff by linarith
    then have "f64_067 \<le> f64_rnd ?x" using ratio_gap [OF t 3(2)] lit(1) by simp
    then show ?thesis using 3 by (simp add: ex f64_div_def)
  next
    case 4
    have "f64_rnd ?x \<le> ?x + ?x / 2 ^ 53" using ratio_error [OF t 4(1) a] unfolding abs_le_iff by linarith
    then have "f64_rnd ?x < f64_067" using ratio_gap_below [OF t 4(2)] lit(2) by simp
    then show ?thesis using 4 by (simp add: ex f64_div_def)
  qed
qed

end
