(* ===== verification/Scoring.thy ===== *)
theory Scoring
  imports Blocks Floats
begin

text \<open>
  Contribution scores (\<open>scoring.rs\<close> in \<open>qfc-consensus\<close>) in the rounded arithmetic of \<open>f64\<close>. A literal
  such as \<open>0.30\<close> is the rounded decimal. \<open>calculate_inference_score\<close> takes a square root and is left
  out; the engine does not call it.
\<close>

datatype network_state = NetNormal | Congested | StorageShortage | UnderAttack

definition WEIGHT_STAKE :: rat where "WEIGHT_STAKE = f64_rnd (30 / 100)"
definition WEIGHT_COMPUTE :: rat where "WEIGHT_COMPUTE = f64_rnd (20 / 100)"
definition WEIGHT_UPTIME :: rat where "WEIGHT_UPTIME = f64_rnd (15 / 100)"
definition WEIGHT_ACCURACY :: rat where "WEIGHT_ACCURACY = f64_rnd (15 / 100)"
definition WEIGHT_NETWORK :: rat where "WEIGHT_NETWORK = f64_rnd (10 / 100)"
definition WEIGHT_STORAGE :: rat where "WEIGHT_STORAGE = f64_rnd (5 / 100)"
definition WEIGHT_REPUTATION :: rat where "WEIGHT_REPUTATION = f64_rnd (5 / 100)"

definition f64_of_word :: "'a::len word \<Rightarrow> rat" where
  "f64_of_word w = f64_of_nat (unat w)"

definition commission_ratio :: "validator_node \<Rightarrow> rat" where
  "commission_ratio v = f64_div (f64_of_word (vn_commission_rate v)) 10000"

definition uptime_ratio :: "validator_node \<Rightarrow> rat" where
  "uptime_ratio v = f64_div (f64_of_word (vn_uptime v)) 10000"

definition accuracy_ratio :: "validator_node \<Rightarrow> rat" where
  "accuracy_ratio v = f64_div (f64_of_word (vn_accuracy v)) 10000"

definition reputation_ratio :: "validator_node \<Rightarrow> rat" where
  "reputation_ratio v = f64_div (f64_of_word (vn_reputation v)) 10000"

definition verification_pass_ratio :: "validator_node \<Rightarrow> rat" where
  "verification_pass_ratio v = f64_div (f64_of_word (vn_verification_pass_rate v)) 10000"

definition get_network_multiplier :: "validator_node \<Rightarrow> network_state \<Rightarrow> rat" where
  "get_network_multiplier v st =
     (case st of
        NetNormal \<Rightarrow> 1
      | Congested \<Rightarrow> if vn_provides_compute v then f64_rnd (12 / 10) else 1
      | StorageShortage \<Rightarrow> if 1000 < vn_storage_provided_gb v then f64_rnd (115 / 100) else 1
      | UnderAttack \<Rightarrow>
          if f64_rnd (9 / 10) < reputation_ratio v then f64_rnd (13 / 10)
          else if reputation_ratio v < 1 / 2 then f64_rnd (7 / 10)
          else 1)"

definition calculate_contribution_score_v2 ::
  "validator_node \<Rightarrow> u128 \<Rightarrow> u64 \<Rightarrow> u64 \<Rightarrow> u64 \<Rightarrow> network_state \<Rightarrow> u64" where
  "calculate_contribution_score_v2 v total_stake total_hashrate total_inference_score total_storage_gb st =
     (let score = 0;
          score = (if 0 < total_stake then
              let stake_ratio = f64_div (f64_of_word (u256_low_u128 (vn_stake v))) (f64_of_word total_stake)
              in f64_add score (f64_mul stake_ratio WEIGHT_STAKE) else score);
          score = (if vn_provides_compute v then
              (if 0 < total_inference_score \<and> 0 < vn_inference_score v then
                 let compute_ratio = f64_div (f64_of_word (vn_inference_score v)) (f64_of_word total_inference_score)
                 in f64_add score (f64_mul compute_ratio WEIGHT_COMPUTE)
               else if 0 < total_hashrate then
                 let compute_ratio = f64_div (f64_of_word (vn_hashrate v)) (f64_of_word total_hashrate)
                 in f64_add score (f64_mul compute_ratio WEIGHT_COMPUTE)
               else score) else score);
          score = f64_add score (f64_mul (uptime_ratio v) WEIGHT_UPTIME);
          score = f64_add score (f64_mul (accuracy_ratio v) WEIGHT_ACCURACY);
          latency_score = f64_div 1 (f64_add 1 (f64_div (f64_of_word (vn_avg_latency_ms v)) 100));
          bandwidth_score = min (f64_div (f64_of_word (vn_bandwidth_mbps v)) 1000) 1;
          service_score = f64_add (f64_mul latency_score (f64_rnd (6 / 10)))
                                  (f64_mul bandwidth_score (f64_rnd (4 / 10)));
          score = f64_add score (f64_mul service_score WEIGHT_NETWORK);
          score = (if 0 < total_storage_gb then
              let storage_ratio = f64_div (f64_of_word (vn_storage_provided_gb v)) (f64_of_word total_storage_gb)
              in f64_add score (f64_mul storage_ratio WEIGHT_STORAGE) else score);
          score = f64_add score (f64_mul (reputation_ratio v) WEIGHT_REPUTATION);
          multiplier = get_network_multiplier v st;
          score = f64_mul score multiplier
      in of_nat (f64_to_u64 (f64_mul score 1000000000)))"

definition calculate_contribution_score ::
  "validator_node \<Rightarrow> u128 \<Rightarrow> u64 \<Rightarrow> u64 \<Rightarrow> network_state \<Rightarrow> u64" where
  "calculate_contribution_score v total_stake total_hashrate total_storage_gb st =
     calculate_contribution_score_v2 v total_stake total_hashrate 0 total_storage_gb st"

definition score_to_probability :: "u64 \<Rightarrow> u64 \<Rightarrow> rat" where
  "score_to_probability score total_score =
     (if total_score = 0 then 0 else f64_div (f64_of_word score) (f64_of_word total_score))"

definition total_contribution_score :: "validator_node list \<Rightarrow> u64" where
  "total_contribution_score vs = sum_list (map vn_contribution_score vs)"

definition total_inference_score :: "validator_node list \<Rightarrow> u64" where
  "total_inference_score vs = sum_list (map vn_inference_score vs)"

end
