(* ===== verification/Consensus.thy ===== *)
theory Consensus
  imports Pow Scoring Ordered_Map
begin

text \<open>
  The consensus engine (\<open>engine.rs\<close> in \<open>qfc-consensus\<close>). Its fields behind locks are the record
  \<open>engine\<close>; an operation is a function on it, and one that writes the database is an operation on
  the pair of engine and database. The wall clock is the argument \<open>now\<close>, in milliseconds; a
  validator key is its signing function. Sums and products on \<open>u64\<close> wrap, those on \<open>U256\<close> panic.
\<close>

section \<open>Constants, errors and state\<close>

definition BLOCK_VERSION :: u32 where "BLOCK_VERSION = 1"
definition MAX_TRANSACTIONS_PER_BLOCK :: nat where "MAX_TRANSACTIONS_PER_BLOCK = 10000"
definition MAX_INFERENCE_PROOFS_PER_BLOCK :: nat where "MAX_INFERENCE_PROOFS_PER_BLOCK = 500"
definition BLOCK_INTERVAL_MS :: u64 where "BLOCK_INTERVAL_MS = 5000"
definition MAX_TIMESTAMP_DRIFT_MS :: u64 where "MAX_TIMESTAMP_DRIFT_MS = 1500"
definition BLOCKS_PER_EPOCH :: u64 where "BLOCKS_PER_EPOCH = 3"
definition FINALITY_THRESHOLD :: rat where "FINALITY_THRESHOLD = f64_067"
definition SLASH_DOUBLE_SIGN_PERCENT :: u64 where "SLASH_DOUBLE_SIGN_PERCENT = 50"
definition JAIL_PERMANENT_MS :: u64 where "JAIL_PERMANENT_MS = - 1"
definition JAIL_DOUBLE_SIGN_MS :: u64 where "JAIL_DOUBLE_SIGN_MS = JAIL_PERMANENT_MS"
definition CHECKPOINT_RETENTION :: nat where "CHECKPOINT_RETENTION = 64"

datatype consensus_error = CsInvalidProducer | CsInvalidVrfProof | CsInvalidSignature
  | CsInvalidStateTransition | CsInvalidTimestamp | CsBlockTooLarge | CsNotValidator
  | CsGenesisSeedUnset | CsValidatorJailed | CsNotOurTurn | CsFinalityNotReached | CsState string
  | CsExecutor string | CsNetwork string | CsStorageError string | CsDoubleSign

record consensus_config =
  cc_blocks_per_epoch :: u64
  cc_finality_threshold :: rat
  cc_vote_timeout_secs :: u64

definition consensus_config_default :: consensus_config where
  "consensus_config_default =
     \<lparr>cc_blocks_per_epoch = 3, cc_finality_threshold = FINALITY_THRESHOLD, cc_vote_timeout_secs = 5\<rparr>"

record block_record =
  br_hash :: hash
  br_producer :: address
  br_signature :: bytes

record engine =
  en_config :: consensus_config
  en_validator_key :: "(bytes \<Rightarrow> bytes) option"
  en_address :: "address option"
  en_current_epoch :: epoch
  en_validators :: "validator_node list"
  en_pending_votes :: "(hash \<times> vote list) list"
  en_finalized_height :: u64
  en_network_state :: network_state
  en_block_cache :: "(u64 \<times> block_record list) list"
  en_max_blocks_per_height :: nat
  en_cache_depth :: u64
  en_genesis_seed :: "bytes option"
  en_own_votes :: "(u64 \<times> hash) list"

type_synonym ('d, 'a) cons_op = "(engine \<times> 'd, consensus_error, 'a) op"

definition engine_new :: "consensus_config \<Rightarrow> engine" where
  "engine_new c = \<lparr>en_config = c, en_validator_key = None, en_address = None,
     en_current_epoch = epoch_default, en_validators = [], en_pending_votes = [],
     en_finalized_height = 0, en_network_state = NetNormal, en_block_cache = [],
     en_max_blocks_per_height = 10, en_cache_depth = 100, en_genesis_seed = None, en_own_votes = []\<rparr>"

definition engine_new_validator :: "consensus_config \<Rightarrow> (bytes \<Rightarrow> bytes) \<Rightarrow> address \<Rightarrow> engine" where
  "engine_new_validator c key a = \<lparr>en_config = c, en_validator_key = Some key, en_address = Some a,
     en_current_epoch = epoch_default, en_validators = [], en_pending_votes = [],
     en_finalized_height = 0, en_network_state = NetNormal, en_block_cache = [],
     en_max_blocks_per_height = 10, en_cache_depth = 100, en_genesis_seed = None, en_own_votes = []\<rparr>"

definition engine_is_validator :: "engine \<Rightarrow> bool" where
  "engine_is_validator en \<longleftrightarrow> en_validator_key en \<noteq> None"

definition update_validators :: "validator_node list \<Rightarrow> engine \<Rightarrow> engine" where
  "update_validators vs en = en\<lparr>en_validators := vs\<rparr>"

definition set_network_state :: "network_state \<Rightarrow> engine \<Rightarrow> engine" where
  "set_network_state st en = en\<lparr>en_network_state := st\<rparr>"

text \<open>\<open>validators.iter_mut().find(..)\<close> and a change of what is found.\<close>

fun update_first :: "('a \<Rightarrow> bool) \<Rightarrow> ('a \<Rightarrow> 'a) \<Rightarrow> 'a list \<Rightarrow> 'a list" where
  "update_first P f [] = []"
| "update_first P f (x # xs) = (if P x then f x # xs else x # update_first P f xs)"

definition with_validator :: "address \<Rightarrow> (validator_node \<Rightarrow> validator_node) \<Rightarrow> engine \<Rightarrow> engine" where
  "with_validator a f en = en\<lparr>en_validators := update_first (\<lambda>v. vn_address v = a) f (en_validators en)\<rparr>"

definition find_validator :: "address \<Rightarrow> engine \<Rightarrow> validator_node option" where
  "find_validator a en = List.find (\<lambda>v. vn_address v = a) (en_validators en)"

section \<open>Epochs and scores\<close>

definition update_contribution_scores :: "engine \<Rightarrow> engine" where
  "update_contribution_scores en =
     (let vs = en_validators en;
          total_stake = sum_list (map (\<lambda>v. u256_low_u128 (vn_total_stake v)) vs);
          total_hashrate = sum_list (map vn_hashrate (filter vn_provides_compute vs));
          total_storage = sum_list (map (\<lambda>v. ucast (vn_storage_provided_gb v)) vs)
      in en\<lparr>en_validators := map (\<lambda>v. v\<lparr>vn_contribution_score :=
           calculate_contribution_score v total_stake total_hashrate total_storage (en_network_state en)\<rparr>) vs\<rparr>)"

definition set_genesis_seed :: "bytes \<Rightarrow> engine \<Rightarrow> engine" where
  "set_genesis_seed seed en =
     (case en_genesis_seed en of None \<Rightarrow> en\<lparr>en_genesis_seed := Some seed\<rparr> | Some s \<Rightarrow> en)"

definition has_genesis_seed :: "engine \<Rightarrow> bool" where
  "has_genesis_seed en \<longleftrightarrow> en_genesis_seed en \<noteq> None"

definition start_epoch :: "u64 \<Rightarrow> u64 \<Rightarrow> bytes \<Rightarrow> engine \<Rightarrow> engine" where
  "start_epoch now n seed en = update_contribution_scores (en\<lparr>en_current_epoch := epoch_new n seed now\<rparr>)"

definition derive_epoch_seed :: "('d, 'z) chain_env_scheme \<Rightarrow> engine \<Rightarrow> u64 \<Rightarrow> consensus_error + bytes" where
  "derive_epoch_seed E en n =
     (case en_genesis_seed en of
        None \<Rightarrow> Inl CsGenesisSeedUnset
      | Some genesis \<Rightarrow> Inr (blake3_hash E (genesis @ u64_le_bytes n)))"

definition slot_of_timestamp :: "u64 \<Rightarrow> u64" where
  "slot_of_timestamp ts = ts div BLOCK_INTERVAL_MS"

definition epoch_of_slot :: "u64 \<Rightarrow> u64" where
  "epoch_of_slot slot = slot div (EPOCH_DURATION_MS div BLOCK_INTERVAL_MS)"

definition maybe_advance_epoch :: "('d, 'z) chain_env_scheme \<Rightarrow> u64 \<Rightarrow> engine \<Rightarrow> u64 \<times> engine" where
  "maybe_advance_epoch E now en =
     (let target = now div EPOCH_DURATION_MS in
      if target = ep_number (en_current_epoch en) then (target, en)
      else case derive_epoch_seed E en target of
        Inr seed \<Rightarrow> (target, start_epoch now target seed en)
      | Inl _ \<Rightarrow> (ep_number (en_current_epoch en), en))"

section \<open>Leader election\<close>

definition election_set :: "engine \<Rightarrow> (address \<times> bytes) list" where
  "election_set en = sort_key fst (map (\<lambda>v. (vn_address v, vn_public_key v)) (en_validators en))"

definition seed_offset :: "bytes \<Rightarrow> u64" where
  "seed_offset seed = of_nat (be_nat (rev (take 8 seed)))"

definition select_producer_with_seed :: "engine \<Rightarrow> u64 \<Rightarrow> bytes \<Rightarrow> address option" where
  "select_producer_with_seed en slot epoch_seed =
     (let st = election_set en in
      if st = [] then None
      else let offset = seed_offset epoch_seed;
               idx = unat ((slot + offset) mod of_nat (length st))
           in Some (fst (st ! idx)))"

definition select_producer :: "('d, 'z) chain_env_scheme \<Rightarrow> engine \<Rightarrow> u64 \<Rightarrow> address option" where
  "select_producer E en slot =
     (case derive_epoch_seed E en (epoch_of_slot slot) of
        Inl _ \<Rightarrow> None
      | Inr seed \<Rightarrow> select_producer_with_seed en slot seed)"

definition should_produce :: "('d, 'z) chain_env_scheme \<Rightarrow> engine \<Rightarrow> u64 \<Rightarrow> bool" where
  "should_produce E en slot =
     (case en_address en of
        None \<Rightarrow> False
      | Some our_address \<Rightarrow>
          (case select_producer E en slot of None \<Rightarrow> False | Some producer \<Rightarrow> producer = our_address))"

section \<open>Producing and validating blocks\<close>

definition produce_block ::
  "('d, 'z) chain_env_scheme \<Rightarrow> engine \<Rightarrow> block \<Rightarrow> transaction list \<Rightarrow> exec_receipt list \<Rightarrow> hash \<Rightarrow> u64 \<Rightarrow>
   inference_proof list \<Rightarrow> u64 \<Rightarrow> consensus_error + block" where
  "produce_block E en parent txs receipts state_root gas_used proofs timestamp_ms =
     (case en_validator_key en of
        None \<Rightarrow> Inl CsNotValidator
      | Some key \<Rightarrow>
        let slot = slot_of_timestamp timestamp_ms in
        (case derive_epoch_seed E en (epoch_of_slot slot) of
           Inl e \<Rightarrow> Inl e
         | Inr seed \<Rightarrow>
           let H = blake3_hash E;
               vrf_proof = vrf_prove H key seed;
               transactions_root = merkle_root H (map (tx_hash E) txs);
               receipts_root = merkle_root H (map (\<lambda>r. H (receipt_to_bytes E r)) receipts);
               proofs_root = merkle_root H (map (proof_hash E) proofs)
           in (case en_address en of
                 None \<Rightarrow> Inl CsNotValidator
               | Some our_address \<Rightarrow>
                 (case find_validator our_address en of
                    None \<Rightarrow> Inl CsNotValidator
                  | Some validator \<Rightarrow>
                    let header = \<lparr>bh_version = BLOCK_VERSION, bh_number = block_number parent + 1,
                          bh_parent_hash = block_hash E parent, bh_state_root = state_root,
                          bh_transactions_root = transactions_root, bh_receipts_root = receipts_root,
                          bh_proofs_root = proofs_root, bh_producer = our_address,
                          bh_contribution_score = vn_contribution_score validator,
                          bh_vrf_proof = vrf_proof, bh_timestamp = timestamp_ms,
                          bh_gas_limit = DEFAULT_BLOCK_GAS_LIMIT, bh_gas_used = gas_used,
                          bh_extra_data = []\<rparr>;
                        blk = (block_new header txs)\<lparr>bl_inference_proofs := proofs\<rparr>
                    in Inr (blk\<lparr>bl_signature := vrf_sig (vrf_prove H key (block_hash E blk))\<rparr>)))))"

text \<open>
  The loop of \<open>validate_block\<close> over the candidate slots: the error of the seed derivation, or whether
  the producer leads one of the slots and whether its VRF proof is right there.
\<close>

fun check_candidates ::
  "('d, 'z) chain_env_scheme \<Rightarrow> engine \<Rightarrow> block \<Rightarrow> bytes \<Rightarrow> u64 list \<Rightarrow> bool \<Rightarrow> consensus_error + bool \<times> bool" where
  "check_candidates E en blk producer_key [] matched = Inr (matched, False)"
| "check_candidates E en blk producer_key (candidate # rest) matched =
     (case derive_epoch_seed E en (epoch_of_slot candidate) of
        Inl e \<Rightarrow> Inl e
      | Inr seed \<Rightarrow>
          if select_producer_with_seed en candidate seed \<noteq> Some (block_producer blk)
          then check_candidates E en blk producer_key rest matched
          else if producer_key = PUBLIC_KEY_ZERO \<or>
                  \<not> isl (vrf_verify (blake3_hash E) (ed_env E) producer_key seed (block_vrf_proof blk))
          then Inr (True, True)
          else check_candidates E en blk producer_key rest True)"

definition candidate_slots :: "u64 \<Rightarrow> u64 list" where
  "candidate_slots ts =
     (let slot = slot_of_timestamp ts; offset_in_slot = ts mod BLOCK_INTERVAL_MS in
      if offset_in_slot < MAX_TIMESTAMP_DRIFT_MS \<and> 0 < slot then [slot, slot - 1] else [slot])"

definition validate_block ::
  "('d, 'z) chain_env_scheme \<Rightarrow> engine \<Rightarrow> u64 \<Rightarrow> block \<Rightarrow> block \<Rightarrow> consensus_error + unit" where
  "validate_block E en now blk parent =
     (if block_number blk \<noteq> block_number parent + 1 then Inl CsInvalidStateTransition
      else if block_parent_hash blk \<noteq> block_hash E parent then Inl CsInvalidStateTransition
      else if now + MAX_TIMESTAMP_DRIFT_MS < block_timestamp blk then Inl CsInvalidTimestamp
      else if block_timestamp blk \<le> block_timestamp parent then Inl CsInvalidTimestamp
      else case find_validator (block_producer blk) en of
        None \<Rightarrow> Inl CsInvalidProducer
      | Some producer \<Rightarrow>
        (case check_candidates E en blk (vn_public_key producer) (candidate_slots (block_timestamp blk)) False of
           Inl e \<Rightarrow> Inl e
         | Inr (producer_matched, vrf_ok) \<Rightarrow>
             if \<not> producer_matched then Inl CsInvalidProducer
             else if \<not> vrf_ok then Inl CsInvalidVrfProof
             else if MAX_TRANSACTIONS_PER_BLOCK < length (bl_transactions blk) then Inl CsBlockTooLarge
             else if 2 \<le> bh_version (bl_header blk) \<or> bl_inference_proofs blk \<noteq> [] then
               (if bh_proofs_root (bl_header blk) \<noteq>
                     merkle_root (blake3_hash E) (map (proof_hash E) (bl_inference_proofs blk))
                then Inl CsInvalidStateTransition
                else if MAX_INFERENCE_PROOFS_PER_BLOCK < length (bl_inference_proofs blk)
                then Inl CsBlockTooLarge
                else Inr ())
             else Inr ()))"
section \<open>Votes and finality\<close>

definition engine_vote :: "('d, 'z) chain_env_scheme \<Rightarrow> engine \<Rightarrow> u64 \<Rightarrow> block \<Rightarrow> bool \<Rightarrow> consensus_error + vote" where
  "engine_vote E en now blk accept =
     (case en_validator_key en of
        None \<Rightarrow> Inl CsNotValidator
      | Some key \<Rightarrow>
        (case en_address en of
           None \<Rightarrow> Inl CsNotValidator
         | Some our_address \<Rightarrow>
           let h = block_hash E blk;
               v = (if accept then vote_accept h (block_number blk) our_address now
                    else vote_reject h (block_number blk) our_address RejInvalidStateTransition now);
               vote_hash = blake3_hash E (unsigned_vote_bytes E (unsigned_vote_of v))
           in Inr (v\<lparr>vo_signature := vrf_sig (vrf_prove (blake3_hash E) key vote_hash)\<rparr>)))"

definition votes_for :: "engine \<Rightarrow> hash \<Rightarrow> vote list" where
  "votes_for en h = (case map_of (en_pending_votes en) h of None \<Rightarrow> [] | Some vs \<Rightarrow> vs)"

definition add_vote :: "vote \<Rightarrow> engine \<Rightarrow> engine" where
  "add_vote v en =
     (let votes = votes_for en (vo_block_hash v) in
      if list_ex (\<lambda>w. vo_voter w = vo_voter v) votes then en
      else en\<lparr>en_pending_votes := AList.update (vo_block_hash v) (votes @ [v]) (en_pending_votes en)\<rparr>)"

definition try_record_own_vote :: "u64 \<Rightarrow> hash \<Rightarrow> engine \<Rightarrow> bool \<times> engine" where
  "try_record_own_vote height h en =
     (case map_of (en_own_votes en) height of
        Some _ \<Rightarrow> (False, en)
      | None \<Rightarrow> (True, en\<lparr>en_own_votes := AList.update height h (en_own_votes en)\<rparr>))"

definition sign_hash :: "('d, 'z) chain_env_scheme \<Rightarrow> engine \<Rightarrow> hash \<Rightarrow> consensus_error + bytes" where
  "sign_hash E en h =
     (case en_validator_key en of
        None \<Rightarrow> Inl CsNotValidator
      | Some key \<Rightarrow> Inr (vrf_sig (vrf_prove (blake3_hash E) key h)))"

definition check_finality :: "engine \<Rightarrow> hash \<Rightarrow> bool" where
  "check_finality en h =
     (case map_of (en_pending_votes en) h of
        None \<Rightarrow> False
      | Some block_votes \<Rightarrow>
        let total = length (en_validators en) in
        if total = 0 then False
        else let accept_count = length (filter (\<lambda>v. list_ex (\<lambda>val. vn_address val = vo_voter v) (en_validators en))
                   (filter is_accept block_votes));
                 ratio = f64_div (f64_of_nat accept_count) (f64_of_nat total)
             in cc_finality_threshold (en_config en) \<le> ratio)"

definition set_finalized_height :: "u64 \<Rightarrow> engine \<Rightarrow> engine" where
  "set_finalized_height h en = en\<lparr>en_finalized_height := h\<rparr>"

definition prune_old_votes :: "u64 \<Rightarrow> engine \<Rightarrow> engine" where
  "prune_old_votes finalized_height en =
     en\<lparr>en_pending_votes := filter (\<lambda>(h, votes). case votes of [] \<Rightarrow> False | v # _ \<Rightarrow> finalized_height < vo_block_height v)
          (en_pending_votes en),
        en_own_votes := filter (\<lambda>(height, h). finalized_height < height) (en_own_votes en)\<rparr>"

section \<open>Metrics\<close>

definition record_block_produced :: "u64 \<Rightarrow> address \<Rightarrow> engine \<Rightarrow> engine" where
  "record_block_produced now producer = with_validator producer (\<lambda>v.
     v\<lparr>vn_blocks_produced := vn_blocks_produced v + 1, vn_last_active := now,
       vn_reputation := min (vn_reputation v + 10) 10000\<rparr>)"

definition record_vote :: "u64 \<Rightarrow> address \<Rightarrow> bool \<Rightarrow> engine \<Rightarrow> engine" where
  "record_vote now voter is_valid = with_validator voter (\<lambda>v.
     (if is_valid then
        v\<lparr>vn_valid_votes := vn_valid_votes v + 1,
          vn_accuracy := ucast ((ucast (vn_accuracy v) * 99 + 10000 :: u64) div 100)\<rparr>
      else
        v\<lparr>vn_invalid_votes := vn_invalid_votes v + 1,
          vn_accuracy := ucast ((ucast (vn_accuracy v) * 99 :: u64) div 100)\<rparr>)\<lparr>vn_last_active := now\<rparr>)"

definition update_validator_uptime :: "address \<Rightarrow> u64 \<Rightarrow> u64 \<Rightarrow> engine \<Rightarrow> engine" where
  "update_validator_uptime a expected actual en =
     (if expected = 0 then en
      else with_validator a (\<lambda>v.
        let period_uptime = ucast (min (actual * 10000 div expected) 10000) :: u32 in
        v\<lparr>vn_uptime := ucast ((ucast (vn_uptime v) * 9 + ucast period_uptime :: u64) div 10)\<rparr>) en)"

definition record_latency :: "address \<Rightarrow> u32 \<Rightarrow> engine \<Rightarrow> engine" where
  "record_latency a latency_ms = with_validator a (\<lambda>v.
     v\<lparr>vn_avg_latency_ms := ucast ((ucast (vn_avg_latency_ms v) * 9 + ucast latency_ms :: u64) div 10)\<rparr>)"

section \<open>Slashing\<close>

text \<open>The stakes after a slash of a part of the total: direct stake first, then delegated stake.\<close>

definition slash_stakes :: "u256 \<Rightarrow> validator_node \<Rightarrow> validator_node" where
  "slash_stakes slash_amount v =
     (let direct_slash = min slash_amount (vn_stake v);
          v' = v\<lparr>vn_stake := u256_saturating_sub (vn_stake v) direct_slash\<rparr>;
          remaining_slash = u256_saturating_sub slash_amount direct_slash
      in if \<not> u256_is_zero remaining_slash
         then v'\<lparr>vn_delegated_stake := u256_saturating_sub (vn_delegated_stake v') remaining_slash\<rparr>
         else v')"

definition slash_amount_of :: "u64 \<Rightarrow> validator_node \<Rightarrow> u256 option" where
  "slash_amount_of percent v =
     Option.bind (u256_mul (vn_total_stake v) (u256_from_u64 percent)) (\<lambda>x. u256_div x (u256_from_u64 100))"

text \<open>The reputation is read as an \<open>i32\<close>, on which the subtraction wraps.\<close>

definition slash_reputation :: "u32 \<Rightarrow> u32" where
  "slash_reputation r = (let d = r - 2000 in if sint d < 0 then 0 else d)"

definition slash_node :: "u64 \<Rightarrow> u8 \<Rightarrow> u64 \<Rightarrow> validator_node \<Rightarrow> validator_node option" where
  "slash_node now slash_percent jail_duration_ms v =
     (case slash_amount_of (ucast slash_percent) v of
        None \<Rightarrow> None
      | Some slash_amount \<Rightarrow>
        let v1 = slash_stakes slash_amount v;
            v2 = v1\<lparr>vn_reputation := slash_reputation (vn_reputation v1)\<rparr>
        in Some (if 0 < jail_duration_ms
                 then v2\<lparr>vn_is_jailed := True,
                         vn_jail_until := (if jail_duration_ms = JAIL_PERMANENT_MS then JAIL_PERMANENT_MS
                                           else w_sat_add now jail_duration_ms)\<rparr>
                 else v2))"

text \<open>\<open>None\<close> is the panic of the product, which comes before any change.\<close>

definition slash_validator :: "u64 \<Rightarrow> address \<Rightarrow> u8 \<Rightarrow> u64 \<Rightarrow> engine \<Rightarrow> engine option" where
  "slash_validator now a slash_percent jail_duration_ms en =
     (case find_validator a en of
        None \<Rightarrow> Some en
      | Some v \<Rightarrow> map_option (\<lambda>v'. with_validator a (\<lambda>_. v') en) (slash_node now slash_percent jail_duration_ms v))"

definition process_unjails :: "u64 \<Rightarrow> engine \<Rightarrow> engine" where
  "process_unjails now en = en\<lparr>en_validators := map (\<lambda>v.
     if can_unjail v now then v\<lparr>vn_is_jailed := False, vn_jail_until := 0\<rparr> else v) (en_validators en)\<rparr>"
section \<open>Persistence\<close>

definition on_cons_db :: "('d, string, 'a) op \<Rightarrow> ('d, 'a) cons_op" where
  "on_cons_db f = (\<lambda>(en, d). case f d of (r, d') \<Rightarrow> (map_sum (map_fault CsStorageError) id r, (en, d')))"

definition get_engine :: "('d, engine) cons_op" where
  "get_engine = (\<lambda>(en, d). (Inr en, (en, d)))"

definition put_engine :: "engine \<Rightarrow> ('d, unit) cons_op" where
  "put_engine en' = (\<lambda>(en, d). (Inr (), (en', d)))"

definition save_validators :: "('d, 'z) chain_env_scheme \<Rightarrow> ('d, unit) cons_op" where
  "save_validators E = op_bind get_engine (\<lambda>en.
     op_fold (\<lambda>v _. on_cons_db (db_put E VALIDATORS (address_as_bytes (vn_address v)) (validator_to_bytes E v)))
       (en_validators en) ())"

text \<open>\<open>load_validators\<close> returns an empty list whatever was saved.\<close>

definition load_validators :: "('d, validator_node list) cons_op" where
  "load_validators = op_ret []"

definition checkpoint_key :: "u64 \<Rightarrow> bytes" where
  "checkpoint_key n = be_bytes 8 (unat n)"

definition checkpoint_of :: "engine \<Rightarrow> u64 \<Rightarrow> u64 \<Rightarrow> validator_checkpoint" where
  "checkpoint_of en now block_height =
     \<lparr>cp_epoch = ep_number (en_current_epoch en), cp_block_height = block_height, cp_timestamp = now,
      cp_validators = en_validators en, cp_epoch_seed = ep_seed (en_current_epoch en),
      cp_finalized_height = en_finalized_height en\<rparr>"

text \<open>The keys of the checkpoints that are already there, in the order of the iterator.\<close>

definition ok_keys :: "(string + bytes \<times> bytes) list \<Rightarrow> bytes list" where
  "ok_keys rs = List.map_filter (\<lambda>r. case r of Inl _ \<Rightarrow> None | Inr (k, _) \<Rightarrow> Some k) rs"

definition pruned_checkpoints :: "bytes \<Rightarrow> bytes list \<Rightarrow> bytes list" where
  "pruned_checkpoints key keys =
     (let existing = filter (\<lambda>k. k \<noteq> key) keys;
          total = length existing + 1
      in if CHECKPOINT_RETENTION < total then take (total - CHECKPOINT_RETENTION) existing else [])"

definition checkpoint_batch ::
  "('d, 'z) chain_env_scheme \<Rightarrow> engine \<Rightarrow> validator_checkpoint \<Rightarrow> bytes list \<Rightarrow> write_batch" where
  "checkpoint_batch E en cp keys =
     (let key = checkpoint_key (cp_epoch cp);
          b = batch_put CHECKPOINTS key (checkpoint_to_bytes E cp) [];
          b = fold (\<lambda>v. batch_put VALIDATORS (address_as_bytes (vn_address v)) (validator_to_bytes E v))
                (en_validators en) b
      in fold (batch_delete CHECKPOINTS) (pruned_checkpoints key keys) b)"

definition create_checkpoint ::
  "('d, 'z) chain_env_scheme \<Rightarrow> u64 \<Rightarrow> u64 \<Rightarrow> ('d, validator_checkpoint) cons_op" where
  "create_checkpoint E now block_height = (\<lambda>(en, d).
     let cp = checkpoint_of en now block_height;
         b = checkpoint_batch E en cp (ok_keys (db_try_iter_from E CHECKPOINTS [] d))
     in op_bind (on_cons_db (db_write_batch E b)) (\<lambda>_. op_ret cp) (en, d))"

definition load_checkpoint ::
  "('d, 'z) chain_env_scheme \<Rightarrow> u64 \<Rightarrow> ('d, validator_checkpoint option) cons_op" where
  "load_checkpoint E epoch =
     op_bind (on_cons_db (db_get E CHECKPOINTS (checkpoint_key epoch))) (\<lambda>r.
       case r of
         None \<Rightarrow> op_ret None
       | Some dat \<Rightarrow> (case checkpoint_from_bytes E dat of
            Inl e \<Rightarrow> op_fail (Err (CsStorageError e))
          | Inr cp \<Rightarrow> op_ret (Some cp)))"

fun first_usable ::
  "('d, 'z) chain_env_scheme \<Rightarrow> (string + bytes \<times> bytes) list \<Rightarrow> validator_checkpoint option" where
  "first_usable E [] = None"
| "first_usable E (Inl e # rest) = None"
| "first_usable E (Inr (key, dat) # rest) =
     (case checkpoint_from_bytes E dat of
        Inr cp \<Rightarrow>
          if key \<noteq> checkpoint_key (cp_epoch cp) then first_usable E rest
          else if cp_validators cp = [] then first_usable E rest
          else Some cp
      | Inl e \<Rightarrow> first_usable E rest)"

definition load_latest_checkpoint ::
  "('d, 'z) chain_env_scheme \<Rightarrow> ('d, validator_checkpoint option) cons_op" where
  "load_latest_checkpoint E = (\<lambda>(en, d). (Inr (first_usable E (rk_iter_rev E d CHECKPOINTS)), (en, d)))"

definition restore_from_checkpoint :: "validator_checkpoint \<Rightarrow> engine \<Rightarrow> engine" where
  "restore_from_checkpoint cp en =
     en\<lparr>en_validators := cp_validators cp,
        en_current_epoch := epoch_new (cp_epoch cp) (cp_epoch_seed cp) (cp_timestamp cp),
        en_finalized_height := cp_finalized_height cp\<rparr>"

section \<open>Double signing\<close>

definition cache_block :: "('d, 'z) chain_env_scheme \<Rightarrow> block \<Rightarrow> engine \<Rightarrow> engine" where
  "cache_block E blk en =
     (let height = block_number blk;
          rec = \<lparr>br_hash = block_hash E blk, br_producer = block_producer blk, br_signature = bl_signature blk\<rparr>;
          cache = en_block_cache en;
          old = (case map_of cache height of None \<Rightarrow> [] | Some bs \<Rightarrow> bs);
          cache = AList.update height (old @ [rec]) cache;
          finalized = en_finalized_height en;
          cache = (if en_cache_depth en < finalized
                   then filter (\<lambda>(h, bs). finalized - en_cache_depth en \<le> h) cache else cache);
          cache = (case map_of cache height of
                     None \<Rightarrow> cache
                   | Some bs \<Rightarrow> if en_max_blocks_per_height en < length bs
                       then AList.update height (take (en_max_blocks_per_height en) bs) cache else cache)
      in en\<lparr>en_block_cache := cache\<rparr>)"

definition check_double_sign ::
  "('d, 'z) chain_env_scheme \<Rightarrow> u64 \<Rightarrow> block \<Rightarrow> engine \<Rightarrow> double_sign_evidence option" where
  "check_double_sign E now blk en =
     (case map_of (en_block_cache en) (block_number blk) of
        None \<Rightarrow> None
      | Some bs \<Rightarrow>
          map_option (\<lambda>existing. \<lparr>ds_validator = block_producer blk, ds_block_hash_1 = br_hash existing,
              ds_block_hash_2 = block_hash E blk, ds_height = block_number blk,
              ds_signature_1 = br_signature existing, ds_signature_2 = bl_signature blk, ds_timestamp = now\<rparr>)
            (List.find (\<lambda>r. br_producer r = block_producer blk \<and> br_hash r \<noteq> block_hash E blk) bs))"

fun decimal :: "nat \<Rightarrow> bytes" where
  "decimal n = (if n < 10 then [of_nat (48 + n)] else decimal (n div 10) @ [of_nat (48 + n mod 10)])"

declare decimal.simps [simp del]

definition hex_digit :: "nat \<Rightarrow> u8" where
  "hex_digit n = of_nat (if n < 10 then 48 + n else 87 + n)"

definition address_display :: "address \<Rightarrow> bytes" where
  "address_display a = [48, 120] @ concat (map (\<lambda>b. [hex_digit (unat b div 16), hex_digit (unat b mod 16)]) (address_as_bytes a))"

definition evidence_key :: "double_sign_evidence \<Rightarrow> bytes" where
  "evidence_key ev = decimal (unat (ds_height ev)) @ [58] @ address_display (ds_validator ev)"

definition slash_double_signer :: "validator_node \<Rightarrow> validator_node option" where
  "slash_double_signer v =
     map_option (\<lambda>slash_amount. (slash_stakes slash_amount v)\<lparr>vn_is_jailed := True,
         vn_jail_until := JAIL_DOUBLE_SIGN_MS, vn_reputation := 0\<rparr>)
       (slash_amount_of SLASH_DOUBLE_SIGN_PERCENT v)"

definition process_double_sign_evidence ::
  "('d, 'z) chain_env_scheme \<Rightarrow> double_sign_evidence \<Rightarrow> ('d, unit) cons_op" where
  "process_double_sign_evidence E ev =
     op_bind get_engine (\<lambda>en.
     op_bind (case find_validator (ds_validator ev) en of
                None \<Rightarrow> op_ret ()
              | Some v \<Rightarrow> op_bind (op_expect (slash_double_signer v)) (\<lambda>v'.
                  put_engine (with_validator (ds_validator ev) (\<lambda>_. v') en))) (\<lambda>_.
     on_cons_db (db_put E METADATA (evidence_key ev) (evidence_to_bytes E ev))))"

section \<open>Delegated stake and compute\<close>

definition add_delegated_stake :: "address \<Rightarrow> u256 \<Rightarrow> engine \<Rightarrow> engine" where
  "add_delegated_stake a amount = with_validator a (\<lambda>v.
     v\<lparr>vn_delegated_stake := u256_saturating_add (vn_delegated_stake v) amount,
       vn_delegator_count := vn_delegator_count v + 1\<rparr>)"

definition sub_delegated_stake :: "address \<Rightarrow> u256 \<Rightarrow> engine \<Rightarrow> engine" where
  "sub_delegated_stake a amount = with_validator a (\<lambda>v.
     v\<lparr>vn_delegated_stake := u256_saturating_sub (vn_delegated_stake v) amount,
       vn_delegator_count := (if 0 < vn_delegator_count v then vn_delegator_count v - 1 else vn_delegator_count v)\<rparr>)"

definition set_provides_compute :: "address \<Rightarrow> bool \<Rightarrow> engine \<Rightarrow> engine" where
  "set_provides_compute a provides = with_validator a (\<lambda>v. v\<lparr>vn_provides_compute := provides\<rparr>)"

definition update_hashrate :: "address \<Rightarrow> u64 \<Rightarrow> engine \<Rightarrow> engine" where
  "update_hashrate a hashrate = with_validator a (\<lambda>v. v\<lparr>vn_hashrate := hashrate\<rparr>)"

definition register_miner_profile ::
  "address \<Rightarrow> string \<Rightarrow> u32 \<Rightarrow> u8 \<Rightarrow> u64 \<Rightarrow> backend_type option \<Rightarrow> engine \<Rightarrow> engine" where
  "register_miner_profile a gpu_model benchmark_score gpu_tier gpu_memory_mb backend = with_validator a (\<lambda>v.
     let v' = v\<lparr>vn_gpu_model := gpu_model, vn_benchmark_score := benchmark_score, vn_gpu_tier := gpu_tier,
                vn_gpu_memory_mb := gpu_memory_mb, vn_provides_compute := True\<rparr>
     in case backend of None \<Rightarrow> v' | Some b \<Rightarrow> v'\<lparr>vn_compute_backend := Some b\<rparr>)"

definition reduce_reputation :: "address \<Rightarrow> u32 \<Rightarrow> engine \<Rightarrow> engine" where
  "reduce_reputation a reduction_bps = with_validator a (\<lambda>v.
     v\<lparr>vn_reputation := w_sat_sub (vn_reputation v) reduction_bps\<rparr>)"

definition update_inference_score :: "address \<Rightarrow> u64 \<Rightarrow> u64 \<Rightarrow> engine \<Rightarrow> engine" where
  "update_inference_score a flops tasks = with_validator a (\<lambda>v.
     v\<lparr>vn_inference_score := w_sat_add (vn_inference_score v) flops,
       vn_tasks_completed := w_sat_add (vn_tasks_completed v) tasks\<rparr>)"

definition get_hashrate :: "engine \<Rightarrow> address \<Rightarrow> u64" where
  "get_hashrate en a = (case find_validator a en of None \<Rightarrow> 0 | Some v \<Rightarrow> vn_hashrate v)"

definition total_hashrate :: "engine \<Rightarrow> u64" where
  "total_hashrate en = sum_list (map vn_hashrate (filter vn_provides_compute (en_validators en)))"

definition process_work_proof ::
  "('d, 'z) chain_env_scheme \<Rightarrow> work_proof \<Rightarrow> mining_task \<Rightarrow> engine \<Rightarrow> (consensus_error + u64) \<times> engine" where
  "process_work_proof E p t en =
     (case find_validator (wp_validator p) en of
        None \<Rightarrow> (Inl CsInvalidProducer, en)
      | Some v \<Rightarrow>
          if \<not> vn_is_active v then (Inl CsValidatorJailed, en)
          else if \<not> vn_provides_compute v then (Inl CsInvalidProducer, en)
          else (case verify_proof (blake3_hash E) p t of
                  Inl _ \<Rightarrow> (Inl CsInvalidVrfProof, en)
                | Inr _ \<Rightarrow> let hashrate = calculate_hashrate p t in
                    (Inr hashrate, update_hashrate (wp_validator p) hashrate en)))"

definition create_mining_task :: "u64 \<Rightarrow> difficulty_config \<Rightarrow> engine \<Rightarrow> mining_task" where
  "create_mining_task now c en =
     \<lparr>mt_epoch = ep_number (en_current_epoch en), mt_seed = ep_seed (en_current_epoch en),
      mt_difficulty = initial_difficulty c, mt_epoch_start = now, mt_epoch_end = now + EPOCH_DURATION_MS\<rparr>"

end
