(* ===== verification/Sample_Chain.thy ===== *)
theory Sample_Chain
  imports Sample_State Consensus "HOL-Library.Countable"
begin

text \<open>
  The concrete environment extended to consensus and chain. The types that are stored are countable,
  so that the number of a value, written in unary, is an encoding that can be decoded; the other
  encodings are constant.
\<close>

section \<open>Countable types\<close>

instance vrf_proof_ext :: (countable) countable
proof (rule countable_classI)
  fix x y :: "('z::countable) vrf_proof_scheme"
  let ?f = "\<lambda>r :: ('z::countable) vrf_proof_scheme. to_nat (vrf_output r, vrf_sig r, vrf_proof.more r)"
  assume "?f x = ?f y"
  then show "x = y" by (intro vrf_proof.equality) simp_all
qed

instance tx_type :: countable
  by countable_datatype

instance transaction_ext :: (countable) countable
proof (rule countable_classI)
  fix x y :: "('z::countable) transaction_scheme"
  let ?f = "\<lambda>r :: ('z::countable) transaction_scheme. to_nat (tx_type r, tx_chain_id r, tx_nonce r, tx_to r, tx_value r, tx_data r, tx_gas_limit r,
    tx_gas_price r, tx_public_key r, tx_signature r, transaction.more r)"
  assume "?f x = ?f y"
  then show "x = y" by (intro transaction.equality) simp_all
qed

instance log_ext :: (countable) countable
proof (rule countable_classI)
  fix x y :: "('z::countable) log_scheme"
  let ?f = "\<lambda>r :: ('z::countable) log_scheme. to_nat (log_address r, log_topics r, log_data r, log.more r)"
  assume "?f x = ?f y"
  then show "x = y" by (intro log.equality) simp_all
qed

instance trie_error :: countable
  by countable_datatype

instance state_error :: countable
  by countable_datatype

instance evm_error :: countable
  by countable_datatype

instance exec_error :: countable
  by countable_datatype

instance exec_msg :: countable
  by countable_datatype

instance receipt_status :: (countable) countable
  by countable_datatype

instance receipt_ext :: (countable, countable) countable
proof (rule countable_classI)
  fix x y :: "('e::countable, 'z::countable) receipt_scheme"
  let ?f = "\<lambda>r :: ('e::countable, 'z::countable) receipt_scheme. to_nat (r_tx_hash r, r_tx_index r, r_status r, r_cumulative_gas_used r, r_gas_used r, r_logs r,
    r_logs_bloom r, r_contract_address r, receipt.more r)"
  assume "?f x = ?f y"
  then show "x = y" by (intro receipt.equality) simp_all
qed

instance model_id_ext :: (countable) countable
proof (rule countable_classI)
  fix x y :: "('z::countable) model_id_scheme"
  let ?f = "\<lambda>r :: ('z::countable) model_id_scheme. to_nat (md_name r, md_version r, model_id.more r)"
  assume "?f x = ?f y"
  then show "x = y" by (intro model_id.equality) simp_all
qed

instance backend_type :: countable
  by countable_datatype

instance compute_task_type :: countable
  by countable_datatype

instance canonical_format :: countable
  by countable_datatype

instance inference_proof_ext :: (countable) countable
proof (rule countable_classI)
  fix x y :: "('z::countable) inference_proof_scheme"
  let ?f = "\<lambda>r :: ('z::countable) inference_proof_scheme. to_nat (ip_validator r, ip_epoch r, ip_task_type r, ip_input_hash r, ip_output_hash r,
    ip_execution_time_ms r, ip_flops_estimated r, ip_backend r, ip_canonical_format r,
    ip_timestamp r, ip_signature r, inference_proof.more r)"
  assume "?f x = ?f y"
  then show "x = y" by (intro inference_proof.equality) simp_all
qed

instance vote_decision :: countable
  by countable_datatype

instance reject_reason :: countable
  by countable_datatype

instance vote_ext :: (countable) countable
proof (rule countable_classI)
  fix x y :: "('z::countable) vote_scheme"
  let ?f = "\<lambda>r :: ('z::countable) vote_scheme. to_nat (vo_block_hash r, vo_block_height r, vo_voter r, vo_decision r, vo_reject_reason r,
    vo_timestamp r, vo_signature r, vote.more r)"
  assume "?f x = ?f y"
  then show "x = y" by (intro vote.equality) simp_all
qed

instance block_header_ext :: (countable) countable
proof (rule countable_classI)
  fix x y :: "('z::countable) block_header_scheme"
  let ?f = "\<lambda>r :: ('z::countable) block_header_scheme. to_nat (bh_version r, bh_number r, bh_parent_hash r, bh_state_root r, bh_transactions_root r,
    bh_receipts_root r, bh_proofs_root r, bh_producer r, bh_contribution_score r,
    bh_vrf_proof r, bh_timestamp r, bh_gas_limit r, bh_gas_used r, bh_extra_data r,
    block_header.more r)"
  assume "?f x = ?f y"
  then show "x = y" by (intro block_header.equality) simp_all
qed

instance block_ext :: (countable) countable
proof (rule countable_classI)
  fix x y :: "('z::countable) block_scheme"
  let ?f = "\<lambda>r :: ('z::countable) block_scheme. to_nat (bl_header r, bl_transactions r, bl_votes r, bl_inference_proofs r, bl_signature r,
    block.more r)"
  assume "?f x = ?f y"
  then show "x = y" by (intro block.equality) simp_all
qed

instance block_body_ext :: (countable) countable
proof (rule countable_classI)
  fix x y :: "('z::countable) block_body_scheme"
  let ?f = "\<lambda>r :: ('z::countable) block_body_scheme. to_nat (bb_transactions r, bb_votes r, bb_inference_proofs r, bb_signature r, block_body.more r)"
  assume "?f x = ?f y"
  then show "x = y" by (intro block_body.equality) simp_all
qed

instance validator_node_ext :: (countable) countable
proof (rule countable_classI)
  fix x y :: "('z::countable) validator_node_scheme"
  let ?f = "\<lambda>r :: ('z::countable) validator_node_scheme. to_nat (vn_address r, vn_public_key r, vn_stake r, vn_delegated_stake r, vn_commission_rate r,
    vn_delegator_count r, vn_contribution_score r, vn_uptime r, vn_accuracy r,
    vn_avg_latency_ms r, vn_bandwidth_mbps r, vn_storage_provided_gb r,
    vn_provides_compute r, vn_hashrate r, vn_compute_backend r, vn_supported_models r,
    vn_gpu_memory_mb r, vn_gpu_model r, vn_benchmark_score r, vn_gpu_tier r,
    vn_inference_score r, vn_tasks_completed r, vn_verification_pass_rate r,
    vn_reputation r, vn_registered_at r, vn_last_active r, vn_is_jailed r, vn_jail_until r,
    vn_blocks_produced r, vn_valid_votes r, vn_invalid_votes r, vn_pending_rewards r,
    validator_node.more r)"
  assume "?f x = ?f y"
  then show "x = y" by (intro validator_node.equality) simp_all
qed

instance validator_checkpoint_ext :: (countable) countable
proof (rule countable_classI)
  fix x y :: "('z::countable) validator_checkpoint_scheme"
  let ?f = "\<lambda>r :: ('z::countable) validator_checkpoint_scheme. to_nat (cp_epoch r, cp_block_height r, cp_timestamp r, cp_validators r, cp_epoch_seed r,
    cp_finalized_height r, validator_checkpoint.more r)"
  assume "?f x = ?f y"
  then show "x = y" by (intro validator_checkpoint.equality) simp_all
qed
section \<open>The environment\<close>

definition unary :: "'a::countable \<Rightarrow> bytes" where
  "unary x = replicate (to_nat x) 0"

definition of_unary :: "bytes \<Rightarrow> string + 'a::countable" where
  "of_unary bs = Inr (from_nat (length bs))"

lemma of_unary_unary [simp]: "of_unary (unary x) = Inr x"
  by (simp add: of_unary_def unary_def)

definition sample_chain_env :: "alist_db chain_env" where
  "sample_chain_env = exec_env.extend sample_env \<lparr>
     rk_iter_rev = (\<lambda>d c. rev (rk_iter_from sample_env d c [])),
     header_to_bytes = unary, header_from_bytes = of_unary,
     body_to_bytes = unary, body_from_bytes = of_unary,
     block_to_bytes = unary, block_from_bytes = of_unary,
     transaction_to_bytes = unary, transaction_from_bytes = of_unary,
     receipt_to_bytes = unary, receipt_from_bytes = of_unary,
     unsigned_vote_bytes = (\<lambda>v. [2]), unsigned_proof_bytes = (\<lambda>p. [3]), validator_to_bytes = (\<lambda>v. [4]),
     checkpoint_to_bytes = unary, checkpoint_from_bytes = of_unary,
     evidence_to_bytes = (\<lambda>e. [5])\<rparr>"

lemma sample_chain_env_rocks [simp]:
  "rk_get sample_chain_env = rk_get sample_env" "rk_put sample_chain_env = rk_put sample_env"
  "rk_delete sample_chain_env = rk_delete sample_env" "rk_write sample_chain_env = rk_write sample_env"
  "rk_iter_from sample_chain_env = rk_iter_from sample_env"
  "blake3_hash sample_chain_env = blake3_hash sample_env" "node_to_bytes sample_chain_env = node_to_bytes sample_env"
  "node_from_bytes sample_chain_env = node_from_bytes sample_env"
  "node_cache_get sample_chain_env = node_cache_get sample_env"
  "node_cache_put sample_chain_env = node_cache_put sample_env" "dirty_order sample_chain_env = dirty_order sample_env"
  by (simp_all add: sample_chain_env_def exec_env.defs)

lemma sample_chain_env_state [simp]:
  "account_to_bytes sample_chain_env = sample_account_bytes" "account_parse sample_chain_env = sample_account_parse"
  "undelegation_to_bytes sample_chain_env = sample_undelegation_bytes"
  "undelegation_from_bytes sample_chain_env = sample_undelegation_parse"
  "account_cache_get sample_chain_env = (\<lambda>c k. (map_of c k, c))" "account_cache_put sample_chain_env = (\<lambda>c k v. [(k, v)])"
  "storage_cache_get sample_chain_env = (\<lambda>c k. (map_of c k, c))" "storage_cache_put sample_chain_env = (\<lambda>c k v. [(k, v)])"
  "code_cache_get sample_chain_env = (\<lambda>c k. (map_of c k, c))" "code_cache_put sample_chain_env = (\<lambda>c k v. [(k, v)])"
  "accounts_order sample_chain_env = rev" "storage_order sample_chain_env = rev"
  "ed_env sample_chain_env = \<lparr>ed_key_valid = (\<lambda>k. True), ed_verify = (\<lambda>k m s. s = k @ m)\<rparr>"
  "unsigned_tx_bytes sample_chain_env = (\<lambda>t. [of_nat (unat (utx_nonce t))])"
  by (simp_all add: sample_chain_env_def sample_env_def exec_env.defs state_env.defs trie_env.defs rocks.defs)

lemma sample_chain_env_codecs [simp]:
  "rk_iter_rev sample_chain_env = (\<lambda>d c. rev (rk_iter_from sample_env d c []))"
  "header_to_bytes sample_chain_env = unary" "header_from_bytes sample_chain_env = of_unary"
  "body_to_bytes sample_chain_env = unary" "body_from_bytes sample_chain_env = of_unary"
  "block_to_bytes sample_chain_env = unary" "block_from_bytes sample_chain_env = of_unary"
  "transaction_to_bytes sample_chain_env = unary" "transaction_from_bytes sample_chain_env = of_unary"
  "receipt_to_bytes sample_chain_env = unary" "receipt_from_bytes sample_chain_env = of_unary"
  "checkpoint_to_bytes sample_chain_env = unary" "checkpoint_from_bytes sample_chain_env = of_unary"
  by (simp_all add: sample_chain_env_def exec_env.defs)

lemma sample_chain_env_state_ok: "state_env_ok sample_chain_env"
  unfolding state_env_ok_def
proof (intro conjI allI)
  show "trie_env_ok sample_chain_env" by (rule trie_env_ok_cong) simp_all
qed (simp_all add: sample_account_roundtrip sample_undelegation_roundtrip lru_ok_def lru_keys_def map_le_def)

lemma sample_chain_env_ok: "chain_env_ok sample_chain_env"
  unfolding chain_env_ok_def using sample_chain_env_state_ok by simp

end
