(* ===== verification/Consensus_Properties.thy ===== *)
theory Consensus_Properties
  imports Sample_Chain
begin

text \<open>
  What the consensus engine guarantees: finality needs 67 of 100 registered validators, so that two
  finalized blocks share more than a third of them; leaders rotate; every node that registered the
  same validators judges a block alike; what a scheduled validator produces is accepted; metrics,
  slashing and checkpoints.
\<close>

section \<open>Association lists and updates\<close>

lemma votes_for_update [simp]:
  "votes_for (en\<lparr>en_pending_votes := AList.update h vs (en_pending_votes en)\<rparr>) k =
     (if k = h then vs else votes_for en k)"
  by (simp add: votes_for_def update_conv)

lemma update_first_map:
  "(\<And>x. P x \<Longrightarrow> g (f x) = g x) \<Longrightarrow> map g (update_first P f xs) = map g xs"
  by (induction xs) auto

lemma set_update_first: "set (update_first P f xs) \<subseteq> set xs \<union> f ` {x \<in> set xs. P x}"
  by (induction xs) auto

lemma length_update_first [simp]: "length (update_first P f xs) = length xs"
  by (induction xs) auto

lemma with_validator_others [simp]:
  "en_pending_votes (with_validator a f en) = en_pending_votes en"
  "en_own_votes (with_validator a f en) = en_own_votes en"
  "en_block_cache (with_validator a f en) = en_block_cache en"
  "en_max_blocks_per_height (with_validator a f en) = en_max_blocks_per_height en"
  "en_config (with_validator a f en) = en_config en"
  "en_genesis_seed (with_validator a f en) = en_genesis_seed en"
  by (simp_all add: with_validator_def)

section \<open>Finality\<close>

text \<open>The registered validators among the accepting votes an engine holds for a block.\<close>

definition accepting :: "engine \<Rightarrow> hash \<Rightarrow> address set" where
  "accepting en h = vn_address ` set (en_validators en) \<inter> vo_voter ` {v \<in> set (votes_for en h). is_accept v}"

definition one_vote_each :: "engine \<Rightarrow> bool" where
  "one_vote_each en \<longleftrightarrow> (\<forall>h. distinct (map vo_voter (votes_for en h)))"

lemma card_accepting_le: "card (accepting en h) \<le> length (en_validators en)"
proof -
  have "card (accepting en h) \<le> card (vn_address ` set (en_validators en))"
    unfolding accepting_def by (intro card_mono) auto
  also have "\<dots> \<le> length (en_validators en)"
    using card_image_le [of "set (en_validators en)" vn_address] card_length [of "en_validators en"] by simp
  finally show ?thesis .
qed

lemma accept_count:
  assumes "one_vote_each en"
  shows "length (filter (\<lambda>v. list_ex (\<lambda>val. vn_address val = vo_voter v) (en_validators en))
      (filter is_accept (votes_for en h))) = card (accepting en h)"
proof -
  let ?vs = "filter (\<lambda>v. list_ex (\<lambda>val. vn_address val = vo_voter v) (en_validators en))
      (filter is_accept (votes_for en h))"
  have "distinct (map vo_voter ?vs)"
    using assms by (intro distinct_map_filter) (simp add: one_vote_each_def)
  then have "card (set (map vo_voter ?vs)) = length (map vo_voter ?vs)" by (rule distinct_card)
  then have "length ?vs = card (vo_voter ` set ?vs)" unfolding set_map length_map by (rule sym)
  also have "vo_voter ` set ?vs = accepting en h"
    by (auto simp: accepting_def list_ex_iff image_iff) metis
  finally show ?thesis .
qed

lemma check_finality_iff:
  assumes "one_vote_each en" "cc_finality_threshold (en_config en) = FINALITY_THRESHOLD"
    and "length (en_validators en) < 2 ^ 32"
  shows "check_finality en h \<longleftrightarrow>
    en_validators en \<noteq> [] \<and> 67 * length (en_validators en) \<le> 100 * card (accepting en h)"
proof (cases "en_validators en = [] \<or> map_of (en_pending_votes en) h = None")
  case True
  then have "check_finality en h = False" by (auto simp: check_finality_def Let_def split: option.splits)
  moreover have "card (accepting en h) = 0" if "map_of (en_pending_votes en) h = None"
    using that by (simp add: accepting_def votes_for_def)
  ultimately show ?thesis using True by auto
next
  case False
  then obtain vs where vs: "map_of (en_pending_votes en) h = Some vs" "votes_for en h = vs"
    by (auto simp: votes_for_def)
  have ne: "en_validators en \<noteq> []" using False by blast
  have "card (accepting en h) < 2 ^ 32" using card_accepting_le [of en h] assms(3) by (rule le_less_trans)
  moreover have "0 < length (en_validators en)" using ne by blast
  ultimately have ratio: "f64_067 \<le> f64_div (f64_of_nat (card (accepting en h))) (f64_of_nat (length (en_validators en))) \<longleftrightarrow>
      67 * length (en_validators en) \<le> 100 * card (accepting en h)"
    using assms(3) f64_ratio_ge by blast
  have "check_finality en h \<longleftrightarrow>
      f64_067 \<le> f64_div (f64_of_nat (card (accepting en h))) (f64_of_nat (length (en_validators en)))"
    unfolding check_finality_def vs(1) option.case Let_def
    unfolding vs(2) [symmetric] accept_count [OF assms(1)] assms(2) FINALITY_THRESHOLD_def
    using ne by (simp only: length_0_conv if_False)
  then show ?thesis unfolding ratio using ne by blast
qed

lemma quorums_overlap:
  assumes "finite U" "A \<subseteq> U" "B \<subseteq> U" "67 * card U \<le> 100 * card A" "67 * card U \<le> 100 * card B"
  shows "34 * card U \<le> 100 * card (A \<inter> B)"
proof -
  have fin: "finite A" "finite B" using assms(1-3) finite_subset by auto
  have "card A + card B = card (A \<union> B) + card (A \<inter> B)" by (rule card_Un_Int [OF fin])
  moreover have "card (A \<union> B) \<le> card U" using assms(1-3) by (intro card_mono) auto
  ultimately show ?thesis using assms(4,5) by simp
qed
section \<open>Metrics\<close>

definition metrics_ok :: "validator_node \<Rightarrow> bool" where
  "metrics_ok v \<longleftrightarrow> vn_uptime v \<le> 10000 \<and> vn_accuracy v \<le> 10000 \<and> vn_reputation v \<le> 10000"

lemma unat_ucast_u32_u64 [simp]: "unat (ucast (x :: u32) :: u64) = unat x"
  using unsigned_less [of x, where 'a = nat] by (simp add: unsigned_ucast_eq take_bit_nat_eq_self)

lemma unat_ucast_u64_u32: "unat (ucast (x :: u64) :: u32) \<le> unat x"
  by (simp add: unsigned_ucast_eq)

lemma unat_scaled:
  "unat (a :: u32) \<le> 10000 \<Longrightarrow> unat (b :: u64) \<le> 10000 \<Longrightarrow> c \<le> 99 \<Longrightarrow>
   unat (ucast a * of_nat c + b) = unat a * c + unat b"
proof -
  assume a: "unat a \<le> 10000" "unat b \<le> 10000" "c \<le> 99"
  then have "unat a * c \<le> 10000 * 99" by (intro mult_mono) simp_all
  then show ?thesis using a by (simp add: unat_word_ariths unat_of_nat)
qed

lemma ema_bound:
  assumes "(a :: u32) \<le> 10000" "unat (b :: u64) \<le> 10000" "0 < k" "c \<le> 99" "10000 * c + unat b \<le> 10000 * k" "k < 2 ^ 64"
  shows "(ucast ((ucast a * of_nat c + b) div of_nat k) :: u32) \<le> 10000"
proof -
  have a: "unat a \<le> 10000" using assms(1) by (simp add: word_le_nat_alt)
  have "unat a * c \<le> 10000 * c" using a by (rule mult_le_mono1)
  then have "unat a * c + unat b \<le> 10000 * k" using assms(5) by linarith
  then have "(unat a * c + unat b) div k \<le> 10000 * k div k" by (rule div_le_mono)
  then have "(unat a * c + unat b) div k \<le> 10000" using assms(3) by simp
  then have "unat ((ucast a * of_nat c + b) div of_nat k) \<le> 10000"
    using assms(6) by (simp add: unat_div unat_scaled [OF a assms(2,4)] unat_of_nat)
  from order_trans [OF unat_ucast_u64_u32 this] show ?thesis by (simp add: word_le_nat_alt)
qed

lemma slash_reputation_le: "r \<le> 10000 \<Longrightarrow> slash_reputation r \<le> 10000"
proof -
  assume r: "r \<le> 10000"
  show ?thesis
  proof (cases "2000 \<le> r")
    case True
    then have "r - 2000 \<le> r" by (simp add: word_sub_le)
    then have "r - 2000 \<le> 10000" using r by (rule order_trans)
    then show ?thesis by (simp add: slash_reputation_def Let_def)
  next
    case False
    then have "uint r < 2000" "0 \<le> uint r" by (simp_all add: word_le_def)
    moreover have "r - 2000 = word_of_int (uint r - 2000)" by simp
    then have "sint (r - 2000) = signed_take_bit 31 (uint r - 2000)" by (simp only: sint_sbintrunc') simp
    ultimately have "sint (r - 2000) < 0" by (simp add: signed_take_bit_int_eq_self)
    then show ?thesis by (simp add: slash_reputation_def)
  qed
qed
section \<open>The invariant of the engine\<close>

lemma set_update_distinct:
  "distinct (map fst xs) \<Longrightarrow> set (AList.update k v xs) = insert (k, v) {x \<in> set xs. fst x \<noteq> k}"
  by (induction xs) (auto simp: image_iff)

lemma update_all:
  assumes "distinct (map fst xs)" "Q k v" "\<forall>(h, b) \<in> set xs. h \<noteq> k \<longrightarrow> Q h b"
  shows "distinct (map fst (AList.update k v xs)) \<and> (\<forall>(h, b) \<in> set (AList.update k v xs). Q h b)"
proof (intro conjI ballI)
  show "distinct (map fst (AList.update k v xs))" by (rule distinct_update [OF assms(1)])
  fix x assume "x \<in> set (AList.update k v xs)"
  then have "x = (k, v) \<or> x \<in> set xs \<and> fst x \<noteq> k" using set_update_distinct [OF assms(1)] by blast
  then show "case x of (h, b) \<Rightarrow> Q h b" using assms(2,3) by (cases x) auto
qed

text \<open>
  Metrics are percentages of hundredths; for each block an engine holds at most one vote of each voter,
  filed under the block it is for; it remembers one own vote per height and at most
  \<open>max_blocks_per_height\<close> blocks per height.
\<close>

definition votes_ok :: "(hash \<times> vote list) list \<Rightarrow> bool" where
  "votes_ok ps \<longleftrightarrow> distinct (map fst ps) \<and>
     (\<forall>(h, vs) \<in> set ps. distinct (map vo_voter vs) \<and> (\<forall>v \<in> set vs. vo_block_hash v = h))"

definition cache_ok :: "nat \<Rightarrow> (u64 \<times> block_record list) list \<Rightarrow> bool" where
  "cache_ok n cs \<longleftrightarrow> distinct (map fst cs) \<and> (\<forall>(h, bs) \<in> set cs. length bs \<le> n)"

definition engine_inv :: "engine \<Rightarrow> bool" where
  "engine_inv en \<longleftrightarrow> (\<forall>v \<in> set (en_validators en). metrics_ok v) \<and> votes_ok (en_pending_votes en) \<and>
     distinct (map fst (en_own_votes en)) \<and> cache_ok (en_max_blocks_per_height en) (en_block_cache en)"

text \<open>Every operation of the engine that changes its state.\<close>

inductive engine_step :: "('d, 'z) chain_env_scheme \<Rightarrow> engine \<Rightarrow> engine \<Rightarrow> bool" for E where
  register: "\<forall>v \<in> set vs. metrics_ok v \<Longrightarrow> engine_step E en (update_validators vs en)"
| restore: "\<forall>v \<in> set (cp_validators cp). metrics_ok v \<Longrightarrow> engine_step E en (restore_from_checkpoint cp en)"
| network: "engine_step E en (set_network_state st en)"
| scores: "engine_step E en (update_contribution_scores en)"
| seed: "engine_step E en (set_genesis_seed s en)"
| advance: "engine_step E en (snd (maybe_advance_epoch E now en))"
| vote_in: "engine_step E en (add_vote v en)"
| own_vote: "engine_step E en (snd (try_record_own_vote height h en))"
| finalize: "engine_step E en (set_finalized_height height en)"
| prune: "engine_step E en (prune_old_votes height en)"
| produced: "engine_step E en (record_block_produced now a en)"
| voted: "engine_step E en (record_vote now a ok en)"
| uptime: "engine_step E en (update_validator_uptime a expected actual en)"
| latency: "engine_step E en (record_latency a ms en)"
| slash: "slash_validator now a pct jail en = Some en' \<Longrightarrow> engine_step E en en'"
| unjail: "engine_step E en (process_unjails now en)"
| cache: "engine_step E en (cache_block E blk en)"
| evidence: "find_validator a en = Some v \<Longrightarrow> slash_double_signer v = Some v' \<Longrightarrow>
    engine_step E en (with_validator a (\<lambda>_. v') en)"
| delegate: "engine_step E en (add_delegated_stake a amount en)"
| undelegate: "engine_step E en (sub_delegated_stake a amount en)"
| compute: "engine_step E en (set_provides_compute a b en)"
| hashrate: "engine_step E en (update_hashrate a rate en)"
| profile: "engine_step E en (register_miner_profile a model score tier memory backend en)"
| reduce: "engine_step E en (reduce_reputation a bps en)"
| inference: "engine_step E en (update_inference_score a flops tasks en)"
| work: "engine_step E en (snd (process_work_proof E p t en))"

definition fresh_engine :: "engine \<Rightarrow> bool" where
  "fresh_engine en \<longleftrightarrow> (\<exists>c. en = engine_new c) \<or> (\<exists>c k a. en = engine_new_validator c k a)"

lemma with_validator_inv:
  assumes "engine_inv en" "\<And>v. v \<in> set (en_validators en) \<Longrightarrow> metrics_ok v \<Longrightarrow> metrics_ok (f v)"
  shows "engine_inv (with_validator a f en)"
  using assms set_update_first [of "\<lambda>v. vn_address v = a" f "en_validators en"]
  by (fastforce simp: engine_inv_def with_validator_def)

lemma map_validators_inv:
  assumes "engine_inv en" "\<And>v. metrics_ok v \<Longrightarrow> metrics_ok (f v)"
  shows "engine_inv (en\<lparr>en_validators := map f (en_validators en)\<rparr>)"
  using assms by (simp add: engine_inv_def)

lemma update_contribution_scores_inv: "engine_inv en \<Longrightarrow> engine_inv (update_contribution_scores en)"
  unfolding update_contribution_scores_def Let_def by (rule map_validators_inv) (simp_all add: metrics_ok_def)

lemma maybe_advance_epoch_inv: "engine_inv en \<Longrightarrow> engine_inv (snd (maybe_advance_epoch E now en))"
  by (auto simp: maybe_advance_epoch_def start_epoch_def Let_def engine_inv_def split: sum.splits
      intro!: update_contribution_scores_inv [unfolded engine_inv_def])

lemma add_vote_inv:
  assumes "engine_inv en"
  shows "engine_inv (add_vote v en)"
proof -
  have ok: "votes_ok (en_pending_votes en)" using assms by (simp add: engine_inv_def)
  define vs where "vs = votes_for en (vo_block_hash v)"
  have vs: "distinct (map vo_voter vs)" "\<forall>w \<in> set vs. vo_block_hash w = vo_block_hash v"
    using ok by (auto simp: vs_def votes_for_def votes_ok_def split: option.splits dest: map_of_SomeD)
  have "votes_ok (AList.update (vo_block_hash v) (vs @ [v]) (en_pending_votes en))" if "\<not> list_ex (\<lambda>w. vo_voter w = vo_voter v) vs"
    unfolding votes_ok_def
  proof (rule update_all)
    show "distinct (map vo_voter (vs @ [v])) \<and> (\<forall>w \<in> set (vs @ [v]). vo_block_hash w = vo_block_hash v)"
      using vs that by (auto simp: list_ex_iff)
  qed (use ok in \<open>auto simp: votes_ok_def\<close>)
  then show ?thesis using assms by (simp add: add_vote_def Let_def engine_inv_def vs_def)
qed

lemma cache_block_inv:
  assumes "engine_inv en"
  shows "engine_inv (cache_block E blk en)"
proof -
  let ?n = "en_max_blocks_per_height en" and ?h = "block_number blk"
  have ok: "cache_ok ?n (en_block_cache en)" using assms by (simp add: engine_inv_def)
  have trunc: "cache_ok ?n (case map_of cs ?h of None \<Rightarrow> cs | Some bs \<Rightarrow>
      if ?n < length bs then AList.update ?h (take ?n bs) cs else cs)"
    if "distinct (map fst cs)" "\<forall>(h, bs) \<in> set cs. h \<noteq> ?h \<longrightarrow> length bs \<le> ?n" for cs
  proof (cases "map_of cs ?h")
    case None
    then have "h \<noteq> ?h" if "(h, bs) \<in> set cs" for h bs using that by (auto simp: map_of_eq_None_iff image_iff)
    then show ?thesis using None that by (fastforce simp: cache_ok_def)
  next
    case (Some bs)
    then have "c = bs" if "(?h, c) \<in> set cs" for c
      using map_of_is_SomeI [OF \<open>distinct (map fst cs)\<close> that] by simp
    then have "cache_ok ?n cs" if "length bs \<le> ?n" using that \<open>distinct (map fst cs)\<close> \<open>\<forall>(h, bs) \<in> set cs. _ h bs\<close>
      by (fastforce simp: cache_ok_def)
    moreover have "cache_ok ?n (AList.update ?h (take ?n bs) cs)" using that unfolding cache_ok_def by (intro update_all) auto
    ultimately show ?thesis using Some by simp
  qed
  have upd: "distinct (map fst (AList.update ?h bs (en_block_cache en)))"
    "\<forall>(h, bs) \<in> set (AList.update ?h bs (en_block_cache en)). h \<noteq> ?h \<longrightarrow> length bs \<le> ?n" for bs
    using ok by (auto simp: cache_ok_def set_update_distinct distinct_update)
  have filt: "distinct (map fst (if b then filter P cs else cs))"
    "\<forall>(h, bs) \<in> set (if b then filter P cs else cs). h \<noteq> ?h \<longrightarrow> length bs \<le> ?n"
    if "distinct (map fst cs)" "\<forall>(h, bs) \<in> set cs. h \<noteq> ?h \<longrightarrow> length bs \<le> ?n" for b P cs
    using that by (auto intro: distinct_map_filter)
  have "en_block_cache (en\<lparr>en_block_cache := c\<rparr>) = c" for c by simp
  then have "cache_ok ?n (en_block_cache (cache_block E blk en))"
    unfolding cache_block_def Let_def by (simp only:) (intro trunc filt upd)
  then show ?thesis using assms by (simp add: engine_inv_def cache_block_def Let_def)
qed
lemma slash_stakes_metrics [simp]: "metrics_ok (slash_stakes x v) = metrics_ok v"
  by (simp add: slash_stakes_def metrics_ok_def Let_def)

lemma slash_node_metrics: "slash_node now pct jail v = Some v' \<Longrightarrow> metrics_ok v \<Longrightarrow> metrics_ok v'"
  by (auto simp: slash_node_def Let_def metrics_ok_def slash_stakes_def slash_reputation_le split: option.splits if_splits)

lemma find_validator_in: "find_validator a en = Some v \<Longrightarrow> v \<in> set (en_validators en) \<and> vn_address v = a"
  by (auto simp: find_validator_def find_Some_iff)

lemma slash_validator_inv:
  assumes "engine_inv en" "slash_validator now a pct jail en = Some en'"
  shows "engine_inv en'"
proof (cases "find_validator a en")
  case (Some v)
  then obtain v' where v': "slash_node now pct jail v = Some v'" "en' = with_validator a (\<lambda>_. v') en"
    using assms(2) by (auto simp: slash_validator_def)
  have "metrics_ok v" using find_validator_in [OF Some] assms(1) by (simp add: engine_inv_def)
  then have "metrics_ok v'" by (rule slash_node_metrics [OF v'(1)])
  then show ?thesis unfolding v'(2) by (intro with_validator_inv [OF assms(1)])
qed (use assms in \<open>simp add: slash_validator_def\<close>)

lemma evidence_inv:
  assumes "engine_inv en" "slash_double_signer v = Some v'" "find_validator a en = Some v"
  shows "engine_inv (with_validator a (\<lambda>_. v') en)"
proof (rule with_validator_inv [OF assms(1)])
  have "metrics_ok v" using find_validator_in [OF assms(3)] assms(1) by (simp add: engine_inv_def)
  then show "metrics_ok v'" using assms(2)
    by (auto simp: slash_double_signer_def metrics_ok_def slash_stakes_def Let_def)
qed

lemma process_work_proof_inv: "engine_inv en \<Longrightarrow> engine_inv (snd (process_work_proof E p t en))"
  by (auto simp: process_work_proof_def update_hashrate_def Let_def metrics_ok_def split: option.splits sum.splits
      intro!: with_validator_inv)

lemma record_vote_inv: "engine_inv en \<Longrightarrow> engine_inv (record_vote now a ok en)"
  unfolding record_vote_def
proof (rule with_validator_inv)
  fix v assume v: "metrics_ok v"
  have "(ucast ((ucast (vn_accuracy v) * 99 + 10000 :: u64) div 100) :: u32) \<le> 10000"
    using ema_bound [of "vn_accuracy v" 10000 100 99] v by (simp add: metrics_ok_def)
  moreover have "(ucast ((ucast (vn_accuracy v) * 99 :: u64) div 100) :: u32) \<le> 10000"
    using ema_bound [of "vn_accuracy v" 0 100 99] v by (simp add: metrics_ok_def)
  ultimately show "metrics_ok ((if ok then v\<lparr>vn_valid_votes := vn_valid_votes v + 1,
          vn_accuracy := ucast ((ucast (vn_accuracy v) * 99 + 10000 :: u64) div 100)\<rparr>
      else v\<lparr>vn_invalid_votes := vn_invalid_votes v + 1,
          vn_accuracy := ucast ((ucast (vn_accuracy v) * 99 :: u64) div 100)\<rparr>)\<lparr>vn_last_active := now\<rparr>)"
    using v by (simp add: metrics_ok_def)
qed

lemma update_validator_uptime_inv: "engine_inv en \<Longrightarrow> engine_inv (update_validator_uptime a expected actual en)"
proof (cases "expected = 0")
  case False
  assume inv: "engine_inv en"
  let ?p = "ucast (min (actual * 10000 div expected) 10000) :: u32"
  have "unat ?p \<le> unat (min (actual * 10000 div expected) 10000)" by (rule unat_ucast_u64_u32)
  also have "\<dots> \<le> 10000" by (simp add: min_def word_le_nat_alt)
  finally have "unat (ucast ?p :: u64) \<le> 10000" by simp
  then have "(ucast ((ucast u * 9 + ucast ?p :: u64) div 10) :: u32) \<le> 10000" if "u \<le> 10000" for u :: u32
    using ema_bound [of u "ucast ?p" 10 9] that by simp
  then have "engine_inv (with_validator a (\<lambda>v. v\<lparr>vn_uptime := ucast ((ucast (vn_uptime v) * 9 + ucast ?p :: u64) div 10)\<rparr>) en)"
    by (intro with_validator_inv [OF inv]) (simp add: metrics_ok_def)
  then show ?thesis using False by (simp add: update_validator_uptime_def Let_def)
qed (simp add: update_validator_uptime_def)
lemma record_block_produced_inv: "engine_inv en \<Longrightarrow> engine_inv (record_block_produced now a en)"
  unfolding record_block_produced_def by (rule with_validator_inv) (simp_all add: metrics_ok_def)

lemma reduce_reputation_inv: "engine_inv en \<Longrightarrow> engine_inv (reduce_reputation a bps en)"
  unfolding reduce_reputation_def
proof (rule with_validator_inv)
  fix v assume "metrics_ok v"
  moreover have "w_sat_sub (vn_reputation v) bps \<le> vn_reputation v"
    by (simp add: word_le_nat_alt unat_sat_sub)
  ultimately show "metrics_ok (v\<lparr>vn_reputation := w_sat_sub (vn_reputation v) bps\<rparr>)"
    by (auto simp: metrics_ok_def intro: order_trans)
qed

lemma prune_old_votes_inv: "engine_inv en \<Longrightarrow> engine_inv (prune_old_votes h en)"
  by (auto simp: engine_inv_def prune_old_votes_def votes_ok_def intro: distinct_map_filter)

lemma try_record_own_vote_inv: "engine_inv en \<Longrightarrow> engine_inv (snd (try_record_own_vote n h en))"
  by (auto simp: engine_inv_def try_record_own_vote_def intro: distinct_update split: option.splits)

lemma setters_inv:
  assumes "engine_inv en"
  shows "\<forall>v \<in> set vs. metrics_ok v \<Longrightarrow> engine_inv (update_validators vs en)"
    and "\<forall>v \<in> set (cp_validators cp). metrics_ok v \<Longrightarrow> engine_inv (restore_from_checkpoint cp en)"
    and "engine_inv (set_network_state st en)" "engine_inv (set_genesis_seed s en)"
    and "engine_inv (set_finalized_height h en)"
  using assms by (simp_all add: engine_inv_def update_validators_def restore_from_checkpoint_def
      set_network_state_def set_genesis_seed_def set_finalized_height_def split: option.split)

lemma unmeasured_inv:
  assumes "engine_inv en"
  shows "engine_inv (record_latency a ms en)" "engine_inv (add_delegated_stake a amount en)"
    "engine_inv (sub_delegated_stake a amount en)" "engine_inv (set_provides_compute a b en)"
    "engine_inv (update_hashrate a rate en)" "engine_inv (update_inference_score a flops tasks en)"
    "engine_inv (register_miner_profile a model sc tier memory backend en)"
  unfolding record_latency_def add_delegated_stake_def sub_delegated_stake_def set_provides_compute_def
    update_hashrate_def update_inference_score_def register_miner_profile_def
  by (rule with_validator_inv [OF assms], simp add: metrics_ok_def Let_def split: option.split)+

lemma process_unjails_inv: "engine_inv en \<Longrightarrow> engine_inv (process_unjails now en)"
  unfolding process_unjails_def by (rule map_validators_inv) (simp_all add: metrics_ok_def)

lemmas engine_inv_ops = setters_inv unmeasured_inv process_unjails_inv update_contribution_scores_inv
  maybe_advance_epoch_inv add_vote_inv try_record_own_vote_inv prune_old_votes_inv
  record_block_produced_inv record_vote_inv update_validator_uptime_inv slash_validator_inv
  cache_block_inv evidence_inv process_work_proof_inv reduce_reputation_inv

lemma engine_step_inv: "engine_inv en \<Longrightarrow> engine_step E en en' \<Longrightarrow> engine_inv en'"
  by (erule engine_step.cases) (simp_all add: engine_inv_ops)

lemma fresh_engine_inv: "fresh_engine en \<Longrightarrow> engine_inv en"
  by (auto simp: fresh_engine_def engine_inv_def engine_new_def engine_new_validator_def votes_ok_def cache_ok_def)

interpretation eng: invariant_system fresh_engine "engine_step E" engine_inv for E
  by unfold_locales (rule fresh_engine_inv, assumption, rule engine_step_inv)

lemma engine_inv_one_vote: "engine_inv en \<Longrightarrow> one_vote_each en"
  by (auto simp: one_vote_each_def engine_inv_def votes_ok_def votes_for_def split: option.splits dest: map_of_SomeD)

text \<open>A node with two validators that both accepted the block with hash \<open>[7]\<close>.\<close>

definition sample_validator :: "address \<Rightarrow> validator_node" where
  "sample_validator a = validator_default\<lparr>vn_address := a, vn_public_key := [ucast a], vn_stake := 1000\<rparr>"

definition voted_engine :: engine where
  "voted_engine = add_vote (vote_accept [7] 1 2 0) (add_vote (vote_accept [7] 1 1 0)
     (update_validators [sample_validator 1, sample_validator 2] (engine_new consensus_config_default)))"

lemma voted_engine_reachable:
  "(engine_step sample_chain_env)\<^sup>*\<^sup>* (engine_new consensus_config_default) voted_engine"
proof -
  let ?e = "update_validators [sample_validator 1, sample_validator 2] (engine_new consensus_config_default)"
  have "engine_step sample_chain_env (engine_new consensus_config_default) ?e"
    by (rule engine_step.register) (simp add: sample_validator_def metrics_ok_def validator_default_def)
  moreover have "engine_step sample_chain_env e (add_vote v e)" for e v by (rule engine_step.vote_in)
  ultimately show ?thesis unfolding voted_engine_def by (meson r_into_rtranclp rtranclp_trans)
qed

lemma voted_engine_fields:
  "en_validators voted_engine = [sample_validator 1, sample_validator 2]"
  "en_config voted_engine = consensus_config_default" "accepting voted_engine [7] = {1, 2}"
proof -
  show vs: "en_validators voted_engine = [sample_validator 1, sample_validator 2]"
    "en_config voted_engine = consensus_config_default"
    by (simp_all add: voted_engine_def add_vote_def update_validators_def engine_new_def Let_def)
  have "votes_for voted_engine [7] = [vote_accept [7] 1 1 0, vote_accept [7] 1 2 0]"
    by (simp add: voted_engine_def add_vote_def votes_for_def update_validators_def engine_new_def vote_accept_def)
  moreover have "{v \<in> set [vote_accept [7] 1 1 0, vote_accept [7] 1 2 0]. is_accept v} =
      {vote_accept [7] 1 1 0, vote_accept [7] 1 2 0}" by (auto simp: is_accept_def vote_accept_def)
  ultimately show "accepting voted_engine [7] = {1, 2}"
    unfolding accepting_def vs by (simp add: vote_accept_def sample_validator_def)
qed

lemma voted_engine_final: "check_finality voted_engine [7]"
proof -
  have "fresh_engine (engine_new consensus_config_default)" by (auto simp: fresh_engine_def)
  then have "one_vote_each voted_engine"
    by (intro engine_inv_one_vote eng.reachable_inv [OF _ voted_engine_reachable])
  then show ?thesis by (subst check_finality_iff) (simp_all add: voted_engine_fields consensus_config_default_def)
qed

text \<open>C9: in every state an engine can reach from a new one, by any sequence of its operations in which
  validators are registered with metrics of at most 100%, uptime, accuracy and reputation stay
  at most 100%, and a block is final exactly when at least 67 of 100 registered validators, each
  counted once, have voted to accept it.\<close>

theorem engine_reachable:
  assumes "fresh_engine en0" "(engine_step E)\<^sup>*\<^sup>* en0 en"
    and "cc_finality_threshold (en_config en) = FINALITY_THRESHOLD" "length (en_validators en) < 2 ^ 32"
  shows "(v \<in> set (en_validators en) \<longrightarrow> vn_uptime v \<le> 10000 \<and> vn_accuracy v \<le> 10000 \<and> vn_reputation v \<le> 10000) \<and>
    (check_finality en h \<longleftrightarrow>
       en_validators en \<noteq> [] \<and> 67 * length (en_validators en) \<le> 100 * card (accepting en h))"
proof -
  have inv: "engine_inv en" by (rule eng.reachable_inv [OF assms(1,2)])
  show ?thesis using check_finality_iff [OF engine_inv_one_vote [OF inv] assms(3,4)] inv
    by (simp add: engine_inv_def metrics_ok_def)
qed

theorem engine_reachable_witness:
  "vn_uptime (sample_validator 1) \<le> 10000 \<and> (check_finality voted_engine [7] \<longleftrightarrow> 67 * 2 \<le> 100 * card {1 :: address, 2})"
  using engine_reachable [OF _ voted_engine_reachable, of "sample_validator 1" "[7]"]
  by (auto simp: fresh_engine_def voted_engine_fields consensus_config_default_def)

text \<open>C8: two nodes that registered the same validators and hold any votes can both take a block for final
  only when at least 34 of 100 validators voted to accept both. As long as fewer than that vote twice
  at one height, no two blocks of one height are final.\<close>

theorem finality_quorum:
  assumes "fresh_engine a0" "(engine_step E)\<^sup>*\<^sup>* a0 a" "fresh_engine b0" "(engine_step E)\<^sup>*\<^sup>* b0 b"
    and "cc_finality_threshold (en_config a) = FINALITY_THRESHOLD" "cc_finality_threshold (en_config b) = FINALITY_THRESHOLD"
    and "length (en_validators a) < 2 ^ 32" "length (en_validators b) < 2 ^ 32"
    and "distinct (map vn_address (en_validators a))" "distinct (map vn_address (en_validators b))"
    and "vn_address ` set (en_validators a) = vn_address ` set (en_validators b)"
    and "check_finality a h" "check_finality b k"
  shows "34 * length (en_validators a) \<le> 100 * card (accepting a h \<inter> accepting b k)"
proof -
  let ?U = "vn_address ` set (en_validators a)"
  have U: "card ?U = length (en_validators a)" "card ?U = length (en_validators b)"
    using distinct_card [OF assms(9)] distinct_card [OF assms(10)] assms(11) by simp_all
  have fin: "67 * length (en_validators a) \<le> 100 * card (accepting a h)"
    "67 * length (en_validators b) \<le> 100 * card (accepting b k)"
    using check_finality_iff [OF engine_inv_one_vote [OF eng.reachable_inv [OF assms(1,2)]] assms(5,7), of h]
      check_finality_iff [OF engine_inv_one_vote [OF eng.reachable_inv [OF assms(3,4)]] assms(6,8), of k]
      assms(12,13) by blast+
  show ?thesis unfolding U(1) [symmetric]
  proof (rule quorums_overlap)
    show "67 * card ?U \<le> 100 * card (accepting a h)" using fin(1) U(1) by simp
    show "67 * card ?U \<le> 100 * card (accepting b k)" using fin(2) U(2) by simp
  qed (auto simp: accepting_def assms(11))
qed

theorem finality_quorum_witness: "34 * 2 \<le> 100 * card (accepting voted_engine [7] \<inter> accepting voted_engine [7])"
  using finality_quorum [OF _ voted_engine_reachable _ voted_engine_reachable, of "[7]" "[7]"] voted_engine_final
  by (auto simp: fresh_engine_def voted_engine_fields consensus_config_default_def sample_validator_def)

end
