(* ===== verification/Consensus_Blocks.thy ===== *)
theory Consensus_Blocks
  imports Consensus_Properties
begin

text \<open>
  Leader election, block production and validation, slashing and checkpoints of the consensus
  engine: rotation of the leaders, agreement of nodes with the same registered validators,
  acceptance of what a scheduled validator produces, the amounts of a slash, and a restart from the
  latest checkpoint.
\<close>

section \<open>Sample nodes\<close>

text \<open>A node of the validator with address 1, which signs by appending the message to its public key.\<close>

definition sample_node :: "validator_node list \<Rightarrow> engine" where
  "sample_node vs = set_genesis_seed [9] (update_validators vs
     (engine_new_validator consensus_config_default (\<lambda>m. [1] @ m) 1))"

lemma sample_node_fields [simp]:
  "en_validators (sample_node vs) = vs" "en_genesis_seed (sample_node vs) = Some [9]"
  "en_validator_key (sample_node vs) = Some (\<lambda>m. [1] @ m)" "en_address (sample_node vs) = Some 1"
  "en_current_epoch (sample_node vs) = epoch_default" "en_finalized_height (sample_node vs) = 0"
  by (simp_all add: sample_node_def set_genesis_seed_def update_validators_def engine_new_validator_def)

lemma sample_validator_fields [simp]:
  "vn_address (sample_validator a) = a" "vn_public_key (sample_validator a) = [ucast a]"
  "vn_stake (sample_validator a) = 1000" "vn_delegated_stake (sample_validator a) = 0"
  by (simp_all add: sample_validator_def validator_default_def)

section \<open>The election set\<close>

definition registration :: "validator_node \<Rightarrow> address \<times> bytes" where
  "registration v = (vn_address v, vn_public_key v)"

definition distinct_validators :: "engine \<Rightarrow> bool" where
  "distinct_validators en \<longleftrightarrow> distinct (map vn_address (en_validators en))"

definition same_registry :: "engine \<Rightarrow> engine \<Rightarrow> bool" where
  "same_registry a b \<longleftrightarrow> distinct_validators a \<and> distinct_validators b \<and>
     registration ` set (en_validators a) = registration ` set (en_validators b) \<and>
     en_genesis_seed a = en_genesis_seed b"

lemma election_set_registration: "election_set en = sort_key fst (map registration (en_validators en))"
  by (simp add: election_set_def registration_def [abs_def])

lemma length_election_set [simp]: "length (election_set en) = length (en_validators en)"
  by (simp add: election_set_def)

lemma fst_election_set: "fst ` set (election_set en) = vn_address ` set (en_validators en)"
  by (auto simp: election_set_def image_image)

lemma distinct_election_set:
  assumes "distinct_validators en"
  shows "distinct (map fst (election_set en))"
proof -
  have "mset (map fst (election_set en)) = mset (map vn_address (en_validators en))"
    by (simp add: election_set_def image_mset.compositionality comp_def)
  then show ?thesis using assms mset_eq_imp_distinct_iff unfolding distinct_validators_def by blast
qed

lemma same_registry_election_set:
  assumes "same_registry a b"
  shows "election_set a = election_set b"
proof -
  have fst_reg: "map vn_address xs = map fst (map registration xs)" for xs by (simp add: registration_def comp_def)
  have dist: "distinct (map fst (map registration (en_validators a)))" "distinct (map fst (map registration (en_validators b)))"
    using assms unfolding same_registry_def distinct_validators_def fst_reg by simp_all
  then have "distinct (map registration (en_validators a))" "distinct (map registration (en_validators b))"
    by (simp_all only: distinct_map)
  then have "mset (map registration (en_validators a)) = mset (map registration (en_validators b))"
    using assms by (intro set_eq_iff_mset_eq_distinct [THEN iffD1]) (simp_all add: same_registry_def)
  moreover have "inj_on fst (set (map registration (en_validators a)))" using dist(1) by (simp only: distinct_map)
  ultimately show ?thesis unfolding election_set_registration
    by (intro sort_key_inj_key_eq) simp_all
qed

lemma find_validator_iff:
  assumes "distinct_validators en"
  shows "find_validator x en = Some v \<longleftrightarrow> v \<in> set (en_validators en) \<and> vn_address v = x"
proof
  assume v: "v \<in> set (en_validators en) \<and> vn_address v = x"
  then obtain w where w: "find_validator x en = Some w"
    by (cases "find_validator x en") (auto simp: find_validator_def find_None_iff)
  then have "w = v" using find_validator_in [OF w] v assms
    unfolding distinct_validators_def distinct_map inj_on_def by blast
  then show "find_validator x en = Some v" using w by simp
qed (rule find_validator_in)

lemma find_validator_key:
  assumes "distinct_validators en"
  shows "map_option vn_public_key (find_validator x en) = Some k \<longleftrightarrow> (x, k) \<in> registration ` set (en_validators en)"
  by (auto simp: find_validator_iff [OF assms] registration_def)

lemma same_registry_key:
  assumes "same_registry a b"
  shows "map_option vn_public_key (find_validator x a) = map_option vn_public_key (find_validator x b)"
proof (rule option.expand)
  note key = find_validator_key [of a x] find_validator_key [of b x]
  show "(map_option vn_public_key (find_validator x a) = None) = (map_option vn_public_key (find_validator x b) = None)"
    using assms key unfolding same_registry_def by (metis not_None_eq)
  show "the (map_option vn_public_key (find_validator x a)) = the (map_option vn_public_key (find_validator x b))"
    if "map_option vn_public_key (find_validator x a) \<noteq> None" "map_option vn_public_key (find_validator x b) \<noteq> None"
    using assms key that unfolding same_registry_def by (metis option.collapse)
qed

lemma same_registry_select:
  "same_registry a b \<Longrightarrow> select_producer_with_seed a slot seed = select_producer_with_seed b slot seed"
  by (simp add: select_producer_with_seed_def same_registry_election_set)

lemma same_registry_seed: "same_registry a b \<Longrightarrow> derive_epoch_seed E a n = derive_epoch_seed E b n"
  by (simp add: derive_epoch_seed_def same_registry_def)

lemma same_registry_candidates:
  assumes "same_registry a b"
  shows "check_candidates E a blk pk slots m = check_candidates E b blk pk slots m"
  by (induction slots arbitrary: m)
    (simp_all add: same_registry_seed [OF assms] same_registry_select [OF assms] split: sum.split)
section \<open>Rotation\<close>

lemma select_producer_idx:
  assumes "en_validators en \<noteq> []" "unat slot + k + unat (seed_offset seed) < 2 ^ 64" "length (en_validators en) < 2 ^ 64"
  shows "select_producer_with_seed en (slot + of_nat k) seed =
    Some (fst (election_set en ! ((unat slot + unat (seed_offset seed) + k) mod length (en_validators en))))"
proof -
  have "election_set en \<noteq> []" using assms(1) length_election_set [of en] by fastforce
  moreover have "unat (slot + of_nat k + seed_offset seed) = unat slot + unat (seed_offset seed) + k"
    using assms(2) by (simp add: unat_word_ariths unat_of_nat)
  ultimately show ?thesis using assms(3)
    by (simp add: select_producer_with_seed_def Let_def unat_mod unat_of_nat)
qed

lemma mod_rotation:
  assumes "i < (n :: nat)"
  shows "\<exists>!k. k < n \<and> (s + k) mod n = i"
proof (rule ex_ex1I)
  define r where "r = s mod n"
  define k where "k = (if r \<le> i then i - r else n + i - r)"
  have r: "r < n" using assms by (simp add: r_def)
  then have k: "k < n" "r + k = i \<or> r + k = n + i" using assms by (auto simp: k_def)
  have "(s + k) mod n = (r + k) mod n" by (simp only: r_def mod_add_left_eq)
  then have "(s + k) mod n = i" using k(2) assms by auto
  then show "\<exists>k. k < n \<and> (s + k) mod n = i" using k(1) by blast
next
  fix k l assume kl: "k < n \<and> (s + k) mod n = i" "l < n \<and> (s + l) mod n = i"
  have eq: "x = y" if "x \<le> y" "y < n" "(s + x) mod n = (s + y) mod n" for x y
  proof -
    have "n dvd (s + y) - (s + x)" using that(1,3) by (subst mod_eq_dvd_iff_nat [symmetric]) simp_all
    then have "n dvd y - x" by simp
    moreover have "y - x < n" using that(2) by simp
    ultimately have "y - x = 0" using nat_dvd_not_less [of "y - x" n] by blast
    then show ?thesis using that(1) by simp
  qed
  from kl nat_le_linear [of k l] show "k = l" using eq [of k l] eq [of l k] by fastforce
qed

text \<open>C10: under one epoch seed, every registered validator leads exactly one of any as many consecutive
  slots as there are validators, when the slot numbers do not wrap around.\<close>

theorem leader_rotation:
  assumes "distinct (map vn_address (en_validators en))" "v \<in> set (en_validators en)"
    and "unat slot + length (en_validators en) + unat (seed_offset seed) < 2 ^ 64"
  shows "\<exists>!k. k < length (en_validators en) \<and>
    select_producer_with_seed en (slot + of_nat k) seed = Some (vn_address v)"
proof -
  let ?n = "length (en_validators en)" and ?s = "unat slot + unat (seed_offset seed)"
  have "vn_address v \<in> fst ` set (election_set en)" using assms(2) by (simp add: fst_election_set)
  then obtain i where i: "i < ?n" "fst (election_set en ! i) = vn_address v"
    by (auto simp: in_set_conv_nth image_iff)
  have idx: "fst (election_set en ! j) = vn_address v \<longleftrightarrow> j = i" if "j < ?n" for j
    using nth_eq_iff_index_eq [OF distinct_election_set, of en j i] assms(1) that i
    by (simp add: distinct_validators_def)
  have "select_producer_with_seed en (slot + of_nat k) seed = Some (vn_address v) \<longleftrightarrow> (?s + k) mod ?n = i"
    if "k < ?n" for k
  proof -
    have "en_validators en \<noteq> []" using assms(2) by auto
    then have "select_producer_with_seed en (slot + of_nat k) seed = Some (fst (election_set en ! ((?s + k) mod ?n)))"
      using that assms(3) by (intro select_producer_idx) simp_all
    moreover have "(?s + k) mod ?n < ?n" using i(1) by (intro mod_less_divisor) linarith
    ultimately show ?thesis using idx by simp
  qed
  then show ?thesis using mod_rotation [OF i(1), of ?s] by metis
qed

theorem leader_rotation_witness:
  "\<exists>!k. k < 2 \<and> select_producer_with_seed (sample_node [sample_validator 1, sample_validator 2]) (0 + of_nat k) [] = Some 2"
proof -
  have "\<exists>!k. k < Suc (Suc 0) \<and>
      select_producer_with_seed (sample_node [sample_validator 1, sample_validator 2]) (0 + of_nat k) [] = Some 2"
    using leader_rotation [of "sample_node [sample_validator 1, sample_validator 2]" "sample_validator 2" 0 "[]"]
    by (simp add: seed_offset_def be_nat_def)
  then show ?thesis by (simp only: numeral_2_eq_2)
qed

section \<open>Agreement\<close>

lemma same_registry_validate:
  assumes "same_registry a b"
  shows "validate_block E a now blk parent = validate_block E b now blk parent"
proof -
  have key: "map_option vn_public_key (find_validator (block_producer blk) a) =
      map_option vn_public_key (find_validator (block_producer blk) b)" by (rule same_registry_key [OF assms])
  show ?thesis
  proof (cases "find_validator (block_producer blk) a")
    case None
    then show ?thesis using key by (simp add: validate_block_def)
  next
    case (Some v)
    then obtain w where w: "find_validator (block_producer blk) b = Some w" "vn_public_key v = vn_public_key w"
      using key by (cases "find_validator (block_producer blk) b") auto
    show ?thesis unfolding validate_block_def Some w option.case same_registry_candidates [OF assms] by (rule refl)
  qed
qed

text \<open>C12: nodes that registered the same validators and share the genesis seed elect the same leader for
  every slot and judge every block alike, whatever their stakes, scores, votes, jails and epochs.\<close>

theorem validate_block_agree:
  assumes "same_registry a b"
  shows "select_producer E a slot = select_producer E b slot \<and>
    validate_block E a now blk parent = validate_block E b now blk parent"
  unfolding select_producer_def same_registry_seed [OF assms] same_registry_select [OF assms]
  using same_registry_validate [OF assms] by blast

theorem validate_block_agree_witness:
  "validate_block sample_chain_env (sample_node [sample_validator 1, sample_validator 2]) 5 block_default block_default =
   validate_block sample_chain_env (sample_node [(sample_validator 2)\<lparr>vn_stake := 3\<rparr>, sample_validator 1]) 5 block_default block_default"
  using validate_block_agree [of "sample_node [sample_validator 1, sample_validator 2]"
      "sample_node [(sample_validator 2)\<lparr>vn_stake := 3\<rparr>, sample_validator 1]" sample_chain_env 0 5 block_default block_default]
  by (simp add: same_registry_def distinct_validators_def registration_def insert_commute)

text \<open>C29: validation does not look at the transactions beyond their number, the votes or the signature of
  a block, and neither does its hash: two blocks with the same header and different transactions
  are the same block for the engine.\<close>

theorem validate_block_ignores_body:
  assumes "length txs \<le> MAX_TRANSACTIONS_PER_BLOCK" "length (bl_transactions blk) \<le> MAX_TRANSACTIONS_PER_BLOCK"
  shows "validate_block E en now (blk\<lparr>bl_transactions := txs, bl_votes := vs, bl_signature := sig\<rparr>) parent =
      validate_block E en now blk parent \<and>
    block_hash E (blk\<lparr>bl_transactions := txs, bl_votes := vs, bl_signature := sig\<rparr>) = block_hash E blk"
proof -
  let ?b = "blk\<lparr>bl_transactions := txs, bl_votes := vs, bl_signature := sig\<rparr>"
  have cand: "check_candidates E en ?b pk slots m = check_candidates E en blk pk slots m" for pk slots m
    by (induction slots arbitrary: m) (simp_all add: block_fields split: sum.split)
  have f: "block_number ?b = block_number blk" "block_parent_hash ?b = block_parent_hash blk"
    "block_timestamp ?b = block_timestamp blk" "block_producer ?b = block_producer blk"
    "bl_header ?b = bl_header blk" "bl_inference_proofs ?b = bl_inference_proofs blk"
    "(MAX_TRANSACTIONS_PER_BLOCK < length (bl_transactions ?b)) = False"
    "(MAX_TRANSACTIONS_PER_BLOCK < length (bl_transactions blk)) = False"
    using assms by (simp_all add: block_fields)
  show ?thesis unfolding validate_block_def block_hash_def f cand by (rule conjI; rule refl)
qed
section \<open>Production\<close>

theorem validate_block_ignores_body_witness:
  "block_hash sample_chain_env (block_default\<lparr>bl_transactions := [tx_default], bl_votes := [], bl_signature := [1]\<rparr>) =
   block_hash sample_chain_env block_default"
  using validate_block_ignores_body [of "[tx_default]" block_default sample_chain_env "sample_node []" 0 "[1]" "[]" block_default]
  by (simp add: block_default_def MAX_TRANSACTIONS_PER_BLOCK_def)

text \<open>The key of a node belongs to the validator registered under its address.\<close>

definition key_registered :: "('d, 'z) chain_env_scheme \<Rightarrow> engine \<Rightarrow> bool" where
  "key_registered E en \<longleftrightarrow> (\<exists>key a v. en_validator_key en = Some key \<and> en_address en = Some a \<and>
     find_validator a en = Some v \<and> ed_key_valid (ed_env E) (vn_public_key v) \<and>
     (\<forall>m. ed_verify (ed_env E) (vn_public_key v) m (key m)))"

lemma vrf_prove_verifies:
  "ed_key_valid ed pk \<Longrightarrow> ed_verify ed pk input (sign input) \<Longrightarrow>
   vrf_verify H ed pk input (vrf_prove H sign input) = Inr (H (sign input))"
  by (simp add: vrf_verify_def vrf_prove_def verify_signature_def Let_def)

lemma candidate_slots_first: "\<exists>rest. candidate_slots ts = slot_of_timestamp ts # rest"
  by (simp add: candidate_slots_def Let_def)

section \<open>Slashing\<close>


lemma find_with_validator:
  assumes "find_validator a en = Some v" "vn_address v' = a"
  shows "find_validator a (with_validator a (\<lambda>_. v') en) = Some v'"
    and "b \<noteq> a \<Longrightarrow> find_validator b (with_validator a (\<lambda>_. v') en) = find_validator b en"
proof -
  have "List.find (\<lambda>v. vn_address v = a) (update_first (\<lambda>v. vn_address v = a) (\<lambda>_. v') xs) = Some v'"
    if "List.find (\<lambda>v. vn_address v = a) xs = Some v" for xs
    using that assms(2) by (induction xs) (auto split: if_splits)
  then show "find_validator a (with_validator a (\<lambda>_. v') en) = Some v'"
    using assms(1) by (simp add: find_validator_def with_validator_def)
  have "List.find (\<lambda>v. vn_address v = b) (update_first (\<lambda>v. vn_address v = a) (\<lambda>_. v') xs) = List.find (\<lambda>v. vn_address v = b) xs"
    if "b \<noteq> a" for xs using that assms(2) by (induction xs) auto
  then show "b \<noteq> a \<Longrightarrow> find_validator b (with_validator a (\<lambda>_. v') en) = find_validator b en"
    by (simp add: find_validator_def with_validator_def)
qed

lemma unat_total_stake:
  "unat (vn_stake v) + unat (vn_delegated_stake v) < 2 ^ 256 \<Longrightarrow>
   unat (vn_total_stake v) = unat (vn_stake v) + unat (vn_delegated_stake v)"
  by (simp add: vn_total_stake_def u256_saturating_add_exact)

lemma slash_stakes_exact:
  assumes "unat x \<le> unat (vn_stake v) + unat (vn_delegated_stake v)"
  shows "unat (vn_stake (slash_stakes x v)) + unat (vn_delegated_stake (slash_stakes x v)) =
      unat (vn_stake v) + unat (vn_delegated_stake v) - unat x"
    and "vn_stake (slash_stakes x v) \<noteq> 0 \<Longrightarrow> vn_delegated_stake (slash_stakes x v) = vn_delegated_stake v"
proof -
  have min: "unat (min x (vn_stake v)) = min (unat x) (unat (vn_stake v))" by (simp add: min_def word_le_nat_alt)
  have st: "unat (vn_stake (slash_stakes x v)) = unat (vn_stake v) - unat x"
    by (simp add: slash_stakes_def Let_def min) (simp add: min_def)
  have zero: "u256_is_zero y \<longleftrightarrow> unat y = 0" for y by (simp add: u256_is_zero_def unat_eq_0)
  have de: "unat (vn_delegated_stake (slash_stakes x v)) = unat (vn_delegated_stake v) - (unat x - unat (vn_stake v))"
    by (simp add: slash_stakes_def Let_def zero min)
  show "unat (vn_stake (slash_stakes x v)) + unat (vn_delegated_stake (slash_stakes x v)) =
      unat (vn_stake v) + unat (vn_delegated_stake v) - unat x" using assms by (simp add: st de)
  show "vn_delegated_stake (slash_stakes x v) = vn_delegated_stake v" if "vn_stake (slash_stakes x v) \<noteq> 0"
  proof -
    have "unat (vn_stake (slash_stakes x v)) \<noteq> 0" using that by (simp add: unat_eq_0)
    then show ?thesis unfolding word_unat_eq_iff using st de by simp
  qed
qed

lemma slash_amount_of_exact:
  assumes "unat (vn_stake v) + unat (vn_delegated_stake v) < 2 ^ 256"
    and "(unat (vn_stake v) + unat (vn_delegated_stake v)) * unat pct < 2 ^ 256"
  obtains x where "slash_amount_of pct v = Some x"
    "unat x = (unat (vn_stake v) + unat (vn_delegated_stake v)) * unat pct div 100"
proof -
  let ?t = "vn_total_stake v" and ?p = "u256_from_u64 pct"
  have t: "unat ?t = unat (vn_stake v) + unat (vn_delegated_stake v)" by (rule unat_total_stake [OF assms(1)])
  have prod: "unat (?t * ?p) = unat ?t * unat pct"
    using assms(2) t by (simp add: unat_word_ariths)
  have hundred: "unat (u256_from_u64 100) = 100" "u256_from_u64 100 \<noteq> 0"
    by (simp_all add: u256_from_u64_def)
  have "slash_amount_of pct v = Some (?t * ?p div u256_from_u64 100)"
    using assms(2) t hundred(2) by (simp add: slash_amount_of_def u256_mul_def u256_div_def w_checked_mul_def w_checked_div_def)
  then show thesis by (rule that) (simp add: unat_div prod hundred(1) t)
qed

text \<open>C27: slashing takes exactly the given percentage of direct and delegated stake together, rounded down,
  direct stake first, jails for the given time and leaves every other validator alone.\<close>

theorem slash_validator_exact:
  assumes "find_validator a en = Some v" "unat (vn_stake v) + unat (vn_delegated_stake v) < 2 ^ 256"
    and "(unat (vn_stake v) + unat (vn_delegated_stake v)) * unat pct < 2 ^ 256" "unat pct \<le> 100"
  shows "\<exists>en' v'. slash_validator now a pct jail en = Some en' \<and> find_validator a en' = Some v' \<and>
    unat (vn_stake v') + unat (vn_delegated_stake v') =
      (unat (vn_stake v) + unat (vn_delegated_stake v)) - (unat (vn_stake v) + unat (vn_delegated_stake v)) * unat pct div 100 \<and>
    (vn_stake v' \<noteq> 0 \<longrightarrow> vn_delegated_stake v' = vn_delegated_stake v) \<and>
    (0 < jail \<longrightarrow> vn_is_jailed v' \<and> (jail = JAIL_PERMANENT_MS \<longrightarrow> is_permanently_jailed v')) \<and>
    (\<forall>b. b \<noteq> a \<longrightarrow> find_validator b en' = find_validator b en)"
proof -
  let ?t = "unat (vn_stake v) + unat (vn_delegated_stake v)"
  have pct: "unat (ucast pct :: u64) = unat pct"
    using unsigned_less [of pct, where 'a = nat] by (simp add: unsigned_ucast_eq take_bit_nat_eq_self)
  obtain x where x: "slash_amount_of (ucast pct) v = Some x" "unat x = ?t * unat pct div 100"
    using slash_amount_of_exact [OF assms(2), of "ucast pct"] assms(3) pct by metis
  have "?t * unat pct \<le> ?t * 100" using assms(4) by (rule mult_le_mono2)
  then have le: "unat x \<le> ?t" unfolding x(2) using div_le_mono [of "?t * unat pct" "?t * 100" 100] by simp
  obtain v' where v': "slash_node now pct jail v = Some v'" by (simp add: slash_node_def x(1) Let_def)
  then have fields: "vn_address v' = vn_address v" "vn_stake v' = vn_stake (slash_stakes x v)"
    "vn_delegated_stake v' = vn_delegated_stake (slash_stakes x v)"
    "0 < jail \<longrightarrow> vn_is_jailed v' \<and> (jail = JAIL_PERMANENT_MS \<longrightarrow> is_permanently_jailed v')"
    by (auto simp: slash_node_def x(1) Let_def slash_stakes_def is_permanently_jailed_def JAIL_PERMANENT_MS_def)
  have addr: "vn_address v' = a" using find_validator_in [OF assms(1)] fields(1) by simp
  have "slash_validator now a pct jail en = Some (with_validator a (\<lambda>_. v') en)"
    by (simp add: slash_validator_def assms(1) v')
  then show ?thesis
    using find_with_validator [OF assms(1) addr] slash_stakes_exact [OF le] fields(2-4) x(2) by auto
qed
section \<open>Checkpoints\<close>

theorem slash_validator_exact_witness:
  "\<exists>en' v'. slash_validator 0 1 50 7 (sample_node [sample_validator 1]) = Some en' \<and> find_validator 1 en' = Some v' \<and>
     unat (vn_stake v') + unat (vn_delegated_stake v') = 500"
proof -
  have "find_validator 1 (sample_node [sample_validator 1]) = Some (sample_validator 1)" by (simp add: find_validator_def)
  from slash_validator_exact [OF this, of 50 0 7] show ?thesis by auto
qed

lemma fold_batch_put: "fold (\<lambda>v. batch_put c (f v) (g v)) vs b = b @ map (\<lambda>v. BatchPut c (f v) (g v)) vs"
  by (induction vs arbitrary: b) (simp_all add: batch_put_def)

lemma fold_batch_delete: "fold (batch_delete c) ks b = b @ map (BatchDelete c) ks"
  by (induction ks arbitrary: b) (simp_all add: batch_delete_def)

lemma fold_puts_other: "c \<noteq> c' \<Longrightarrow> fold apply_batch_op (map (\<lambda>v. BatchPut c (f v) (g v)) vs) m c' = m c'"
  by (induction vs arbitrary: m) simp_all

lemma fold_deletes: "fold apply_batch_op (map (BatchDelete c) ks) m c k = (if k \<in> set ks then None else m c k)"
  by (induction ks arbitrary: m) simp_all

lemma checkpoint_batch_kv:
  "fold apply_batch_op (checkpoint_batch E en cp keys) m CHECKPOINTS k =
     (if k \<in> set (pruned_checkpoints (checkpoint_key (cp_epoch cp)) keys) then None
      else if k = checkpoint_key (cp_epoch cp) then Some (checkpoint_to_bytes E cp) else m CHECKPOINTS k)"
  unfolding checkpoint_batch_def Let_def fold_batch_put fold_batch_delete
  by (simp add: batch_put_def fold_deletes fold_puts_other)

lemma ok_keys_Inr [simp]: "ok_keys (map Inr xs) = map fst xs"
  by (induction xs) (auto simp: ok_keys_def List.map_filter_simps)

lemma pruned_subset: "set (pruned_checkpoints key keys) \<subseteq> set keys - {key}"
  unfolding pruned_checkpoints_def Let_def using set_take_subset by fastforce

lemma kept_checkpoints:
  assumes "distinct keys"
  shows "card (insert key (set keys) - set (pruned_checkpoints key keys)) \<le> CHECKPOINT_RETENTION"
proof -
  define ex where "ex = filter (\<lambda>k. k \<noteq> key) keys"
  define n where "n = length ex + 1 - CHECKPOINT_RETENTION"
  have pruned: "pruned_checkpoints key keys = take n ex"
    by (simp add: pruned_checkpoints_def ex_def n_def Let_def)
  have "set ex = set (take n ex) \<union> set (drop n ex)" by (metis append_take_drop_id set_append)
  moreover have "set ex = set keys - {key}" by (auto simp: ex_def)
  ultimately have "insert key (set keys) - set (take n ex) \<subseteq> insert key (set (drop n ex))" by blast
  then have "card (insert key (set keys) - set (take n ex)) \<le> card (insert key (set (drop n ex)))"
    by (intro card_mono) simp_all
  also have "\<dots> \<le> Suc (length (drop n ex))"
    using card_length [of "drop n ex"] card_insert_le_m1 [of "Suc (length (drop n ex))" "set (drop n ex)" key] by simp
  also have "\<dots> \<le> CHECKPOINT_RETENTION" by (simp add: n_def CHECKPOINT_RETENTION_def)
  finally show ?thesis unfolding pruned .
qed

lemma last_of_sorted:
  assumes "sorted_wrt (<) (map fst xs)" "(k, v) \<in> set xs" "\<forall>x \<in> set xs. fst x \<le> (k :: 'a::linorder)"
  shows "\<exists>ys. xs = ys @ [(k, v)]"
  using assms
proof (induction xs rule: rev_induct)
  case (snoc x xs)
  have lt: "\<forall>y \<in> set xs. fst y < fst x" using snoc.prems(1) by (auto simp: sorted_wrt_append)
  then have "(k, v) \<notin> set xs" using snoc.prems(3) by fastforce
  then show ?case using snoc.prems(2) by auto
qed simp

lemma newest_checkpoint:
  assumes "chain_env_ok E" "kv E d CHECKPOINTS (checkpoint_key (cp_epoch cp)) = Some (checkpoint_to_bytes E cp)"
    and "\<forall>k v. kv E d CHECKPOINTS k = Some v \<longrightarrow> k \<le> checkpoint_key (cp_epoch cp)" "cp_validators cp \<noteq> []"
  shows "load_latest_checkpoint E (en, d) = (Inr (Some cp), (en, d))"
proof -
  let ?e = "(checkpoint_key (cp_epoch cp), checkpoint_to_bytes E cp)"
  have "rocks_ok E" using assms(1) state_env_okD(2) [of E] by (simp add: chain_env_ok_def)
  then obtain ys where ys: "rk_iter_from E d CHECKPOINTS [] = map Inr ys" "sorted_wrt (<) (map fst ys)"
    "\<forall>x v. (x, v) \<in> set ys \<longleftrightarrow> [] \<le> x \<and> kv E d CHECKPOINTS x = Some v"
    using rocks_okD(5) [of E] by blast
  have e: "?e \<in> set ys" using ys(3) assms(2) by simp
  have "\<forall>y \<in> set ys. fst y \<le> checkpoint_key (cp_epoch cp)" using ys(3) assms(3) by (metis prod.collapse)
  from last_of_sorted [OF ys(2) e this] obtain zs where "ys = zs @ [?e]" by blast
  then have "rk_iter_rev E d CHECKPOINTS = Inr ?e # rev (map Inr zs)"
    using assms(1) ys(1) by (simp add: chain_env_ok_def)
  moreover have "checkpoint_from_bytes E (checkpoint_to_bytes E cp) = Inr cp" using assms(1) by (simp add: chain_env_ok_def)
  ultimately show ?thesis using assms(4) by (simp add: load_latest_checkpoint_def)
qed

text \<open>C28: a checkpoint whose epoch is not before any that is stored is the one found after a restart: the
  engine restored from it has the validators, the epoch, its seed and the finalized height it was
  made with, and at most 64 checkpoints are kept.\<close>

theorem checkpoint_restart:
  assumes "chain_env_ok E" "en_validators en \<noteq> []"
    and "\<forall>k v. kv E d CHECKPOINTS k = Some v \<longrightarrow> k \<le> checkpoint_key (ep_number (en_current_epoch en))"
  shows "\<exists>cp d'. create_checkpoint E now height (en, d) = (Inr cp, (en, d')) \<and>
    load_latest_checkpoint E (en', d') = (Inr (Some cp), (en', d')) \<and>
    en_validators (restore_from_checkpoint cp en') = en_validators en \<and>
    ep_number (en_current_epoch (restore_from_checkpoint cp en')) = ep_number (en_current_epoch en) \<and>
    ep_seed (en_current_epoch (restore_from_checkpoint cp en')) = ep_seed (en_current_epoch en) \<and>
    en_finalized_height (restore_from_checkpoint cp en') = en_finalized_height en \<and>
    card (dom (kv E d' CHECKPOINTS)) \<le> CHECKPOINT_RETENTION"
proof -
  define cp where "cp = checkpoint_of en now height"
  define key where "key = checkpoint_key (cp_epoch cp)"
  have ok: "rocks_ok E" using assms(1) state_env_okD(2) [of E] by (simp add: chain_env_ok_def)
  obtain xs where xs: "rk_iter_from E d CHECKPOINTS [] = map Inr xs" "sorted_wrt (<) (map fst xs)"
    "\<forall>x v. (x, v) \<in> set xs \<longleftrightarrow> [] \<le> x \<and> kv E d CHECKPOINTS x = Some v"
    using rocks_okD(5) [OF ok] by blast
  define pruned where "pruned = pruned_checkpoints key (map fst xs)"
  obtain d' where d': "rk_write E d (checkpoint_batch E en cp (map fst xs)) = (Inr (), d')"
    "kv E d' = fold apply_batch_op (checkpoint_batch E en cp (map fst xs)) (kv E d)"
    using rocks_okD(4) [OF ok] by blast
  have kv': "kv E d' CHECKPOINTS k = (if k \<in> set pruned then None
      else if k = key then Some (checkpoint_to_bytes E cp) else kv E d CHECKPOINTS k)" for k
    unfolding d'(2) checkpoint_batch_kv by (simp add: key_def pruned_def)
  have dom: "set (map fst xs) = dom (kv E d CHECKPOINTS)" using xs(3) by (force simp: dom_def image_iff)
  have "create_checkpoint E now height (en, d) = (Inr cp, (en, d'))"
    using d'(1) xs(1) by (simp add: create_checkpoint_def db_try_iter_from_def on_cons_db_def db_write_batch_def Let_def
        flip: cp_def)
  moreover have "load_latest_checkpoint E (en', d') = (Inr (Some cp), (en', d'))"
  proof (rule newest_checkpoint [OF assms(1)])
    have "key \<notin> set pruned" using pruned_subset [of key "map fst xs"] by (auto simp: pruned_def)
    then show "kv E d' CHECKPOINTS (checkpoint_key (cp_epoch cp)) = Some (checkpoint_to_bytes E cp)"
      by (simp add: kv' key_def)
    show "\<forall>k v. kv E d' CHECKPOINTS k = Some v \<longrightarrow> k \<le> checkpoint_key (cp_epoch cp)"
      using assms(3) by (auto simp: kv' key_def cp_def checkpoint_of_def split: if_splits)
    show "cp_validators cp \<noteq> []" using assms(2) by (simp add: cp_def checkpoint_of_def)
  qed
  moreover have "card (dom (kv E d' CHECKPOINTS)) \<le> CHECKPOINT_RETENTION"
  proof -
    have "distinct (map fst xs)" using xs(2) by (simp add: strict_sorted_iff)
    moreover have "dom (kv E d' CHECKPOINTS) = insert key (set (map fst xs)) - set pruned"
      unfolding dom by (auto simp: dom_def kv' split: if_splits)
    ultimately show ?thesis unfolding pruned_def using kept_checkpoints by metis
  qed
  ultimately show ?thesis
    by (intro exI [of _ cp] exI [of _ d']) (simp add: restore_from_checkpoint_def cp_def checkpoint_of_def epoch_new_def)
qed

theorem checkpoint_restart_witness:
  "\<exists>cp d'. create_checkpoint sample_chain_env 5 3 (sample_node [sample_validator 1], empty_db) = (Inr cp, (sample_node [sample_validator 1], d')) \<and>
     en_validators (restore_from_checkpoint cp (sample_node [])) = [sample_validator 1]"
proof -
  have "kv sample_chain_env empty_db c k = None" for c k by (simp add: kv_def empty_db_def)
  then show ?thesis
    using checkpoint_restart [OF sample_chain_env_ok, of "sample_node [sample_validator 1]" empty_db 5 3 "sample_node []"]
    by fastforce
qed

end
