(* ===== verification/Pow_Properties.thy ===== *)
theory Pow_Properties
  imports Pow
begin

text \<open>
  What difficulty adjustment keeps and how far it moves the target, and that a nonce found by mining
  passes verification.
\<close>

section \<open>Widths\<close>

lemma unat_ucast_up: "LENGTH('a) \<le> LENGTH('b) \<Longrightarrow> unat (ucast (x :: 'a::len word) :: 'b::len word) = unat x"
proof -
  assume le: "LENGTH('a) \<le> LENGTH('b)"
  have "unat x < 2 ^ LENGTH('a)" using unsigned_less [of x, where 'a = nat] by simp
  also have "\<dots> \<le> 2 ^ LENGTH('b)" using le by (rule power_increasing) simp
  finally show ?thesis by (simp add: unsigned_ucast_eq take_bit_nat_eq_self)
qed

lemma unat_ucast_small: "unat (x :: u128) < 2 ^ 64 \<Longrightarrow> unat (ucast x :: u64) = unat x"
  by (simp add: unsigned_ucast_eq take_bit_nat_eq_self)

lemma u256_mul_div:
  assumes "unat (a :: u256) * unat p < 2 ^ 256" "unat q \<noteq> 0"
  obtains x where "Option.bind (u256_mul a (u256_from_u64 p)) (\<lambda>x. u256_div x (u256_from_u64 q)) = Some x"
    "unat x = unat a * unat p div unat q"
proof -
  have q: "u256_from_u64 q \<noteq> 0" using assms(2) by (metis unat_0 unat_u256_from_u64)
  show thesis using assms q
    by (intro that [of "a * u256_from_u64 p div u256_from_u64 q"])
      (simp_all add: u256_mul_def u256_div_def w_checked_mul_def w_checked_div_def unat_div unat_word_ariths)
qed

section \<open>Difficulty\<close>

definition difficulty_config_ok :: "difficulty_config \<Rightarrow> bool" where
  "difficulty_config_ok c \<longleftrightarrow> 0 < dc_target_proofs_per_epoch c \<and> dc_max_difficulty c \<le> dc_min_difficulty c \<and>
     unat (dc_max_adjustment_percent c) \<le> 100 \<and>
     unat (dc_min_difficulty c) * (100 + 2 * unat (dc_max_adjustment_percent c)) < 2 ^ 256"

lemma unat_ratio:
  "unat ((ucast (n :: u64) * 100 :: u128) div ucast (t :: u64)) = unat n * 100 div unat t"
proof -
  have "unat n * 100 < 2 ^ 128" using unat_u64_bound [of n] by simp
  then show ?thesis by (simp add: unat_div unat_word_ariths unat_ucast_up)
qed

lemma unat_adjustment:
  assumes "unat p \<le> 100" "unat (r :: u128) = k"
  shows "unat (ucast (100 + min r (ucast (p :: u64))) :: u64) = 100 + min k (unat p)"
proof -
  have "unat (min r (ucast p)) = min k (unat p)"
    using assms(2) by (simp add: min_def word_le_nat_alt unat_ucast_up)
  then have "unat (100 + min r (ucast p)) = 100 + min k (unat p)" using assms(1) by (simp add: unat_word_ariths)
  then show ?thesis using assms(1) by (subst unat_ucast_small) simp_all
qed

lemma clamp_difficulty_le:
  assumes "dc_max_difficulty c \<le> dc_min_difficulty c"
  shows "dc_max_difficulty c \<le> clamp_difficulty d c" "clamp_difficulty d c \<le> dc_min_difficulty c"
    "e \<le> dc_min_difficulty c \<Longrightarrow> e \<le> d \<Longrightarrow> e \<le> clamp_difficulty d c"
    "dc_max_difficulty c \<le> e \<Longrightarrow> d \<le> e \<Longrightarrow> clamp_difficulty d c \<le> e"
  using assms by (auto simp: clamp_difficulty_def)
lemma div_mult_bounds:
  fixes a p q :: nat
  assumes "0 < q"
  shows "q * (a * p div q) \<le> a * p" "a * p < (a * p div q + 1) * q"
  using assms div_times_less_eq_dividend [of "a * p" q] dividend_less_times_div [of q "a * p"]
  by (simp_all add: algebra_simps)

definition moved :: "u256 \<Rightarrow> u64 \<Rightarrow> difficulty_config \<Rightarrow> u256 \<Rightarrow> bool" where
  "moved cur n c x \<longleftrightarrow>
     100 * unat x \<le> unat cur * (100 + (if n = 0 then 2 else 1) * unat (dc_max_adjustment_percent c)) \<and>
     100 * unat cur < (unat x + 1) * (100 + unat (dc_max_adjustment_percent c)) \<and>
     (dc_target_proofs_per_epoch c \<le> n \<longrightarrow> x \<le> cur) \<and> (n \<le> dc_target_proofs_per_epoch c \<longrightarrow> cur \<le> x)"

lemma moved_up:
  assumes "unat x = unat cur * (100 + k) div 100" "n < dc_target_proofs_per_epoch c"
    and "k \<le> (if n = 0 then 2 else 1) * unat (dc_max_adjustment_percent c)"
  shows "moved cur n c x"
proof -
  let ?m = "(if n = 0 then 2 else 1) * unat (dc_max_adjustment_percent c)"
  have x: "100 * unat x \<le> unat cur * (100 + k)" "unat cur * (100 + k) < (unat x + 1) * 100"
    unfolding assms(1) by (rule div_mult_bounds, simp)+
  have "unat cur * (100 + k) \<le> unat cur * (100 + ?m)" using assms(3) by (intro mult_le_mono2) simp
  then have "100 * unat x \<le> unat cur * (100 + ?m)" using x(1) by (rule order_trans [rotated])
  moreover have "100 * unat cur \<le> unat cur * (100 + k)" by simp
  then have lt: "100 * unat cur < (unat x + 1) * 100" using x(2) by (rule le_less_trans)
  then have "cur \<le> x" by (simp add: word_le_nat_alt)
  moreover have "(unat x + 1) * 100 \<le> (unat x + 1) * (100 + unat (dc_max_adjustment_percent c))"
    by (intro mult_le_mono2) simp
  then have "100 * unat cur < (unat x + 1) * (100 + unat (dc_max_adjustment_percent c))" using lt by (rule less_le_trans [rotated])
  moreover have "\<not> dc_target_proofs_per_epoch c \<le> n" using assms(2) by (simp add: not_le)
  ultimately show ?thesis unfolding moved_def by blast
qed

lemma moved_down:
  assumes "unat x = unat cur * 100 div (100 + k)" "dc_target_proofs_per_epoch c < n"
    and "k \<le> unat (dc_max_adjustment_percent c)"
  shows "moved cur n c x"
proof -
  let ?p = "unat (dc_max_adjustment_percent c)"
  have x: "(100 + k) * unat x \<le> unat cur * 100" "unat cur * 100 < (unat x + 1) * (100 + k)"
    unfolding assms(1) by (rule div_mult_bounds, simp)+
  have "(unat x + 1) * (100 + k) \<le> (unat x + 1) * (100 + ?p)" using assms(3) by (intro mult_le_mono2) simp
  then have "100 * unat cur < (unat x + 1) * (100 + ?p)" using x(2) by simp
  moreover have "100 * unat x \<le> (100 + k) * unat x" by simp
  from order_trans [OF this x(1)] have le: "100 * unat x \<le> 100 * unat cur" by simp
  moreover have "100 * unat cur \<le> unat cur * (100 + ?p)" by simp
  from order_trans [OF le this] have "100 * unat x \<le> unat cur * (100 + ?p)" .
  moreover have "n \<noteq> 0" using assms(2) by (auto simp: word_less_nat_alt)
  moreover have "\<not> n \<le> dc_target_proofs_per_epoch c" using assms(2) by (simp add: not_le)
  ultimately show ?thesis unfolding moved_def by (simp add: word_le_nat_alt)
qed

lemma config_fits:
  assumes "difficulty_config_ok c" "cur \<le> dc_min_difficulty c" "m \<le> 100 + 2 * unat (dc_max_adjustment_percent c)"
  shows "unat cur * m < 2 ^ 256"
proof -
  have "unat cur * m \<le> unat (dc_min_difficulty c) * (100 + 2 * unat (dc_max_adjustment_percent c))"
    using assms(2,3) by (intro mult_le_mono) (simp_all add: word_le_nat_alt)
  also have "\<dots> < 2 ^ 256" using assms(1) unfolding difficulty_config_ok_def by blast
  finally show ?thesis .
qed

lemma config_bounds:
  assumes "difficulty_config_ok c"
  shows "unat (dc_max_adjustment_percent c) \<le> 100" "dc_target_proofs_per_epoch c \<noteq> 0"
  using assms by (auto simp: difficulty_config_ok_def)

lemma adjusted_no_proofs:
  assumes ok: "difficulty_config_ok c" and cur: "cur \<le> dc_min_difficulty c" and 1: "n = 0"
  obtains x where "adjust_difficulty cur n c = Some (clamp_difficulty x c)" "moved cur n c x"
proof -
  let ?p = "dc_max_adjustment_percent c"
  note p = config_bounds(1) [OF ok] and t = config_bounds(2) [OF ok]
  have big: "unat cur * (100 + 2 * unat ?p) < 2 ^ 256" by (rule config_fits [OF ok cur order_refl])
  let ?q = "u256_from_u64 (100 + ?p * 2)"
  have q: "unat ?q = 100 + 2 * unat ?p" using p by (simp add: unat_word_ariths)
  have sat: "u256_saturating_mul cur ?q = cur * ?q"
    using big q by (simp add: u256_saturating_mul_def w_sat_mul_def w_checked_mul_def)
  have h: "u256_from_u64 100 \<noteq> 0" "unat (u256_from_u64 100) = 100" by (simp_all add: u256_from_u64_def)
  define x where "x = cur * ?q div u256_from_u64 100"
  have "unat (cur * ?q) = unat cur * (100 + 2 * unat ?p)"
    unfolding unat_word_ariths(2) q using big by simp
  then have "unat x = unat cur * (100 + 2 * unat ?p) div 100" using h(2) by (simp add: x_def unat_div)
  then have "moved cur n c x" using 1 t by (intro moved_up [where k = "2 * unat ?p"]) (auto simp: word_neq_0_conv)
  moreover have "adjust_difficulty cur n c = Some (clamp_difficulty x c)"
    using 1 h(1) sat by (simp add: adjust_difficulty_def u256_div_def w_checked_div_def x_def)
  ultimately show thesis by (intro that)
qed

lemma adjusted_too_many:
  assumes ok: "difficulty_config_ok c" and cur: "cur \<le> dc_min_difficulty c"
    and 2: "n \<noteq> 0" "100 < (ucast n * 100 :: u128) div ucast (dc_target_proofs_per_epoch c)"
  obtains x where "adjust_difficulty cur n c = Some (clamp_difficulty x c)" "moved cur n c x"
proof -
  let ?p = "dc_max_adjustment_percent c" and ?t = "dc_target_proofs_per_epoch c"
  let ?r = "(ucast n * 100 :: u128) div ucast ?t"
  note p = config_bounds(1) [OF ok] and t = config_bounds(2) [OF ok] and fits = config_fits [OF ok cur]
  have r: "unat (?r - 100) = unat ?r - 100" using 2(2) by (subst unat_sub) (simp_all add: less_imp_le)
  let ?k = "min (unat ?r - 100) (unat ?p)"
  have k: "unat (ucast (100 + min (?r - 100) (ucast ?p)) :: u64) = 100 + ?k" by (rule unat_adjustment [OF p r])
  obtain x where x: "Option.bind (u256_mul cur (u256_from_u64 100))
      (\<lambda>x. u256_div x (u256_from_u64 (ucast (100 + min (?r - 100) (ucast ?p))))) = Some x"
    "unat x = unat cur * 100 div (100 + ?k)"
    using u256_mul_div [of cur 100 "ucast (100 + min (?r - 100) (ucast ?p))"] fits [of 100] k by auto
  have "100 < unat n * 100 div unat ?t" using 2(2) by (simp add: word_less_nat_alt unat_ratio)
  moreover have t0: "0 < unat ?t" using t by (simp add: unat_gt_0)
  ultimately have "101 * unat ?t \<le> unat n * 100" by (simp add: less_eq_div_iff_mult_less_eq flip: Suc_le_eq)
  then have "?t < n" using t0 by (simp add: word_less_nat_alt)
  then have "moved cur n c x" by (rule moved_down [OF x(2) _ min.cobounded2])
  moreover have "adjust_difficulty cur n c = Some (clamp_difficulty x c)"
    using 2 t x(1) by (simp add: adjust_difficulty_def Let_def)
  ultimately show thesis by (intro that)
qed

lemma adjusted_too_few:
  assumes ok: "difficulty_config_ok c" and cur: "cur \<le> dc_min_difficulty c"
    and 3: "n \<noteq> 0" "(ucast n * 100 :: u128) div ucast (dc_target_proofs_per_epoch c) < 100"
  obtains x where "adjust_difficulty cur n c = Some (clamp_difficulty x c)" "moved cur n c x"
proof -
  let ?p = "dc_max_adjustment_percent c" and ?t = "dc_target_proofs_per_epoch c"
  let ?r = "(ucast n * 100 :: u128) div ucast ?t"
  note p = config_bounds(1) [OF ok] and t = config_bounds(2) [OF ok] and fits = config_fits [OF ok cur]
  have r: "unat (100 - ?r) = 100 - unat ?r" using 3(2) by (subst unat_sub) (simp_all add: less_imp_le)
  let ?k = "min (100 - unat ?r) (unat ?p)"
  have k: "unat (ucast (100 + min (100 - ?r) (ucast ?p)) :: u64) = 100 + ?k" by (rule unat_adjustment [OF p r])
  obtain x where x: "Option.bind (u256_mul cur (u256_from_u64 (ucast (100 + min (100 - ?r) (ucast ?p)))))
      (\<lambda>x. u256_div x (u256_from_u64 100)) = Some x" "unat x = unat cur * (100 + ?k) div 100"
    using u256_mul_div [of cur "ucast (100 + min (100 - ?r) (ucast ?p))" 100] fits [of "100 + ?k"] k by auto
  have "unat n * 100 div unat ?t < 100" using 3(2) by (simp add: word_less_nat_alt unat_ratio)
  then have "n < ?t" using t by (simp add: word_less_nat_alt div_less_iff_less_mult unat_gt_0)
  moreover have "?k \<le> (if n = 0 then 2 else 1) * unat ?p" using 3(1) by (simp only: if_False mult_1 min.cobounded2)
  ultimately have "moved cur n c x" by (rule moved_up [OF x(2)])
  moreover have "\<not> 100 < ?r" using 3(2) by (meson less_asym)
  then have "adjust_difficulty cur n c = Some (clamp_difficulty x c)"
    using 3 t x(1) by (simp add: adjust_difficulty_def Let_def)
  ultimately show thesis by (intro that)
qed

lemma adjusted_exact:
  assumes ok: "difficulty_config_ok c"
    and 4: "n \<noteq> 0" "(ucast n * 100 :: u128) div ucast (dc_target_proofs_per_epoch c) = 100"
  obtains x where "adjust_difficulty cur n c = Some (clamp_difficulty x c)" "moved cur n c x"
proof -
  let ?p = "dc_max_adjustment_percent c"
  note t = config_bounds(2) [OF ok]
  have "unat cur * 100 < (unat cur + 1) * (100 + unat ?p)" by (simp add: algebra_simps)
  then have "moved cur n c cur" using 4(1) by (simp add: moved_def algebra_simps)
  moreover have "adjust_difficulty cur n c = Some (clamp_difficulty cur c)"
    using 4 t by (simp add: adjust_difficulty_def Let_def)
  ultimately show thesis by (intro that)
qed

lemma adjusted_moved:
  assumes "difficulty_config_ok c" "cur \<le> dc_min_difficulty c"
  obtains x where "adjust_difficulty cur n c = Some (clamp_difficulty x c)" "moved cur n c x"
  using adjusted_no_proofs [OF assms] adjusted_too_many [OF assms] adjusted_too_few [OF assms]
    adjusted_exact [OF assms(1)] by (metis linorder_neqE)

text \<open>C30: from a target within the configured bounds, difficulty adjustment does not panic and stays within
  them; it lowers the target when there were at least as many proofs as wanted and raises it when
  there were at most as many, by no more than the configured percentage (twice that when there
  were none).\<close>

theorem adjust_difficulty_bounded:
  assumes "difficulty_config_ok c" "dc_max_difficulty c \<le> cur" "cur \<le> dc_min_difficulty c"
  shows "\<exists>d. adjust_difficulty cur n c = Some d \<and> dc_max_difficulty c \<le> d \<and> d \<le> dc_min_difficulty c \<and>
    100 * unat d \<le> unat cur * (100 + (if n = 0 then 2 else 1) * unat (dc_max_adjustment_percent c)) \<and>
    100 * unat cur < (unat d + 1) * (100 + unat (dc_max_adjustment_percent c)) \<and>
    (dc_target_proofs_per_epoch c \<le> n \<longrightarrow> d \<le> cur) \<and> (n \<le> dc_target_proofs_per_epoch c \<longrightarrow> cur \<le> d)"
proof -
  obtain x where x: "adjust_difficulty cur n c = Some (clamp_difficulty x c)" "moved cur n c x"
    by (rule adjusted_moved [OF assms(1,3)])
  have le: "dc_max_difficulty c \<le> dc_min_difficulty c" using assms(1) by (simp add: difficulty_config_ok_def)
  let ?d = "clamp_difficulty x c"
  have "?d \<le> x \<or> ?d \<le> cur" "x \<le> ?d \<or> cur \<le> ?d"
    using assms(2,3) by (auto simp: clamp_difficulty_def)
  then have "unat ?d \<le> unat x \<or> unat ?d \<le> unat cur" "unat x \<le> unat ?d \<or> unat cur \<le> unat ?d"
    by (simp_all add: word_le_nat_alt)
  then have "100 * unat ?d \<le> 100 * unat x \<or> 100 * unat ?d \<le> unat cur * 100"
    "(unat x + 1) * (100 + unat (dc_max_adjustment_percent c)) \<le> (unat ?d + 1) * (100 + unat (dc_max_adjustment_percent c))
      \<or> 100 * unat cur < (unat ?d + 1) * 100"
    by (auto intro: mult_le_mono1)
  moreover have "unat cur * 100 \<le> unat cur * (100 + k)" "(unat ?d + 1) * 100 \<le> (unat ?d + 1) * (100 + k)" for k
    by (rule mult_le_mono2, simp)+
  ultimately have "100 * unat ?d \<le> unat cur * (100 + (if n = 0 then 2 else 1) * unat (dc_max_adjustment_percent c))"
    "100 * unat cur < (unat ?d + 1) * (100 + unat (dc_max_adjustment_percent c))"
    using x(2) unfolding moved_def by (meson order_trans less_le_trans)+
  then show ?thesis using x clamp_difficulty_le [OF le] assms(2,3) unfolding moved_def by blast
qed

lemma be_nat_target: "be_nat (replicate m 0 @ replicate n 255) = 256 ^ n - 1"
proof -
  have zeros: "foldl (\<lambda>a b. a * 256 + unat b) 0 (replicate m (0 :: u8)) = 0" by (induction m) simp_all
  have "foldl (\<lambda>a b. a * 256 + unat b) x (replicate n (255 :: u8)) + 1 = (x + 1) * 256 ^ n" for x
  proof (induction n arbitrary: x)
    case (Suc n)
    have "foldl (\<lambda>a b. a * 256 + unat b) x (replicate (Suc n) (255 :: u8)) + 1 = (x * 256 + 255 + 1) * 256 ^ n"
      using Suc.IH [of "x * 256 + 255"] by simp
    then show ?case by (simp add: algebra_simps)
  qed simp
  from this [of 0] show ?thesis by (simp add: be_nat_def zeros)
qed

lemma difficulty_config_default_ok: "difficulty_config_ok difficulty_config_default"
  by (simp add: difficulty_config_ok_def difficulty_config_default_def u256_from_be_bytes_def be_nat_target
      word_le_nat_alt unat_of_nat)

theorem adjust_difficulty_bounded_witness:
  "\<exists>d. adjust_difficulty (dc_min_difficulty difficulty_config_default) 0 difficulty_config_default = Some d \<and>
     dc_max_difficulty difficulty_config_default \<le> d"
proof -
  have "dc_max_difficulty difficulty_config_default \<le> dc_min_difficulty difficulty_config_default"
    using difficulty_config_default_ok by (simp add: difficulty_config_ok_def)
  from adjust_difficulty_bounded [OF difficulty_config_default_ok this order_refl, of 0] show ?thesis by blast
qed

section \<open>Mining\<close>

text \<open>What \<open>mine_simple\<close> finds makes a work proof that verifies.\<close>

lemma mined_proof_verifies:
  assumes "mine_simple H t v n = Some (k, h)"
  shows "verify_proof H (work_proof_new v (mt_epoch t) k h wc ts) t = Inr True"
  using assms by (auto simp: mine_simple_def verify_proof_def work_proof_new_def dest: find_Some_iff [THEN iffD1])

end
