(* ===== verification/Spec2Isabelle.thy ===== *)
theory Spec2Isabelle
  imports Trie_Properties State_Properties Executor_Block Mempool_Properties Consensus_Blocks Pow_Properties
begin

text \<open>
  A verification development of the QFC core: trie, state, executor and mempool.
\<close>

end
